(* ===== verification/E1_Prelude.thy ===== *)
theory E1_Prelude
  imports Main "HOL-Library.Word" "HOL-Library.Signed_Division"
begin

text \<open>
  Shared ground of the development: the fixed-width integer types of the C code, the
  facts about unsigned arithmetic and lists that several components use, and the two
  interface locales every event-driven component is an instance of.

  Conventions. A \<open>uintN_t\<close> is an \<open>N word\<close>, so that \<open>+\<close>, \<open>-\<close> and \<open>*\<close> wrap as they do in C;
  the target is 32-bit ARM, so \<open>unsigned int\<close>, \<open>size_t\<close> and \<open>uintptr_t\<close> are \<open>32 word\<close>.
  A signed C integer whose arithmetic stays inside its range is an \<open>int\<close>. An \<open>int\<close> that
  the code uses as a flag (only 0 and 1 are ever stored) is a \<open>bool\<close>. A function that
  updates a struct through a pointer takes the record and returns it updated, next to
  its result.
\<close>

unbundle bit_operations_syntax

type_synonym u8 = "8 word"
type_synonym u16 = "16 word"
type_synonym u32 = "32 word"
type_synonym u64 = "64 word"

named_theorems e1_consts "the numeric constants of the code"
named_theorems e1_frame "fields an operation leaves unchanged"

section \<open>Unsigned arithmetic\<close>

lemma unat_elapsed: "last \<le> now \<Longrightarrow> unat (now - last) = unat now - unat last"
  for now last :: "'a::len word"
  by (simp add: unat_sub)

lemma elapsed_le_iff:
  "last \<le> now \<Longrightarrow> now - last \<le> d \<longleftrightarrow> unat now \<le> unat last + unat d"
  for now last d :: "'a::len word"
  by (auto simp: word_le_nat_alt unat_sub)

lemma elapsed_gt_iff:
  "last \<le> now \<Longrightarrow> d < now - last \<longleftrightarrow> unat last + unat d < unat now"
  for now last d :: "'a::len word"
  by (auto simp: word_less_nat_alt word_le_nat_alt unat_sub)

text \<open>A clock sample taken before the stored time stamp makes the difference wrap.\<close>

lemma unat_elapsed_wrapped:
  fixes now last :: "'a::len word"
  assumes "now < last"
  shows "unat (now - last) = 2 ^ LENGTH('a) - (unat last - unat now)"
  using assms by (simp add: unat_sub_if' word_less_nat_alt word_le_nat_alt)

lemma unat_Suc_word: "unat (x + 1) = Suc (unat x)" if "x < y"
  for x y :: "'a::len word"
proof -
  have "unat y < 2 ^ LENGTH('a)" by (rule unsigned_less)
  moreover from that have "unat x < unat y" by (simp add: word_less_nat_alt)
  ultimately have "Suc (unat x) < 2 ^ LENGTH('a)" by linarith
  then show ?thesis by (simp add: unat_word_ariths)
qed

lemma word_eq_of_nat: "unat x = n \<Longrightarrow> x = word_of_nat n" for x :: "'a::len word"
  by (drule arg_cong [of _ _ "word_of_nat :: nat \<Rightarrow> 'a word"]) simp

lemma unat_ucast_up:
  fixes x :: "'a::len word"
  assumes "LENGTH('a) \<le> LENGTH('b::len)"
  shows "unat (ucast x :: 'b word) = unat x"
proof -
  have "unat x < 2 ^ LENGTH('a)" by (rule unsigned_less)
  also have "(2::nat) ^ LENGTH('a) \<le> 2 ^ LENGTH('b)"
    using assms by (intro power_increasing) simp_all
  finally show ?thesis by (simp add: unsigned_ucast_eq take_bit_nat_eq_self)
qed

lemma unat_ucast_u8 [simp]: "unat (ucast b :: u32) = unat b" for b :: u8
  by (rule unat_ucast_up) simp

lemma unat_ucast_u32 [simp]: "unat (ucast b :: u64) = unat b" for b :: u32
  by (rule unat_ucast_up) simp

lemma unat_and_mask: "unat (x AND mask n) = unat x mod 2 ^ n"
  for x :: "'a::len word"
proof -
  have "unat (x AND mask n) = unat (take_bit n x)" by (simp add: take_bit_eq_mask)
  also have "\<dots> = take_bit n (unat x)" by (rule unsigned_take_bit_eq)
  finally show ?thesis by (simp add: take_bit_eq_mod)
qed

text \<open>The conversion of an \<open>int\<close> to an \<open>int16_t\<close> keeps the low sixteen bits.\<close>

definition int16 :: "int \<Rightarrow> int" where
  "int16 x = signed_take_bit 15 x"

lemma int16_id: "- 32768 \<le> x \<Longrightarrow> x < 32768 \<Longrightarrow> int16 x = x"
  unfolding int16_def by (rule signed_take_bit_int_eq_self) simp_all

lemma int16_range: "- 32768 \<le> int16 x \<and> int16 x < 32768"
  using signed_take_bit_int_greater_eq_minus_exp [of 15 x] signed_take_bit_int_less_exp [of 15 x]
  by (simp add: int16_def)

text \<open>C division truncates: \<open>sdiv\<close> of \<open>HOL-Library.Signed_Division\<close>.\<close>

lemma abs_sdiv: "\<bar>k sdiv l\<bar> = \<bar>k\<bar> div \<bar>l\<bar>" for k l :: int
proof (cases "k = 0 \<or> l = 0")
  case True
  then show ?thesis by (auto simp: signed_divide_int_def)
next
  case False
  have "0 \<le> \<bar>k\<bar> div \<bar>l\<bar>" using False by (simp add: pos_imp_zdiv_nonneg_iff)
  with False show ?thesis by (simp add: signed_divide_int_def abs_mult abs_sgn_eq)
qed

section \<open>Loops that fill an array\<close>

text \<open>
  A loop over distinct indices that stores one value per index. The lemmas read the array
  after the loop, for one loop and for two nested ones.
\<close>

lemma length_fold_update [simp]: "length (fold (\<lambda>i xs. xs[f i := g i]) is xs) = length xs"
  by (induction "is" arbitrary: xs) simp_all

lemma fold_update_other:
  "k \<notin> f ` set is \<Longrightarrow> fold (\<lambda>i xs. xs[f i := g i]) is xs ! k = xs ! k"
  by (induction "is" arbitrary: xs) auto

lemma fold_update_nth:
  "inj_on f (set is) \<Longrightarrow> i \<in> set is \<Longrightarrow> f i < length xs \<Longrightarrow>
   fold (\<lambda>i xs. xs[f i := g i]) is xs ! f i = g i"
proof (induction "is" arbitrary: xs)
  case (Cons j js)
  show ?case
  proof (cases "i \<in> set js")
    case True
    with Cons show ?thesis by simp
  next
    case False
    with Cons.prems have [simp]: "j = i" by simp
    from False Cons.prems(1) have "f i \<notin> f ` set js" by auto
    with Cons.prems(3) show ?thesis by (simp add: fold_update_other)
  qed
qed simp

lemma fold_nested:
  "fold (\<lambda>x. fold (\<lambda>y. g x y) ys) xs = fold (\<lambda>p. g (fst p) (snd p)) (List.product xs ys)"
proof (induction xs)
  case (Cons x xs)
  have "fold (\<lambda>p. g (fst p) (snd p)) (map (Pair x) ys) = fold (\<lambda>y. g x y) ys"
    by (simp add: fold_map comp_def)
  with Cons show ?case by simp
qed simp

lemma grid_index_div_mod: "x < w \<Longrightarrow> (y * w + x) mod w = x \<and> (y * w + x) div w = (y::nat)"
  by simp

lemma grid_index_inj:
  "x < w \<Longrightarrow> x' < w \<Longrightarrow> y * w + x = y' * w + x' \<Longrightarrow> x = x' \<and> y = (y'::nat)"
  using grid_index_div_mod [of x w y] grid_index_div_mod [of x' w y'] by metis

lemma grid_index_less: "x < w \<Longrightarrow> y < h \<Longrightarrow> y * w + x < h * (w::nat)"
proof -
  assume "x < w" and "y < h"
  then have "y * w + x < Suc y * w" by simp
  also from \<open>y < h\<close> have "\<dots> \<le> h * w" by (intro mult_le_mono1) simp
  finally show ?thesis .
qed

lemma grid_fill_nth:
  assumes "x < w" and "y < h" and "length out = h * w"
  shows "fold (\<lambda>x. fold (\<lambda>y out. out[y * w + x := g x y]) [0..<h]) [0..<w] out ! (y * w + x) =
    g x y"
proof -
  let ?f = "\<lambda>p. snd p * w + fst p" and ?ps = "List.product [0..<w] [0..<h]"
  have inj: "inj_on ?f (set ?ps)"
  proof (rule inj_onI)
    fix p q
    assume "p \<in> set ?ps" and "q \<in> set ?ps" and eq: "?f p = ?f q"
    then have "fst p < w" and "fst q < w" by auto
    from grid_index_inj [OF this eq] show "p = q" by (simp add: prod_eq_iff)
  qed
  have "(x, y) \<in> set ?ps" using assms by simp
  moreover have "?f (x, y) < length out" using assms grid_index_less by simp
  ultimately show ?thesis
    using fold_update_nth [OF inj, of "(x, y)" out "\<lambda>p. g (fst p) (snd p)"]
    by (simp only: fold_nested fst_conv snd_conv)
qed

lemma length_grid_fill [simp]:
  "length (fold (\<lambda>x. fold (\<lambda>y out. out[y * w + x := g x y]) ys) xs out) = length out"
  by (simp add: fold_nested)

section \<open>Runs of an event-driven component\<close>

text \<open>
  A component is a handler \<open>step\<close> for each event and a well-formedness invariant that
  every handler keeps; the invariant then holds after any sequence of events.
\<close>

locale event_machine =
  fixes step :: "'e \<Rightarrow> 's \<Rightarrow> 's"
    and inv :: "'s \<Rightarrow> bool"
  assumes step_inv: "inv s \<Longrightarrow> inv (step e s)"
begin

lemma run_inv: "inv s \<Longrightarrow> inv (fold step es s)"
  by (induction es arbitrary: s) (auto intro: step_inv)

lemma run_prefix_inv: "inv s \<Longrightarrow> es = xs @ ys \<Longrightarrow> inv (fold step xs s)"
  by (rule run_inv)

end

text \<open>
  A component that refines an abstract one: an abstraction function commutes with every
  handler, on the states the invariant describes.
\<close>

locale refining_machine = event_machine step inv
  for step :: "'e \<Rightarrow> 's \<Rightarrow> 's" and inv :: "'s \<Rightarrow> bool" +
  fixes abs :: "'s \<Rightarrow> 'a"
    and spec :: "'e \<Rightarrow> 'a \<Rightarrow> 'a"
  assumes step_refines: "inv s \<Longrightarrow> abs (step e s) = spec e (abs s)"
begin

lemma run_refines: "inv s \<Longrightarrow> abs (fold step es s) = fold spec es (abs s)"
proof (induction es arbitrary: s)
  case (Cons e es)
  from Cons.prems have "inv (step e s)" by (rule step_inv)
  from Cons.IH [OF this] Cons.prems show ?case by (simp add: step_refines)
qed simp

end

end
