(* ===== verification/Runtime_Control.thy ===== *)
theory Runtime_Control
  imports E1_Prelude
begin

text \<open>
  The lifecycle controller of \<open>src/common/e1-runtime-control.h\<close>: a pure state machine that
  turns decoded PTZ commands, dashboard requests and clock ticks into the actions "enter
  Doom", "leave Doom" and "forward this command to the game". One definition per function
  of the header, on the record that mirrors \<open>struct e1_runtime_control\<close>; the flags the C
  code keeps in an \<open>int\<close> are booleans. Commands are the decoded PTZ numbers (0 stop, 1 left,
  2 right, 3 up, 4 down). Time stamps are 64-bit milliseconds and elapsed times are unsigned
  differences, as in the code.
\<close>

section \<open>Data\<close>

datatype e1_runtime_mode =
    E1_RUNTIME_CAMERA_ARMED
  | E1_RUNTIME_ENTRY_MELT
  | E1_RUNTIME_DOOM
  | E1_RUNTIME_EXIT_MELT

definition E1_SECRET_GAP_MS :: u64 where [e1_consts]: "E1_SECRET_GAP_MS = 1500"
definition E1_SECRET_TOTAL_MS :: u64 where [e1_consts]: "E1_SECRET_TOTAL_MS = 10000"
definition E1_STOP_ONLY_SECRET_TAPS :: u32 where [e1_consts]: "E1_STOP_ONLY_SECRET_TAPS = 8"
definition E1_EXIT_HOLD_MS :: u64 where [e1_consts]: "E1_EXIT_HOLD_MS = 3000"

definition E1_RUNTIME_ACTION_NONE :: u32 where [e1_consts]: "E1_RUNTIME_ACTION_NONE = 0"
definition E1_RUNTIME_ACTION_ENTER :: u32 where [e1_consts]: "E1_RUNTIME_ACTION_ENTER = 1"
definition E1_RUNTIME_ACTION_EXIT :: u32 where [e1_consts]: "E1_RUNTIME_ACTION_EXIT = 2"
definition E1_RUNTIME_ACTION_FORWARD :: u32 where [e1_consts]: "E1_RUNTIME_ACTION_FORWARD = 4"

record e1_runtime_control =
  mode :: e1_runtime_mode
  secret_index :: u32
  secret_first_ms :: u64
  secret_last_ms :: u64
  stop_only_index :: u32
  stop_only_first_ms :: u64
  stop_only_last_ms :: u64
  exit_down_first_ms :: u64
  camera_control_down :: bool
  raw_direction_since_stop :: bool
  secret_complete :: bool
  exit_down :: bool

text \<open>The \<open>memset\<close> to zero that every owner of a controller starts from.\<close>

definition rc_zero :: "e1_runtime_mode \<Rightarrow> e1_runtime_control" where
  "rc_zero m = \<lparr>mode = m, secret_index = 0, secret_first_ms = 0, secret_last_ms = 0,
     stop_only_index = 0, stop_only_first_ms = 0, stop_only_last_ms = 0,
     exit_down_first_ms = 0, camera_control_down = False,
     raw_direction_since_stop = False, secret_complete = False, exit_down = False\<rparr>"

section \<open>Operations\<close>

definition e1_runtime_reset_secret :: "e1_runtime_control \<Rightarrow> e1_runtime_control" where
  "e1_runtime_reset_secret state =
     state\<lparr>secret_index := 0, secret_first_ms := 0, secret_last_ms := 0,
           secret_complete := False\<rparr>"

definition e1_runtime_reset_stop_only :: "e1_runtime_control \<Rightarrow> e1_runtime_control" where
  "e1_runtime_reset_stop_only state =
     state\<lparr>stop_only_index := 0, stop_only_first_ms := 0, stop_only_last_ms := 0\<rparr>"

definition e1_runtime_request_enter ::
    "e1_runtime_control \<Rightarrow> e1_runtime_control \<times> u32" where
  "e1_runtime_request_enter state =
     (if mode state \<noteq> E1_RUNTIME_CAMERA_ARMED then (state, E1_RUNTIME_ACTION_NONE)
      else
        (let state = state\<lparr>mode := E1_RUNTIME_ENTRY_MELT, camera_control_down := False,
                           raw_direction_since_stop := False\<rparr>;
             state = e1_runtime_reset_secret state;
             state = e1_runtime_reset_stop_only state
         in (state, E1_RUNTIME_ACTION_ENTER)))"

definition e1_runtime_request_exit ::
    "e1_runtime_control \<Rightarrow> e1_runtime_control \<times> u32" where
  "e1_runtime_request_exit state =
     (if mode state \<noteq> E1_RUNTIME_DOOM then (state, E1_RUNTIME_ACTION_NONE)
      else
        (let state = state\<lparr>mode := E1_RUNTIME_EXIT_MELT, camera_control_down := False,
                           raw_direction_since_stop := False, exit_down := False,
                           exit_down_first_ms := 0\<rparr>;
             state = e1_runtime_reset_stop_only state
         in (state, E1_RUNTIME_ACTION_EXIT)))"

text \<open>The expiry tests the code spells out at each use.\<close>

definition secret_expired :: "e1_runtime_control \<Rightarrow> u64 \<Rightarrow> bool" where
  "secret_expired state now_ms \<longleftrightarrow>
     now_ms - secret_last_ms state > E1_SECRET_GAP_MS \<or>
     now_ms - secret_first_ms state > E1_SECRET_TOTAL_MS"

definition stop_only_expired :: "e1_runtime_control \<Rightarrow> u64 \<Rightarrow> bool" where
  "stop_only_expired state now_ms \<longleftrightarrow>
     now_ms - stop_only_last_ms state > E1_SECRET_GAP_MS \<or>
     now_ms - stop_only_first_ms state > E1_SECRET_TOTAL_MS"

definition exit_hold_qualified :: "e1_runtime_control \<Rightarrow> u64 \<Rightarrow> bool" where
  "exit_hold_qualified state now_ms \<longleftrightarrow>
     now_ms \<ge> exit_down_first_ms state \<and>
     now_ms - exit_down_first_ms state \<ge> E1_EXIT_HOLD_MS"

definition e1_runtime_observe_raw_ptz ::
    "e1_runtime_control \<Rightarrow> int \<Rightarrow> u64 \<Rightarrow> e1_runtime_control \<times> u32" where
  "e1_runtime_observe_raw_ptz state command now_ms =
     (if mode state \<noteq> E1_RUNTIME_CAMERA_ARMED \<and> mode state \<noteq> E1_RUNTIME_DOOM then
        (e1_runtime_reset_stop_only (state\<lparr>raw_direction_since_stop := False\<rparr>),
         E1_RUNTIME_ACTION_NONE)
      else
        (let state = (if stop_only_index state \<noteq> 0 \<and> stop_only_expired state now_ms
                      then e1_runtime_reset_stop_only state else state)
         in if command \<noteq> 0 then
              (e1_runtime_reset_stop_only (state\<lparr>raw_direction_since_stop := True\<rparr>),
               E1_RUNTIME_ACTION_NONE)
            else if raw_direction_since_stop state then
              (e1_runtime_reset_stop_only (state\<lparr>raw_direction_since_stop := False\<rparr>),
               E1_RUNTIME_ACTION_NONE)
            else
              (let state = (if stop_only_index state = 0
                            then state\<lparr>stop_only_first_ms := now_ms\<rparr> else state);
                   state = state\<lparr>stop_only_last_ms := now_ms,
                                 stop_only_index := stop_only_index state + 1\<rparr>
               in if stop_only_index state = E1_STOP_ONLY_SECRET_TAPS then
                    (if mode state = E1_RUNTIME_CAMERA_ARMED
                     then e1_runtime_request_enter state
                     else e1_runtime_request_exit state)
                  else (state, E1_RUNTIME_ACTION_NONE))))"

definition secret_code :: "int list" where
  "secret_code = [3, 3, 4, 4, 1, 2, 1, 2]"

definition e1_runtime_camera_command ::
    "e1_runtime_control \<Rightarrow> int \<Rightarrow> u64 \<Rightarrow> e1_runtime_control \<times> u32" where
  "e1_runtime_camera_command state command now_ms =
     (let state = (if secret_index state \<noteq> 0 \<and> secret_expired state now_ms
                   then e1_runtime_reset_secret state else state)
      in if command = 0 then
           (let state = state\<lparr>camera_control_down := False\<rparr>
            in if secret_complete state then
                 (e1_runtime_reset_secret (state\<lparr>mode := E1_RUNTIME_ENTRY_MELT\<rparr>),
                  E1_RUNTIME_ACTION_ENTER)
               else (state, E1_RUNTIME_ACTION_NONE))
         else if camera_control_down state then (state, E1_RUNTIME_ACTION_NONE)
         else
           (let state = state\<lparr>camera_control_down := True\<rparr>
            in if unat (secret_index state) < length secret_code \<and>
                  command = secret_code ! unat (secret_index state) then
                 (let state = (if secret_index state = 0
                               then state\<lparr>secret_first_ms := now_ms\<rparr> else state);
                      state = state\<lparr>secret_last_ms := now_ms,
                                    secret_index := secret_index state + 1\<rparr>;
                      state = (if unat (secret_index state) = length secret_code
                               then state\<lparr>secret_complete := True\<rparr> else state)
                  in (state, E1_RUNTIME_ACTION_NONE))
               else
                 (let state = e1_runtime_reset_secret state;
                      state = (if command = secret_code ! 0
                               then state\<lparr>secret_index := 1, secret_first_ms := now_ms,
                                          secret_last_ms := now_ms\<rparr>
                               else state)
                  in (state, E1_RUNTIME_ACTION_NONE))))"

definition e1_runtime_apply_ptz ::
    "e1_runtime_control \<Rightarrow> int \<Rightarrow> u64 \<Rightarrow> e1_runtime_control \<times> u32" where
  "e1_runtime_apply_ptz state command now_ms =
     (if mode state = E1_RUNTIME_CAMERA_ARMED then
        e1_runtime_camera_command state command now_ms
      else if mode state = E1_RUNTIME_EXIT_MELT then
        (if exit_down state \<and> command = 0
         then (state\<lparr>exit_down := False, exit_down_first_ms := 0\<rparr>,
               E1_RUNTIME_ACTION_FORWARD)
         else (state, E1_RUNTIME_ACTION_NONE))
      else if mode state \<noteq> E1_RUNTIME_DOOM then (state, E1_RUNTIME_ACTION_NONE)
      else if command = 4 then
        (if \<not> exit_down state
         then (state\<lparr>exit_down := True, exit_down_first_ms := now_ms\<rparr>,
               E1_RUNTIME_ACTION_FORWARD)
         else (state, E1_RUNTIME_ACTION_FORWARD))
      else if command = 0 \<and> exit_down state then
        (let qualified = exit_hold_qualified state now_ms;
             state = state\<lparr>exit_down := False, exit_down_first_ms := 0\<rparr>
         in if qualified
            then (state\<lparr>mode := E1_RUNTIME_EXIT_MELT\<rparr>,
                  E1_RUNTIME_ACTION_FORWARD OR E1_RUNTIME_ACTION_EXIT)
            else (state, E1_RUNTIME_ACTION_FORWARD))
      else if exit_down state then
        (state\<lparr>exit_down := False, exit_down_first_ms := 0\<rparr>, E1_RUNTIME_ACTION_FORWARD)
      else (state, E1_RUNTIME_ACTION_FORWARD))"

definition e1_runtime_tick ::
    "e1_runtime_control \<Rightarrow> u64 \<Rightarrow> e1_runtime_control \<times> u32" where
  "e1_runtime_tick state now_ms =
     (let state = (if mode state = E1_RUNTIME_CAMERA_ARMED \<and> secret_index state \<noteq> 0 \<and>
                      secret_expired state now_ms
                   then e1_runtime_reset_secret state else state);
          state = (if (mode state = E1_RUNTIME_CAMERA_ARMED \<or>
                       mode state = E1_RUNTIME_DOOM) \<and>
                      stop_only_index state \<noteq> 0 \<and> stop_only_expired state now_ms
                   then e1_runtime_reset_stop_only state else state)
      in if mode state = E1_RUNTIME_DOOM \<and> exit_down state \<and>
            exit_hold_qualified state now_ms
         then (state\<lparr>mode := E1_RUNTIME_EXIT_MELT\<rparr>, E1_RUNTIME_ACTION_EXIT)
         else (state, E1_RUNTIME_ACTION_NONE))"

text \<open>The two completions return 0 or -1 in C.\<close>

definition e1_runtime_entry_complete ::
    "e1_runtime_control \<Rightarrow> e1_runtime_control \<times> int" where
  "e1_runtime_entry_complete state =
     (if mode state \<noteq> E1_RUNTIME_ENTRY_MELT then (state, -1)
      else (state\<lparr>mode := E1_RUNTIME_DOOM\<rparr>, 0))"

definition e1_runtime_exit_complete ::
    "e1_runtime_control \<Rightarrow> e1_runtime_control \<times> int" where
  "e1_runtime_exit_complete state =
     (if mode state \<noteq> E1_RUNTIME_EXIT_MELT then (state, -1)
      else
        (let state = state\<lparr>mode := E1_RUNTIME_CAMERA_ARMED, camera_control_down := False,
                           raw_direction_since_stop := False, exit_down := False,
                           exit_down_first_ms := 0\<rparr>;
             state = e1_runtime_reset_secret state;
             state = e1_runtime_reset_stop_only state
         in (state, 0)))"

section \<open>Events and well-formedness\<close>

text \<open>
  Everything a client of the header can do to a controller, as one event type, so that the
  invariants hold for every interleaving of the calls.
\<close>

datatype rc_event =
    RC_Observe int u64
  | RC_Apply int u64
  | RC_Tick u64
  | RC_Request_Enter
  | RC_Request_Exit
  | RC_Entry_Complete
  | RC_Exit_Complete

fun rc_call :: "rc_event \<Rightarrow> e1_runtime_control \<Rightarrow> e1_runtime_control \<times> u32" where
  "rc_call (RC_Observe c t) s = e1_runtime_observe_raw_ptz s c t"
| "rc_call (RC_Apply c t) s = e1_runtime_apply_ptz s c t"
| "rc_call (RC_Tick t) s = e1_runtime_tick s t"
| "rc_call RC_Request_Enter s = e1_runtime_request_enter s"
| "rc_call RC_Request_Exit s = e1_runtime_request_exit s"
| "rc_call RC_Entry_Complete s = (fst (e1_runtime_entry_complete s), E1_RUNTIME_ACTION_NONE)"
| "rc_call RC_Exit_Complete s = (fst (e1_runtime_exit_complete s), E1_RUNTIME_ACTION_NONE)"

definition rc_step :: "rc_event \<Rightarrow> e1_runtime_control \<Rightarrow> e1_runtime_control" where
  "rc_step e s = fst (rc_call e s)"

definition emits :: "u32 \<Rightarrow> u32 \<Rightarrow> bool" where
  "emits actions flag \<longleftrightarrow> actions AND flag \<noteq> 0"

definition wf_control :: "e1_runtime_control \<Rightarrow> bool" where
  "wf_control s \<longleftrightarrow>
     unat (secret_index s) \<le> length secret_code \<and>
     (secret_complete s \<longleftrightarrow> unat (secret_index s) = length secret_code) \<and>
     (secret_index s = 0 \<longrightarrow> secret_first_ms s = 0 \<and> secret_last_ms s = 0) \<and>
     (mode s \<noteq> E1_RUNTIME_CAMERA_ARMED \<longrightarrow> secret_index s = 0 \<and> \<not> camera_control_down s) \<and>
     stop_only_index s < E1_STOP_ONLY_SECRET_TAPS \<and>
     (stop_only_index s = 0 \<longrightarrow> stop_only_first_ms s = 0 \<and> stop_only_last_ms s = 0) \<and>
     (exit_down s \<longrightarrow> mode s = E1_RUNTIME_DOOM \<or> mode s = E1_RUNTIME_EXIT_MELT) \<and>
     (\<not> exit_down s \<longrightarrow> exit_down_first_ms s = 0)"

lemmas rc_op_defs =
  e1_runtime_reset_secret_def e1_runtime_reset_stop_only_def e1_runtime_request_enter_def
  e1_runtime_request_exit_def e1_runtime_observe_raw_ptz_def e1_runtime_camera_command_def
  e1_runtime_apply_ptz_def e1_runtime_tick_def e1_runtime_entry_complete_def
  e1_runtime_exit_complete_def Let_def

lemma length_secret_code [simp]: "length secret_code = 8"
  by (simp add: secret_code_def)

lemma stop_only_bump:
  "i < 8 \<Longrightarrow> i + 1 \<noteq> 8 \<Longrightarrow> i + 1 < 8 \<and> i + 1 \<noteq> 0" for i :: u32
proof -
  assume "i < 8" and "i + 1 \<noteq> 8"
  moreover have "unat (i + 1) = Suc (unat i)" using \<open>i < 8\<close> by (rule unat_Suc_word)
  moreover have "unat (i + 1) \<noteq> 8" using \<open>i + 1 \<noteq> 8\<close> by (simp add: word_unat_eq_iff)
  ultimately show ?thesis by (auto simp: word_less_nat_alt word_unat_eq_iff)
qed

lemma secret_bump: "unat i < 8 \<Longrightarrow> unat (i + 1) = Suc (unat i)" for i :: u32
  by (rule unat_Suc_word [of _ 8]) (simp add: word_less_nat_alt)

lemma wf_zero [simp]: "wf_control (rc_zero m)"
  by (simp add: wf_control_def rc_zero_def e1_consts)

lemma wf_observe: "wf_control s \<Longrightarrow> wf_control (fst (e1_runtime_observe_raw_ptz s c t))"
  using stop_only_bump [of "stop_only_index s"]
  by (auto simp: wf_control_def rc_op_defs e1_consts)

lemma wf_camera_command:
  assumes "wf_control s" and "mode s = E1_RUNTIME_CAMERA_ARMED"
  shows "wf_control (fst (e1_runtime_camera_command s c t))"
proof -
  have idx: "unat (i + 1) = Suc (unat i) \<and> i + 1 \<noteq> 0" if "unat i < 8" for i :: u32
    using secret_bump [OF that] by (auto simp: unat_eq_0 [symmetric])
  show ?thesis
    using assms idx [of 0] idx [of "secret_index s"]
    by (auto simp: wf_control_def rc_op_defs)
qed

lemma wf_apply: "wf_control s \<Longrightarrow> wf_control (fst (e1_runtime_apply_ptz s c t))"
proof (cases "mode s = E1_RUNTIME_CAMERA_ARMED")
  case True
  assume "wf_control s"
  with True show ?thesis by (simp add: e1_runtime_apply_ptz_def wf_camera_command)
next
  case False
  assume "wf_control s"
  with False show ?thesis by (auto simp: wf_control_def e1_runtime_apply_ptz_def Let_def)
qed

lemma wf_tick: "wf_control s \<Longrightarrow> wf_control (fst (e1_runtime_tick s t))"
  by (auto simp: wf_control_def rc_op_defs e1_consts)

lemma wf_step: "wf_control s \<Longrightarrow> wf_control (rc_step e s)"
  by (cases e)
    (auto simp: rc_step_def wf_observe wf_apply wf_tick,
     auto simp: wf_control_def rc_op_defs e1_consts)

interpretation rc: event_machine rc_step wf_control
  by unfold_locales (rule wf_step)

end
