(* ===== verification/Runtime_Secret.thy ===== *)
theory Runtime_Secret
  imports Runtime_Control
begin

text \<open>
  What the lifecycle controller promises: the mode graph, who may enter and leave Doom, and
  the timing of the gestures. The gesture theorems speak about the history of commands a
  run has seen: \<open>presses\<close> collects the key presses the matcher of
  \<open>e1_runtime_camera_command\<close> really looks at (a repeated command while the control is held
  is not one), \<open>stop_taps\<close> the trailing run of stop-only taps.
\<close>

section \<open>Modes and actions\<close>

lemma rc_call_enter:
  "emits (snd (rc_call e s)) E1_RUNTIME_ACTION_ENTER \<longleftrightarrow>
     mode s = E1_RUNTIME_CAMERA_ARMED \<and> mode (rc_step e s) = E1_RUNTIME_ENTRY_MELT"
  by (cases e; cases "mode s") (auto simp: rc_step_def emits_def rc_op_defs e1_consts)

lemma rc_call_exit:
  "emits (snd (rc_call e s)) E1_RUNTIME_ACTION_EXIT \<longleftrightarrow>
     mode s = E1_RUNTIME_DOOM \<and> mode (rc_step e s) = E1_RUNTIME_EXIT_MELT"
  by (cases e; cases "mode s") (auto simp: rc_step_def emits_def rc_op_defs e1_consts)

text \<open>The lifecycle graph: armed, entry melt, Doom, exit melt, armed again.\<close>

fun next_mode :: "e1_runtime_mode \<Rightarrow> e1_runtime_mode" where
  "next_mode E1_RUNTIME_CAMERA_ARMED = E1_RUNTIME_ENTRY_MELT"
| "next_mode E1_RUNTIME_ENTRY_MELT = E1_RUNTIME_DOOM"
| "next_mode E1_RUNTIME_DOOM = E1_RUNTIME_EXIT_MELT"
| "next_mode E1_RUNTIME_EXIT_MELT = E1_RUNTIME_CAMERA_ARMED"

lemma rc_mode_step: "mode (rc_step e s) \<in> {mode s, next_mode (mode s)}"
  by (cases e; cases "mode s") (auto simp: rc_step_def rc_op_defs)

text \<open>C26. Every call of the controller either keeps the mode or moves it one step along the
  lifecycle armed, entry melt, Doom, exit melt, armed; the ENTER action is returned exactly
  when the call moves from armed to entry melt and EXIT exactly when it moves from Doom to
  exit melt.\<close>

theorem lifecycle_actions:
  "mode (rc_step e s) \<in> {mode s, next_mode (mode s)} \<and>
   (emits (snd (rc_call e s)) E1_RUNTIME_ACTION_ENTER \<longleftrightarrow>
      mode s = E1_RUNTIME_CAMERA_ARMED \<and> mode (rc_step e s) = E1_RUNTIME_ENTRY_MELT) \<and>
   (emits (snd (rc_call e s)) E1_RUNTIME_ACTION_EXIT \<longleftrightarrow>
      mode s = E1_RUNTIME_DOOM \<and> mode (rc_step e s) = E1_RUNTIME_EXIT_MELT)"
  by (intro conjI rc_mode_step rc_call_enter rc_call_exit)

text \<open>C16. Whatever sequence of calls a controller has received since it was zeroed, it is
  well formed: the secret index never passes the eight taps and is complete exactly at
  eight, the stop-only counter stays below eight, no matcher state survives outside the
  camera mode, and a down hold is remembered only in Doom or during the exit melt.\<close>

theorem control_always_wf: "wf_control (fold rc_step es (rc_zero m))"
  by (rule rc.run_inv) simp

section \<open>The directional secret\<close>

type_synonym press = "int \<times> u64"

text \<open>The presses an event sequence feeds to the matcher, oldest first.\<close>

fun press_of :: "rc_event \<Rightarrow> e1_runtime_control \<Rightarrow> press list" where
  "press_of (RC_Apply c t) s =
     (if mode s = E1_RUNTIME_CAMERA_ARMED \<and> c \<noteq> 0 \<and> \<not> camera_control_down s
      then [(c, t)] else [])"
| "press_of _ s = []"

fun presses :: "rc_event list \<Rightarrow> e1_runtime_control \<Rightarrow> press list" where
  "presses [] s = []"
| "presses (e # es) s = press_of e s @ presses es (rc_step e s)"

definition gap_ok :: "press \<Rightarrow> press \<Rightarrow> bool" where
  "gap_ok p q \<longleftrightarrow> snd q - snd p \<le> E1_SECRET_GAP_MS"

definition paced :: "press list \<Rightarrow> bool" where
  "paced ps \<longleftrightarrow> successively gap_ok ps \<and>
     (\<forall>p \<in> set ps. snd p - snd (hd ps) \<le> E1_SECRET_TOTAL_MS)"

text \<open>A matcher that has accepted \<open>i\<close> taps of \<open>code\<close>, the first at \<open>f\<close> and the last at \<open>l\<close>:
  they are the newest entries of the history \<open>h\<close>, in order and in time.\<close>

definition tracked :: "int list \<Rightarrow> u32 \<Rightarrow> u64 \<Rightarrow> u64 \<Rightarrow> press list \<Rightarrow> bool" where
  "tracked code i f l h \<longleftrightarrow> (\<exists>pre ps. h = pre @ ps \<and> length ps = unat i \<and>
     map fst ps = take (unat i) code \<and> paced ps \<and>
     (ps \<noteq> [] \<longrightarrow> snd (hd ps) = f \<and> snd (last ps) = l))"

lemma paced_Nil [simp]: "paced []"
  by (simp add: paced_def)

lemma paced_single [simp]: "paced [p]"
  by (simp add: paced_def e1_consts)

lemma paced_snoc:
  assumes "paced ps" and "ps \<noteq> []"
    and "snd p - snd (last ps) \<le> E1_SECRET_GAP_MS"
    and "snd p - snd (hd ps) \<le> E1_SECRET_TOTAL_MS"
  shows "paced (ps @ [p])"
  using assms by (auto simp: paced_def successively_append_iff gap_ok_def)

lemma tracked_zero: "tracked code 0 f l h"
  unfolding tracked_def by (rule exI [of _ h], rule exI [of _ "[]"]) simp

lemma tracked_advance:
  assumes "tracked code i f l h" and idx: "unat i < 8" and "unat i < length code"
    and c: "c = code ! unat i"
    and fresh: "i \<noteq> 0 \<longrightarrow> t - l \<le> E1_SECRET_GAP_MS \<and> t - f \<le> E1_SECRET_TOTAL_MS"
    and f': "f' = (if i = 0 then t else f)"
  shows "tracked code (i + 1) f' t (h @ [(c, t)])"
proof -
  from assms(1) obtain pre ps where h: "h = pre @ ps"
    and len: "length ps = unat i" and m: "map fst ps = take (unat i) code"
    and pc: "paced ps" and ends: "ps \<noteq> [] \<longrightarrow> snd (hd ps) = f \<and> snd (last ps) = l"
    by (auto simp: tracked_def)
  have idx': "unat (i + 1) = Suc (unat i)" using idx by (rule secret_bump)
  have "map fst (ps @ [(c, t)]) = take (unat (i + 1)) code"
    using m assms(3) c by (simp add: idx' take_Suc_conv_app_nth)
  moreover have "paced (ps @ [(c, t)])"
  proof (cases "ps = []")
    case False
    with len have "i \<noteq> 0" by auto
    with fresh ends False pc show ?thesis by (intro paced_snoc) auto
  qed simp
  moreover have "snd (hd (ps @ [(c, t)])) = f'"
    using len ends f' by (cases ps) (auto simp: unat_eq_0)
  moreover have "length (ps @ [(c, t)]) = unat (i + 1)" using len idx' by simp
  ultimately show ?thesis using h unfolding tracked_def
    by (intro exI [of _ pre] exI [of _ "ps @ [(c, t)]"]) auto
qed

lemma tracked_one: "c = code ! 0 \<Longrightarrow> code \<noteq> [] \<Longrightarrow> tracked code 1 t t (h @ [(c, t)])"
  using tracked_advance [OF tracked_zero [of code t t h], of c t t] by simp

lemma tracked_full:
  assumes "tracked code i f l h" and "unat i = length code" and "code \<noteq> []"
  obtains pre ps where "h = pre @ ps" and "map fst ps = code" and "paced ps"
    and "snd (hd ps) = f" and "snd (last ps) = l"
proof -
  from assms(1) obtain pre ps where h: "h = pre @ ps" "length ps = unat i"
      "map fst ps = take (unat i) code" "paced ps"
      "ps \<noteq> [] \<longrightarrow> snd (hd ps) = f \<and> snd (last ps) = l"
    unfolding tracked_def by blast
  moreover have "ps \<noteq> []" using h(2) assms(2,3) by auto
  ultimately show ?thesis using that assms(2) by simp
qed

definition tracks :: "e1_runtime_control \<Rightarrow> press list \<Rightarrow> bool" where
  "tracks s h \<longleftrightarrow>
     tracked secret_code (secret_index s) (secret_first_ms s) (secret_last_ms s) h"

lemma tracks_reset: "secret_index s = 0 \<Longrightarrow> tracks s h"
  by (simp add: tracks_def tracked_zero)

lemma tracks_cong:
  "secret_index s' = secret_index s \<Longrightarrow> secret_first_ms s' = secret_first_ms s \<Longrightarrow>
   secret_last_ms s' = secret_last_ms s \<Longrightarrow> tracks s h \<Longrightarrow> tracks s' h"
  by (simp add: tracks_def)

definition expire_secret :: "e1_runtime_control \<Rightarrow> u64 \<Rightarrow> e1_runtime_control" where
  "expire_secret s t =
     (if secret_index s \<noteq> 0 \<and> secret_expired s t then e1_runtime_reset_secret s else s)"

lemma expire_secret_fields [simp]:
  "mode (expire_secret s t) = mode s"
  "camera_control_down (expire_secret s t) = camera_control_down s"
  by (simp_all add: expire_secret_def e1_runtime_reset_secret_def)

lemma expire_secret_fresh:
  "secret_index (expire_secret s t) \<noteq> 0 \<Longrightarrow> \<not> secret_expired (expire_secret s t) t"
  by (auto simp: expire_secret_def e1_runtime_reset_secret_def split: if_splits)

lemma tracks_expire: "tracks s h \<Longrightarrow> tracks (expire_secret s t) h"
  by (auto simp: expire_secret_def e1_runtime_reset_secret_def intro: tracks_reset)

text \<open>The four ways through the matcher, after the expiry test.\<close>

lemma camera_stop:
  "e1_runtime_camera_command s 0 t =
     (let s1 = (expire_secret s t)\<lparr>camera_control_down := False\<rparr>
      in if secret_complete s1
         then (e1_runtime_reset_secret (s1\<lparr>mode := E1_RUNTIME_ENTRY_MELT\<rparr>),
               E1_RUNTIME_ACTION_ENTER)
         else (s1, E1_RUNTIME_ACTION_NONE))"
  unfolding e1_runtime_camera_command_def expire_secret_def [symmetric] Let_def by simp

lemma camera_held:
  "c \<noteq> 0 \<Longrightarrow> camera_control_down s \<Longrightarrow>
   e1_runtime_camera_command s c t = (expire_secret s t, E1_RUNTIME_ACTION_NONE)"
  unfolding e1_runtime_camera_command_def expire_secret_def [symmetric] Let_def by simp

lemma camera_match:
  assumes "c \<noteq> 0" and "\<not> camera_control_down s" and "s1 = expire_secret s t"
    and "unat (secret_index s1) < 8" and "c = secret_code ! unat (secret_index s1)"
  shows "fst (e1_runtime_camera_command s c t) =
    s1\<lparr>camera_control_down := True,
       secret_first_ms := (if secret_index s1 = 0 then t else secret_first_ms s1),
       secret_last_ms := t, secret_index := secret_index s1 + 1,
       secret_complete := (secret_complete s1 \<or> unat (secret_index s1 + 1) = 8)\<rparr>"
proof -
  have "\<not> camera_control_down s1" using assms(2,3) by simp
  with assms(1,4,5) show ?thesis
    unfolding e1_runtime_camera_command_def expire_secret_def [symmetric]
      assms(3) [symmetric] Let_def
    by (cases s1) simp
qed

lemma camera_miss:
  assumes "c \<noteq> 0" and "\<not> camera_control_down s" and "s1 = expire_secret s t"
    and "\<not> (unat (secret_index s1) < 8 \<and> c = secret_code ! unat (secret_index s1))"
  shows "fst (e1_runtime_camera_command s c t) =
    (if c = secret_code ! 0
     then (e1_runtime_reset_secret (s1\<lparr>camera_control_down := True\<rparr>))
            \<lparr>secret_index := 1, secret_first_ms := t, secret_last_ms := t\<rparr>
     else e1_runtime_reset_secret (s1\<lparr>camera_control_down := True\<rparr>))"
proof -
  have down: "camera_control_down s1 = False" using assms(2,3) by simp
  have c0: "(c = 0) = False" using assms(1) by simp
  have miss: "(unat (secret_index (s1\<lparr>camera_control_down := True\<rparr>)) < length secret_code \<and>
      c = secret_code ! unat (secret_index (s1\<lparr>camera_control_down := True\<rparr>))) = False"
    using assms(4) by simp
  show ?thesis
    unfolding e1_runtime_camera_command_def expire_secret_def [symmetric]
      assms(3) [symmetric] Let_def c0 down miss if_False fst_conv ..
qed

lemma index_reset_secret [simp]: "secret_index (e1_runtime_reset_secret s) = 0"
  by (simp add: e1_runtime_reset_secret_def)

lemma tracks_camera_command:
  assumes "tracks s h" and armed: "mode s = E1_RUNTIME_CAMERA_ARMED"
  shows "tracks (fst (e1_runtime_camera_command s c t)) (h @ press_of (RC_Apply c t) s)"
proof -
  define s1 where s1: "s1 = expire_secret s t"
  have t1: "tracks s1 h" using assms(1) by (simp add: s1 tracks_expire)
  consider (stop) "c = 0" | (held) "c \<noteq> 0" "camera_control_down s"
    | (match) "c \<noteq> 0" "\<not> camera_control_down s" "unat (secret_index s1) < 8"
        "c = secret_code ! unat (secret_index s1)"
    | (miss) "c \<noteq> 0" "\<not> camera_control_down s"
        "\<not> (unat (secret_index s1) < 8 \<and> c = secret_code ! unat (secret_index s1))"
    by blast
  then show ?thesis
  proof cases
    case stop
    have "tracks (s1\<lparr>camera_control_down := False\<rparr>) h" by (rule tracks_cong [OF _ _ _ t1]) simp_all
    with stop show ?thesis by (simp add: camera_stop Let_def tracks_reset s1)
  next
    case held
    with t1 show ?thesis by (simp add: camera_held s1)
  next
    case match
    have fresh: "secret_index s1 \<noteq> 0 \<longrightarrow>
        t - secret_last_ms s1 \<le> E1_SECRET_GAP_MS \<and> t - secret_first_ms s1 \<le> E1_SECRET_TOTAL_MS"
      using expire_secret_fresh [of s t] by (simp add: s1 secret_expired_def not_less)
    have "tracks (fst (e1_runtime_camera_command s c t)) (h @ [(c, t)])"
      unfolding camera_match [OF match(1,2) s1 match(3,4)] tracks_def
      using tracked_advance [OF t1 [unfolded tracks_def] match(3) _ match(4) fresh refl] match(3)
      by simp
    with match armed show ?thesis by simp
  next
    case miss
    then show ?thesis
      using armed camera_miss [OF miss(1,2) s1 miss(3)]
      by (auto simp: tracks_def secret_code_def intro: tracked_one tracked_zero)
  qed
qed

lemma other_call_keeps_secret:
  assumes "\<not> (\<exists>c t. e = RC_Apply c t \<and> mode s = E1_RUNTIME_CAMERA_ARMED)"
  shows "secret_index (rc_step e s) = 0 \<or>
    secret_index (rc_step e s) = secret_index s \<and>
    secret_first_ms (rc_step e s) = secret_first_ms s \<and>
    secret_last_ms (rc_step e s) = secret_last_ms s"
  using assms by (cases e) (auto simp: rc_step_def rc_op_defs)

lemma tracks_step: "tracks s h \<Longrightarrow> tracks (rc_step e s) (h @ press_of e s)"
proof (cases "\<exists>c t. e = RC_Apply c t \<and> mode s = E1_RUNTIME_CAMERA_ARMED")
  case True
  assume "tracks s h"
  with True show ?thesis
    by (auto simp: rc_step_def e1_runtime_apply_ptz_def simp del: press_of.simps
        intro: tracks_camera_command)
next
  case False
  assume h: "tracks s h"
  from False have "press_of e s = []" by (cases e) auto
  with h other_call_keeps_secret [OF False] show ?thesis
    by (auto intro: tracks_reset tracks_cong)
qed

lemma tracks_run: "tracks s h \<Longrightarrow> tracks (fold rc_step es s) (h @ presses es s)"
proof (induction es arbitrary: s h)
  case (Cons e es)
  from Cons.IH [OF tracks_step [OF Cons.prems, of e]] show ?case by simp
qed simp

lemma index_zero [simp]: "secret_index (rc_zero m) = 0"
  by (simp add: rc_zero_def)

lemma camera_enter_cases:
  assumes "emits (snd (e1_runtime_camera_command s c t)) E1_RUNTIME_ACTION_ENTER"
  shows "c = 0 \<and> secret_complete (expire_secret s t)"
proof -
  have "c = 0"
    using assms unfolding e1_runtime_camera_command_def Let_def
    by (auto simp: emits_def e1_consts split: if_splits)
  with assms show ?thesis
    by (auto simp: camera_stop Let_def emits_def e1_consts split: if_splits)
qed

lemma complete_not_expired:
  "secret_complete (expire_secret s t) \<Longrightarrow> expire_secret s t = s"
  by (auto simp: expire_secret_def e1_runtime_reset_secret_def split: if_splits)

text \<open>C13. Soundness of the directional secret: if, after any sequence of calls on a fresh
  controller, a PTZ command makes the camera matcher enter Doom, then that command is a
  stop and the last eight presses the matcher saw are exactly up, up, down, down, left,
  right, left, right, no two of them more than 1500 ms apart and all within 10 seconds,
  and the stop itself is inside both limits.\<close>

theorem secret_entry_sound:
  assumes "s = fold rc_step es (rc_zero E1_RUNTIME_CAMERA_ARMED)"
    and "emits (snd (rc_call (RC_Apply c t) s)) E1_RUNTIME_ACTION_ENTER"
  shows "c = 0 \<and> (\<exists>pre ps. presses es (rc_zero E1_RUNTIME_CAMERA_ARMED) = pre @ ps \<and>
           map fst ps = [3, 3, 4, 4, 1, 2, 1, 2] \<and> paced ps \<and>
           t - snd (last ps) \<le> 1500 \<and> t - snd (hd ps) \<le> 10000)"
proof -
  have wf: "wf_control s" unfolding assms(1) by (rule rc.run_inv) simp
  have tr: "tracks s (presses es (rc_zero E1_RUNTIME_CAMERA_ARMED))"
    unfolding assms(1) using tracks_run [OF tracks_reset [OF index_zero], of es _ "[]"] by simp
  have armed: "mode s = E1_RUNTIME_CAMERA_ARMED" using rc_call_enter [of "RC_Apply c t" s] assms(2) by blast
  with assms(2) have c: "c = 0" "secret_complete (expire_secret s t)"
    by (auto simp: e1_runtime_apply_ptz_def dest: camera_enter_cases)
  from c(2) have s1: "expire_secret s t = s" and full: "secret_complete s"
    using complete_not_expired [of s t] by auto
  with wf have idx: "unat (secret_index s) = length secret_code" by (simp add: wf_control_def)
  then have "secret_index s \<noteq> 0" by auto
  then have "\<not> secret_expired s t" using expire_secret_fresh [of s t] s1 by simp
  with tracked_full [OF tr [unfolded tracks_def] idx] c(1) show ?thesis
    by (metis E1_SECRET_GAP_MS_def E1_SECRET_TOTAL_MS_def length_secret_code list.size(3)
        not_less secret_code_def secret_expired_def zero_neq_numeral)
qed

text \<open>A tap as the event drain delivers it: the press, then a stop one millisecond later.\<close>

definition tap :: "int \<Rightarrow> u64 \<Rightarrow> rc_event list" where
  "tap c t = [RC_Apply c t, RC_Apply 0 (t + 1)]"

fun taps :: "(int \<times> u64) list \<Rightarrow> rc_event list" where
  "taps [] = []"
| "taps ((c, t) # ps) = tap c t @ taps ps"

definition ready :: "nat \<Rightarrow> u64 \<Rightarrow> u64 \<Rightarrow> e1_runtime_control \<Rightarrow> bool" where
  "ready k f l s \<longleftrightarrow> mode s = E1_RUNTIME_CAMERA_ARMED \<and> \<not> camera_control_down s \<and>
     unat (secret_index s) = k \<and> (k \<noteq> 0 \<longrightarrow> secret_first_ms s = f \<and> secret_last_ms s = l) \<and>
     \<not> secret_complete s"

lemma secret_code_nonzero: "k < 8 \<Longrightarrow> secret_code ! k \<noteq> 0"
  by (simp add: secret_code_def nth_Cons' numeral_eq_Suc)

lemma tap_press:
  assumes "ready k f l s" and "k < 8" and "c = secret_code ! k"
    and gap: "k \<noteq> 0 \<longrightarrow> t - l \<le> E1_SECRET_GAP_MS"
    and total: "if k = 0 then f = t else t - f \<le> E1_SECRET_TOTAL_MS"
  defines "s1 \<equiv> rc_step (RC_Apply c t) s"
  shows "mode s1 = E1_RUNTIME_CAMERA_ARMED \<and> camera_control_down s1 \<and>
    unat (secret_index s1) = Suc k \<and> secret_first_ms s1 = f \<and> secret_last_ms s1 = t \<and>
    (secret_complete s1 \<longleftrightarrow> Suc k = 8)"
proof -
  from assms(1) have s: "mode s = E1_RUNTIME_CAMERA_ARMED" "\<not> camera_control_down s"
    "unat (secret_index s) = k" "\<not> secret_complete s"
    and fl: "k \<noteq> 0 \<longrightarrow> secret_first_ms s = f \<and> secret_last_ms s = l"
    by (auto simp: ready_def)
  have "expire_secret s t = s"
    using fl gap total s(3) by (auto simp: expire_secret_def secret_expired_def not_less unat_eq_0 split: if_splits)
  then have e: "s = expire_secret s t" by simp
  have idx: "unat (secret_index s + 1) = Suc k" using secret_bump [of "secret_index s"] s(3) assms(2) by simp
  have "c \<noteq> 0" using assms(2,3) by (simp add: secret_code_nonzero)
  then have "s1 = s\<lparr>camera_control_down := True,
       secret_first_ms := (if secret_index s = 0 then t else secret_first_ms s),
       secret_last_ms := t, secret_index := secret_index s + 1,
       secret_complete := (secret_complete s \<or> unat (secret_index s + 1) = 8)\<rparr>"
    using camera_match [OF _ s(2) e, of c] assms(2,3) s(1,3)
    by (simp add: s1_def rc_step_def e1_runtime_apply_ptz_def)
  then show ?thesis using s fl idx total by (auto simp: unat_eq_0 [symmetric])
qed

lemma tap_release:
  assumes "mode s1 = E1_RUNTIME_CAMERA_ARMED" and "secret_index s1 \<noteq> 0"
    and "\<not> secret_expired s1 u"
  shows "rc_step (RC_Apply 0 u) s1 =
    (if secret_complete s1
     then e1_runtime_reset_secret (s1\<lparr>camera_control_down := False, mode := E1_RUNTIME_ENTRY_MELT\<rparr>)
     else s1\<lparr>camera_control_down := False\<rparr>)"
  using assms
  by (simp add: rc_step_def e1_runtime_apply_ptz_def camera_stop expire_secret_def Let_def)

lemma elapsed_one [simp]: "t + 1 - t = (1::u64)"
  by simp

lemma taps_enter:
  assumes "ready k f l s" and "k < 8" and "map fst ps = drop k secret_code"
    and "k \<noteq> 0 \<longrightarrow> snd (hd ps) - l \<le> E1_SECRET_GAP_MS"
    and "k = 0 \<longrightarrow> f = snd (hd ps)"
    and "successively gap_ok ps"
    and "\<forall>p \<in> set ps. snd p - f \<le> E1_SECRET_TOTAL_MS \<and> snd p + 1 - f \<le> E1_SECRET_TOTAL_MS"
  shows "mode (fold rc_step (taps ps) s) = E1_RUNTIME_ENTRY_MELT"
  using assms
proof (induction ps arbitrary: k l s)
  case Nil
  then show ?case by simp
next
  case (Cons p ps)
  obtain c t where p: "p = (c, t)" by (cases p)
  define s1 where "s1 = rc_step (RC_Apply c t) s"
  define s2 where "s2 = rc_step (RC_Apply 0 (t + 1)) s1"
  from Cons.prems(2,3) p have c: "c = secret_code ! k" and rest: "map fst ps = drop (Suc k) secret_code"
    by (auto simp: Cons_nth_drop_Suc [symmetric, of k secret_code])
  have s1: "mode s1 = E1_RUNTIME_CAMERA_ARMED \<and> camera_control_down s1 \<and>
      unat (secret_index s1) = Suc k \<and> secret_first_ms s1 = f \<and> secret_last_ms s1 = t \<and>
      (secret_complete s1 \<longleftrightarrow> Suc k = 8)"
    unfolding s1_def using Cons.prems(4,5,7) p
    by (intro tap_press [OF Cons.prems(1,2) c]) auto
  then have "secret_index s1 \<noteq> 0" by auto
  moreover have "\<not> secret_expired s1 (t + 1)"
    using s1 Cons.prems(7) p by (auto simp: secret_expired_def e1_consts not_less)
  ultimately have s2: "s2 = (if Suc k = 8
      then e1_runtime_reset_secret (s1\<lparr>camera_control_down := False, mode := E1_RUNTIME_ENTRY_MELT\<rparr>)
      else s1\<lparr>camera_control_down := False\<rparr>)"
    using s1 tap_release [of s1 "t + 1"] by (simp add: s2_def)
  have run: "fold rc_step (taps (p # ps)) s = fold rc_step (taps ps) s2"
    by (simp add: p tap_def s1_def s2_def)
  show ?case
  proof (cases "Suc k = 8")
    case True
    with rest have "ps = []" by simp
    with run s2 True show ?thesis by (simp add: e1_runtime_reset_secret_def)
  next
    case False
    with s1 s2 have r: "ready (Suc k) f t s2" by (auto simp: ready_def)
    from False Cons.prems(2) rest have "ps \<noteq> []" by auto
    then have "mode (fold rc_step (taps ps) s2) = E1_RUNTIME_ENTRY_MELT"
      using Cons.prems(2,6,7) False rest p
      by (intro Cons.IH [OF r]) (auto simp: successively_Cons gap_ok_def)
    with run show ?thesis by simp
  qed
qed

text \<open>Completeness of the directional secret: an armed controller whose matcher is empty and
  whose control is released enters Doom when it receives the eight taps up, up, down, down,
  left, right, left, right, each at most 1500 ms after the previous one and the last release
  within 10 seconds of the first press.\<close>

theorem secret_entry_complete:
  assumes "mode s = E1_RUNTIME_CAMERA_ARMED" and "\<not> camera_control_down s"
    and "secret_index s = 0" and "\<not> secret_complete s"
    and "map fst ps = [3, 3, 4, 4, 1, 2, 1, 2]" and "successively gap_ok ps"
    and "\<forall>p \<in> set ps. snd p - snd (hd ps) \<le> 10000 \<and> snd p + 1 - snd (hd ps) \<le> 10000"
  shows "mode (fold rc_step (taps ps) s) = E1_RUNTIME_ENTRY_MELT"
  using assms by (intro taps_enter [of 0 "snd (hd ps)" 0])
    (simp_all add: ready_def secret_code_def E1_SECRET_TOTAL_MS_def)

definition demo_taps :: "(int \<times> u64) list" where
  "demo_taps = [(3, 1000), (3, 1400), (4, 1800), (4, 2200), (1, 2600), (2, 3000), (1, 3400),
     (2, 3800)]"

lemma secret_entry_complete_witness:
  "mode (fold rc_step (taps demo_taps) (rc_zero E1_RUNTIME_CAMERA_ARMED)) =
     E1_RUNTIME_ENTRY_MELT"
  by (rule secret_entry_complete)
    (simp_all add: rc_zero_def demo_taps_def gap_ok_def e1_consts)

lemma secret_entry_sound_witness:
  "\<exists>pre ps. presses (taps (butlast demo_taps) @ [RC_Apply 2 3800])
       (rc_zero E1_RUNTIME_CAMERA_ARMED) = pre @ ps \<and>
     map fst ps = [3, 3, 4, 4, 1, 2, 1, 2] \<and> paced ps \<and>
     4000 - snd (last ps) \<le> 1500 \<and> 4000 - snd (hd ps) \<le> 10000"
proof -
  define es where "es = taps (butlast demo_taps) @ [RC_Apply 2 3800]"
  have "emits (snd (rc_call (RC_Apply 0 4000)
      (fold rc_step es (rc_zero E1_RUNTIME_CAMERA_ARMED)))) E1_RUNTIME_ACTION_ENTER"
    by (simp add: es_def demo_taps_def tap_def rc_step_def rc_op_defs rc_zero_def
        secret_expired_def secret_code_def e1_consts emits_def)
  from secret_entry_sound [OF refl this] show ?thesis by (simp add: es_def)
qed

text \<open>The matcher does not look back: one extra Up before the code makes the whole sequence
  fail, although its last eight taps are the secret in time, because the third Up restarts
  the match at one tap instead of two.\<close>

theorem secret_extra_up_missed:
  "mode (fold rc_step (taps ((3, 600) # demo_taps)) (rc_zero E1_RUNTIME_CAMERA_ARMED)) =
     E1_RUNTIME_CAMERA_ARMED"
  by (simp add: demo_taps_def tap_def rc_step_def rc_op_defs rc_zero_def secret_expired_def
      secret_code_def e1_consts)

section \<open>The stop-only gesture\<close>

text \<open>The raw commands the stop-only counter looks at, oldest first.\<close>

fun raw_of :: "rc_event \<Rightarrow> e1_runtime_control \<Rightarrow> press list" where
  "raw_of (RC_Observe c t) s =
     (if mode s = E1_RUNTIME_CAMERA_ARMED \<or> mode s = E1_RUNTIME_DOOM then [(c, t)] else [])"
| "raw_of _ s = []"

fun raws :: "rc_event list \<Rightarrow> e1_runtime_control \<Rightarrow> press list" where
  "raws [] s = []"
| "raws (e # es) s = raw_of e s @ raws es (rc_step e s)"

definition stop_tracks :: "e1_runtime_control \<Rightarrow> press list \<Rightarrow> bool" where
  "stop_tracks s h \<longleftrightarrow>
     tracked (replicate 8 0) (stop_only_index s) (stop_only_first_ms s) (stop_only_last_ms s) h"

definition expire_stop_only :: "e1_runtime_control \<Rightarrow> u64 \<Rightarrow> e1_runtime_control" where
  "expire_stop_only s t =
     (if stop_only_index s \<noteq> 0 \<and> stop_only_expired s t
      then e1_runtime_reset_stop_only s else s)"

lemma expire_stop_only_fields [simp]:
  "mode (expire_stop_only s t) = mode s"
  "raw_direction_since_stop (expire_stop_only s t) = raw_direction_since_stop s"
  by (simp_all add: expire_stop_only_def e1_runtime_reset_stop_only_def)

lemma expire_stop_only_fresh:
  "stop_only_index (expire_stop_only s t) \<noteq> 0 \<Longrightarrow>
   t - stop_only_last_ms (expire_stop_only s t) \<le> E1_SECRET_GAP_MS \<and>
   t - stop_only_first_ms (expire_stop_only s t) \<le> E1_SECRET_TOTAL_MS"
  by (auto simp: expire_stop_only_def e1_runtime_reset_stop_only_def stop_only_expired_def
      not_less split: if_splits)

lemma stop_tracks_reset: "stop_only_index s = 0 \<Longrightarrow> stop_tracks s h"
  by (simp add: stop_tracks_def tracked_zero)

lemma stop_tracks_expire: "stop_tracks s h \<Longrightarrow> stop_tracks (expire_stop_only s t) h"
  by (auto simp: expire_stop_only_def e1_runtime_reset_stop_only_def intro: stop_tracks_reset)

text \<open>A stop that counts: the counter after it, before the eighth one fires.\<close>

definition stop_bumped :: "e1_runtime_control \<Rightarrow> u64 \<Rightarrow> e1_runtime_control" where
  "stop_bumped s1 t = s1\<lparr>stop_only_first_ms :=
       (if stop_only_index s1 = 0 then t else stop_only_first_ms s1),
     stop_only_last_ms := t, stop_only_index := stop_only_index s1 + 1\<rparr>"

lemma observe_counts:
  assumes "mode s = E1_RUNTIME_CAMERA_ARMED \<or> mode s = E1_RUNTIME_DOOM"
    and "\<not> raw_direction_since_stop s"
  shows "e1_runtime_observe_raw_ptz s 0 t =
    (let s2 = stop_bumped (expire_stop_only s t) t
     in if stop_only_index s2 = E1_STOP_ONLY_SECRET_TAPS then
          (if mode s = E1_RUNTIME_CAMERA_ARMED then e1_runtime_request_enter s2
           else e1_runtime_request_exit s2)
        else (s2, E1_RUNTIME_ACTION_NONE))"
proof -
  have fold1: "(if stop_only_index s1 = 0 then s1\<lparr>stop_only_first_ms := t\<rparr> else s1)
      \<lparr>stop_only_last_ms := t, stop_only_index :=
         stop_only_index (if stop_only_index s1 = 0 then s1\<lparr>stop_only_first_ms := t\<rparr> else s1) + 1\<rparr>
      = stop_bumped s1 t" for s1
    by (cases s1) (simp add: stop_bumped_def)
  have live: "(mode s \<noteq> E1_RUNTIME_CAMERA_ARMED \<and> mode s \<noteq> E1_RUNTIME_DOOM) = False"
    using assms(1) by blast
  show ?thesis
    using assms(2)
    unfolding e1_runtime_observe_raw_ptz_def expire_stop_only_def [symmetric] Let_def fold1
      live if_False
    by (simp add: stop_bumped_def)
qed

lemma observe_other:
  assumes "\<not> ((mode s = E1_RUNTIME_CAMERA_ARMED \<or> mode s = E1_RUNTIME_DOOM) \<and> c = 0 \<and>
      \<not> raw_direction_since_stop s)"
  shows "stop_only_index (fst (e1_runtime_observe_raw_ptz s c t)) = 0 \<and>
    snd (e1_runtime_observe_raw_ptz s c t) = E1_RUNTIME_ACTION_NONE"
  using assms by (auto simp: e1_runtime_observe_raw_ptz_def e1_runtime_reset_stop_only_def Let_def)

lemma other_call_keeps_stops:
  assumes "\<nexists>c t. e = RC_Observe c t"
  shows "stop_only_index (rc_step e s) = 0 \<or>
    stop_only_index (rc_step e s) = stop_only_index s \<and>
    stop_only_first_ms (rc_step e s) = stop_only_first_ms s \<and>
    stop_only_last_ms (rc_step e s) = stop_only_last_ms s"
  using assms by (cases e) (auto simp: rc_step_def rc_op_defs)

lemma requests_reset_stops:
  "mode s = E1_RUNTIME_CAMERA_ARMED \<Longrightarrow> stop_only_index (fst (e1_runtime_request_enter s)) = 0"
  "mode s = E1_RUNTIME_DOOM \<Longrightarrow> stop_only_index (fst (e1_runtime_request_exit s)) = 0"
  by (simp_all add: rc_op_defs)

lemma stop_bumped_tracks:
  assumes "stop_tracks s1 h" and "unat (stop_only_index s1) < 8"
    and "stop_only_index s1 \<noteq> 0 \<longrightarrow>
      t - stop_only_last_ms s1 \<le> E1_SECRET_GAP_MS \<and> t - stop_only_first_ms s1 \<le> E1_SECRET_TOTAL_MS"
  shows "stop_tracks (stop_bumped s1 t) (h @ [(0, t)])"
  using tracked_advance [OF assms(1) [unfolded stop_tracks_def] assms(2) _ _ assms(3) refl, of 0]
    assms(2) by (simp add: stop_tracks_def stop_bumped_def)

lemma wf_stop_index: "wf_control s \<Longrightarrow> unat (stop_only_index (expire_stop_only s t)) < 8"
  by (auto simp: wf_control_def expire_stop_only_def e1_runtime_reset_stop_only_def
      word_less_nat_alt e1_consts)

lemma stop_tracks_step:
  assumes "wf_control s" and h: "stop_tracks s h"
  shows "stop_tracks (rc_step e s) (h @ raw_of e s)"
proof (cases "\<exists>c t. e = RC_Observe c t")
  case False
  then have raw: "raw_of e s = []" by (cases e) auto
  from False have ne: "\<nexists>c t. e = RC_Observe c t" .
  from other_call_keeps_stops [OF ne, of s] show ?thesis
  proof (elim disjE)
    assume "stop_only_index (rc_step e s) = 0"
    then show ?thesis by (rule stop_tracks_reset)
  next
    assume "stop_only_index (rc_step e s) = stop_only_index s \<and>
      stop_only_first_ms (rc_step e s) = stop_only_first_ms s \<and>
      stop_only_last_ms (rc_step e s) = stop_only_last_ms s"
    with h raw show ?thesis by (simp add: stop_tracks_def)
  qed
next
  case True
  then obtain c t where e: "e = RC_Observe c t" by blast
  let ?live = "mode s = E1_RUNTIME_CAMERA_ARMED \<or> mode s = E1_RUNTIME_DOOM"
  show ?thesis
  proof (cases "?live \<and> c = 0 \<and> \<not> raw_direction_since_stop s")
    case False
    from observe_other [OF False, of t] e show ?thesis
      by (simp add: rc_step_def stop_tracks_reset)
  next
    case True
    have "stop_tracks (stop_bumped (expire_stop_only s t) t) (h @ [(0, t)])"
      using expire_stop_only_fresh [of s t] stop_tracks_expire [OF h] wf_stop_index [OF assms(1)]
      by (intro stop_bumped_tracks) auto
    moreover have "mode (stop_bumped (expire_stop_only s t) t) = mode s"
      by (simp add: stop_bumped_def)
    ultimately show ?thesis using True e observe_counts [of s t]
      by (auto simp: rc_step_def Let_def requests_reset_stops intro: stop_tracks_reset)
  qed
qed

lemma stop_tracks_run:
  "wf_control s \<Longrightarrow> stop_tracks s h \<Longrightarrow> stop_tracks (fold rc_step es s) (h @ raws es s)"
proof (induction es arbitrary: s h)
  case (Cons e es)
  from Cons.IH [OF wf_step stop_tracks_step, OF Cons.prems(1) Cons.prems, of e] show ?case
    by simp
qed simp

text \<open>Soundness of the stop-only gesture: if an observed raw command makes a controller enter
  or leave Doom, after any sequence of calls since it was zeroed, then the command is a stop
  and, together with it, the last eight raw commands seen in an interactive mode are all
  stops, no two neighbours more than 1500 ms apart and all within 10 seconds of the first.\<close>

theorem stop_only_sound:
  assumes "s = fold rc_step es (rc_zero m)"
    and "snd (rc_call (RC_Observe c t) s) \<noteq> E1_RUNTIME_ACTION_NONE"
  shows "c = 0 \<and> (\<exists>pre ps. raws (es @ [RC_Observe c t]) (rc_zero m) = pre @ ps \<and>
           map fst ps = replicate 8 0 \<and> paced ps)"
proof -
  have wf: "wf_control s" unfolding assms(1) by (rule rc.run_inv) simp
  have tr: "stop_tracks s (raws es (rc_zero m))"
    unfolding assms(1) using stop_tracks_run [OF wf_zero stop_tracks_reset, of m es "[]"]
    by (simp add: rc_zero_def)
  let ?live = "mode s = E1_RUNTIME_CAMERA_ARMED \<or> mode s = E1_RUNTIME_DOOM"
  let ?s2 = "stop_bumped (expire_stop_only s t) t"
  have c: "?live \<and> c = 0 \<and> \<not> raw_direction_since_stop s"
    using assms(2) observe_other [of s c t] by auto
  with assms(2) observe_counts [of s t] have full: "stop_only_index ?s2 = E1_STOP_ONLY_SECRET_TAPS"
    by (auto simp: Let_def split: if_splits)
  have "stop_tracks ?s2 (raws es (rc_zero m) @ [(0, t)])"
    using expire_stop_only_fresh [of s t] stop_tracks_expire [OF tr] wf_stop_index [OF wf]
    by (intro stop_bumped_tracks) auto
  moreover have "raws (es @ [RC_Observe c t]) r = raws es r @ raw_of (RC_Observe c t) (fold rc_step es r)"
    for r by (induction es arbitrary: r) simp_all
  ultimately have "stop_tracks ?s2 (raws (es @ [RC_Observe c t]) (rc_zero m))"
    using c assms(1) by simp
  then have tracked: "tracked (replicate 8 0) E1_STOP_ONLY_SECRET_TAPS (stop_only_first_ms ?s2)
      (stop_only_last_ms ?s2) (raws (es @ [RC_Observe c t]) (rc_zero m))"
    by (simp only: stop_tracks_def full)
  have eight: "unat E1_STOP_ONLY_SECRET_TAPS = length (replicate 8 (0::int))"
    by (simp add: e1_consts)
  obtain pre ps where "raws (es @ [RC_Observe c t]) (rc_zero m) = pre @ ps"
      and "map fst ps = replicate 8 0" and "paced ps"
    by (rule tracked_full [OF tracked eight]) simp
  with c show ?thesis by blast
qed

definition eight_stops :: "rc_event list" where
  "eight_stops = map (\<lambda>k. RC_Observe 0 (of_nat (1000 + 200 * k))) [0..<7]"

lemma stop_only_sound_witness:
  "\<exists>pre ps. raws (eight_stops @ [RC_Observe 0 2400]) (rc_zero E1_RUNTIME_DOOM) = pre @ ps \<and>
     map fst ps = replicate 8 0 \<and> paced ps"
proof -
  have "snd (rc_call (RC_Observe 0 2400) (fold rc_step eight_stops (rc_zero E1_RUNTIME_DOOM)))
      \<noteq> E1_RUNTIME_ACTION_NONE"
    by code_simp
  from stop_only_sound [OF refl this] show ?thesis by blast
qed

section \<open>Leaving by holding Down\<close>

lemma hold_exit_frame: "exit_down (fst (e1_runtime_tick s t)) = exit_down s"
  by (simp add: rc_op_defs)

text \<open>C27. Hold to exit: a clock tick emits the exit action exactly when the game is running,
  Down is held and the current time is at least three seconds after the press; otherwise it
  emits nothing. When it emits, the controller is in the exit melt with the hold still
  recorded, so that the release is still owed to the game.\<close>

theorem hold_exit_iff:
  "snd (e1_runtime_tick s t) =
     (if mode s = E1_RUNTIME_DOOM \<and> exit_down s \<and>
         unat (exit_down_first_ms s) + 3000 \<le> unat t
      then E1_RUNTIME_ACTION_EXIT else E1_RUNTIME_ACTION_NONE) \<and>
   mode (fst (e1_runtime_tick s t)) =
     (if mode s = E1_RUNTIME_DOOM \<and> exit_down s \<and>
         unat (exit_down_first_ms s) + 3000 \<le> unat t
      then E1_RUNTIME_EXIT_MELT else mode s) \<and>
   exit_down (fst (e1_runtime_tick s t)) = exit_down s"
proof -
  have "exit_hold_qualified s t \<longleftrightarrow> unat (exit_down_first_ms s) + 3000 \<le> unat t"
    by (auto simp: exit_hold_qualified_def e1_consts word_le_nat_alt unat_sub)
  moreover have "exit_hold_qualified (e1_runtime_reset_stop_only s) t = exit_hold_qualified s t"
    by (simp add: exit_hold_qualified_def e1_runtime_reset_stop_only_def)
  ultimately show ?thesis
    by (auto simp: e1_runtime_tick_def e1_runtime_reset_secret_def
        e1_runtime_reset_stop_only_def Let_def)
qed

text \<open>Down presses and releases as the game sees them: the held direction according to the
  forwarded commands.\<close>

definition game_down :: "rc_event \<Rightarrow> e1_runtime_control \<Rightarrow> bool \<Rightarrow> bool" where
  "game_down e s d = (case e of
     RC_Apply c t \<Rightarrow> if emits (snd (rc_call e s)) E1_RUNTIME_ACTION_FORWARD then c = 4 else d
   | _ \<Rightarrow> d)"

fun game_down_run :: "rc_event list \<Rightarrow> e1_runtime_control \<Rightarrow> bool \<Rightarrow> bool" where
  "game_down_run [] s d = d"
| "game_down_run (e # es) s d = game_down_run es (rc_step e s) (game_down e s d)"

text \<open>The calls that drop a held Down without telling the game: an exit asked for by the
  dashboard or the stop-only gesture, and the end of the exit melt. (The game then relies on
  its own input timeout.)\<close>

fun drops_hold :: "rc_event \<Rightarrow> e1_runtime_control \<Rightarrow> bool" where
  "drops_hold (RC_Observe c t) s \<longleftrightarrow> snd (e1_runtime_observe_raw_ptz s c t) \<noteq> E1_RUNTIME_ACTION_NONE"
| "drops_hold RC_Request_Exit s \<longleftrightarrow> True"
| "drops_hold RC_Exit_Complete s \<longleftrightarrow> True"
| "drops_hold e s \<longleftrightarrow> False"

fun no_drop :: "rc_event list \<Rightarrow> e1_runtime_control \<Rightarrow> bool" where
  "no_drop [] s \<longleftrightarrow> True"
| "no_drop (e # es) s \<longleftrightarrow> \<not> drops_hold e s \<and> no_drop es (rc_step e s)"

lemma observe_keeps_hold:
  "snd (e1_runtime_observe_raw_ptz s c t) = E1_RUNTIME_ACTION_NONE \<Longrightarrow>
   exit_down (fst (e1_runtime_observe_raw_ptz s c t)) = exit_down s"
  by (auto simp: rc_op_defs e1_consts split: if_splits)

lemma camera_keeps_hold:
  "exit_down (fst (e1_runtime_camera_command s c t)) = exit_down s"
  by (simp add: rc_op_defs)

lemma camera_never_forwards:
  "\<not> emits (snd (e1_runtime_camera_command s c t)) E1_RUNTIME_ACTION_FORWARD"
  by (simp add: emits_def e1_runtime_camera_command_def Let_def e1_consts)

lemma game_down_step:
  assumes "wf_control s" and "\<not> drops_hold e s" and "d = exit_down s"
  shows "game_down e s d = exit_down (rc_step e s)"
proof (cases e)
  case (RC_Observe c t)
  with assms observe_keeps_hold [of s c t] show ?thesis by (simp add: game_down_def rc_step_def)
next
  case (RC_Apply c t)
  show ?thesis
  proof (cases "mode s = E1_RUNTIME_CAMERA_ARMED")
    case True
    with RC_Apply assms show ?thesis
      by (simp add: game_down_def rc_step_def e1_runtime_apply_ptz_def camera_keeps_hold
          camera_never_forwards)
  next
    case False
    with RC_Apply assms show ?thesis
      by (auto simp: game_down_def rc_step_def e1_runtime_apply_ptz_def Let_def emits_def
          e1_consts wf_control_def)
  qed
next
  case (RC_Tick t)
  with assms hold_exit_frame [of s t] show ?thesis by (simp add: game_down_def rc_step_def)
qed (use assms in \<open>auto simp: game_down_def rc_step_def rc_op_defs\<close>)

lemma game_down_run_holds:
  "wf_control s \<Longrightarrow> no_drop es s \<Longrightarrow> d = exit_down s \<Longrightarrow>
   game_down_run es s d = exit_down (fold rc_step es s)"
proof (induction es arbitrary: s d)
  case (Cons e es)
  with game_down_step [of s e d] wf_step [of s e] show ?case by simp
qed simp

text \<open>The game never keeps a Down whose release the controller swallowed: in every run in
  which no exit was forced from outside, the last direction the controller forwarded is Down
  exactly when the controller still counts Down as held, in particular after the hold-to-exit
  gesture, whose release is forwarded during the exit melt.\<close>

theorem held_down_is_forwarded:
  assumes "no_drop es (rc_zero m)"
  shows "game_down_run es (rc_zero m) False = exit_down (fold rc_step es (rc_zero m))"
  by (rule game_down_run_holds [OF wf_zero assms]) (simp add: rc_zero_def)

lemma held_down_is_forwarded_witness:
  "game_down_run [RC_Apply 4 1000, RC_Tick 4000, RC_Apply 0 4100] (rc_zero E1_RUNTIME_DOOM) False
   = False \<and> game_down_run [RC_Apply 4 1000, RC_Tick 4000] (rc_zero E1_RUNTIME_DOOM) False"
proof -
  have "no_drop [RC_Apply 4 1000, RC_Tick 4000, RC_Apply 0 4100] (rc_zero E1_RUNTIME_DOOM)"
    and "\<not> exit_down (fold rc_step [RC_Apply 4 1000, RC_Tick 4000, RC_Apply 0 4100]
      (rc_zero E1_RUNTIME_DOOM))"
    and "no_drop [RC_Apply 4 1000, RC_Tick 4000] (rc_zero E1_RUNTIME_DOOM)"
    and "exit_down (fold rc_step [RC_Apply 4 1000, RC_Tick 4000] (rc_zero E1_RUNTIME_DOOM))"
    by code_simp+
  with held_down_is_forwarded [of "[RC_Apply 4 1000, RC_Tick 4000, RC_Apply 0 4100]"]
    held_down_is_forwarded [of "[RC_Apply 4 1000, RC_Tick 4000]"]
  show ?thesis by blast
qed

end
