(* ===== verification/Ptz_Input.thy ===== *)
theory Ptz_Input
  imports E1_Prelude
begin

text \<open>
  The game-side decoder of \<open>src/common/e1-ptz-input.h\<close>: PTZ commands become presses and
  releases of Doom keys. The state is the mask of held keys, the deadline after which they
  are released without a further command, and the time Up was last released, for the
  double tap that presses the action keys. The \<open>switch\<close> on the command is the case split of
  \<open>e1_ptz_apply_command\<close>; an unknown command returns the empty delta and changes nothing.
\<close>

section \<open>Data\<close>

definition E1_PTZ_INPUT_TIMEOUT_MS :: u64 where [e1_consts]: "E1_PTZ_INPUT_TIMEOUT_MS = 350"
definition E1_PTZ_ACTION_DOUBLE_TAP_MS :: u64 where
  [e1_consts]: "E1_PTZ_ACTION_DOUBLE_TAP_MS = 700"

definition E1_PTZ_KEY_UP :: u32 where [e1_consts]: "E1_PTZ_KEY_UP = 1"
definition E1_PTZ_KEY_DOWN :: u32 where [e1_consts]: "E1_PTZ_KEY_DOWN = 2"
definition E1_PTZ_KEY_LEFT :: u32 where [e1_consts]: "E1_PTZ_KEY_LEFT = 4"
definition E1_PTZ_KEY_RIGHT :: u32 where [e1_consts]: "E1_PTZ_KEY_RIGHT = 8"
definition E1_PTZ_KEY_FIRE :: u32 where [e1_consts]: "E1_PTZ_KEY_FIRE = 16"
definition E1_PTZ_KEY_USE :: u32 where [e1_consts]: "E1_PTZ_KEY_USE = 32"
definition E1_PTZ_KEY_ENTER :: u32 where [e1_consts]: "E1_PTZ_KEY_ENTER = 64"
definition E1_PTZ_KEY_ESCAPE :: u32 where [e1_consts]: "E1_PTZ_KEY_ESCAPE = 128"

definition E1_PTZ_DIRECTION_KEYS :: u32 where
  "E1_PTZ_DIRECTION_KEYS =
     E1_PTZ_KEY_UP OR E1_PTZ_KEY_DOWN OR E1_PTZ_KEY_LEFT OR E1_PTZ_KEY_RIGHT"
definition E1_PTZ_ACTION_KEYS :: u32 where
  "E1_PTZ_ACTION_KEYS = E1_PTZ_KEY_FIRE OR E1_PTZ_KEY_USE OR E1_PTZ_KEY_ENTER"

lemma direction_keys [e1_consts]: "E1_PTZ_DIRECTION_KEYS = 15"
  by (simp add: E1_PTZ_DIRECTION_KEYS_def e1_consts)

lemma action_keys [e1_consts]: "E1_PTZ_ACTION_KEYS = 112"
  by (simp add: E1_PTZ_ACTION_KEYS_def e1_consts)

record e1_ptz_input_state =
  held :: u32
  deadline_ms :: u64
  last_up_release_ms :: u64

record e1_ptz_input_delta =
  press :: u32
  release :: u32

definition no_delta :: e1_ptz_input_delta where
  "no_delta = \<lparr>press = 0, release = 0\<rparr>"

definition ptz_zero :: e1_ptz_input_state where
  "ptz_zero = \<lparr>held = 0, deadline_ms = 0, last_up_release_ms = 0\<rparr>"

section \<open>Operations\<close>

definition e1_ptz_set_held ::
    "e1_ptz_input_state \<Rightarrow> u32 \<Rightarrow> u64 \<Rightarrow> e1_ptz_input_state \<times> e1_ptz_input_delta" where
  "e1_ptz_set_held state nxt now_ms =
     (state\<lparr>held := nxt,
            deadline_ms := (if nxt \<noteq> 0 then now_ms + E1_PTZ_INPUT_TIMEOUT_MS else 0)\<rparr>,
      \<lparr>press = nxt AND NOT (held state), release = held state AND NOT nxt\<rparr>)"

definition e1_ptz_apply_command ::
    "e1_ptz_input_state \<Rightarrow> int \<Rightarrow> u64 \<Rightarrow> e1_ptz_input_state \<times> e1_ptz_input_delta" where
  "e1_ptz_apply_command state command now_ms =
     (let nxt = held state
      in if command = 0 then
           (let state =
              (if held state AND E1_PTZ_KEY_UP \<noteq> 0 \<and> held state AND E1_PTZ_ACTION_KEYS = 0
               then state\<lparr>last_up_release_ms := now_ms\<rparr>
               else if held state AND E1_PTZ_ACTION_KEYS \<noteq> 0
               then state\<lparr>last_up_release_ms := 0\<rparr> else state)
            in e1_ptz_set_held state 0 now_ms)
         else if command = 1 then
           (let nxt = (nxt AND NOT E1_PTZ_DIRECTION_KEYS) OR E1_PTZ_KEY_LEFT;
                state = state\<lparr>last_up_release_ms := 0\<rparr>
            in e1_ptz_set_held state nxt now_ms)
         else if command = 2 then
           (let state = state\<lparr>last_up_release_ms := 0\<rparr>;
                nxt = (nxt AND NOT E1_PTZ_DIRECTION_KEYS) OR E1_PTZ_KEY_RIGHT
            in e1_ptz_set_held state nxt now_ms)
         else if command = 3 then
           (let nxt = (nxt AND NOT E1_PTZ_DIRECTION_KEYS) OR E1_PTZ_KEY_UP
            in if held state AND E1_PTZ_KEY_UP = 0 \<and> last_up_release_ms state \<noteq> 0 \<and>
                  now_ms \<ge> last_up_release_ms state \<and>
                  now_ms - last_up_release_ms state \<le> E1_PTZ_ACTION_DOUBLE_TAP_MS
               then e1_ptz_set_held (state\<lparr>last_up_release_ms := 0\<rparr>)
                      (nxt OR E1_PTZ_ACTION_KEYS) now_ms
               else e1_ptz_set_held state nxt now_ms)
         else if command = 4 then
           (let state = state\<lparr>last_up_release_ms := 0\<rparr>;
                nxt = (nxt AND NOT E1_PTZ_DIRECTION_KEYS) OR E1_PTZ_KEY_DOWN
            in e1_ptz_set_held state nxt now_ms)
         else if command = 11 then e1_ptz_set_held state (nxt OR E1_PTZ_KEY_ESCAPE) now_ms
         else if command = 12 then e1_ptz_set_held state (nxt OR E1_PTZ_ACTION_KEYS) now_ms
         else (state, no_delta))"

definition e1_ptz_expire ::
    "e1_ptz_input_state \<Rightarrow> u64 \<Rightarrow> e1_ptz_input_state \<times> e1_ptz_input_delta" where
  "e1_ptz_expire state now_ms =
     (if held state \<noteq> 0 \<and> now_ms \<ge> deadline_ms state
      then e1_ptz_set_held state 0 now_ms else (state, no_delta))"

section \<open>Events\<close>

datatype ptz_input_event = PI_Command int u64 | PI_Expire u64

fun pi_call :: "ptz_input_event \<Rightarrow> e1_ptz_input_state \<Rightarrow> e1_ptz_input_state \<times> e1_ptz_input_delta"
where
  "pi_call (PI_Command c t) s = e1_ptz_apply_command s c t"
| "pi_call (PI_Expire t) s = e1_ptz_expire s t"

definition pi_step :: "ptz_input_event \<Rightarrow> e1_ptz_input_state \<Rightarrow> e1_ptz_input_state" where
  "pi_step e s = fst (pi_call e s)"

text \<open>The keys of a mask, and what a delta does to the keys the game has down.\<close>

definition keys_of :: "u32 \<Rightarrow> nat set" where
  "keys_of m = {k. bit m k}"

definition game_keys :: "e1_ptz_input_delta \<Rightarrow> nat set \<Rightarrow> nat set" where
  "game_keys d K = (K \<union> keys_of (press d)) - keys_of (release d)"

text \<open>The decoder next to the game it feeds.\<close>

definition pi_game_step ::
    "ptz_input_event \<Rightarrow> e1_ptz_input_state \<times> nat set \<Rightarrow> e1_ptz_input_state \<times> nat set" where
  "pi_game_step e sk = (let (s', d) = pi_call e (fst sk) in (s', game_keys d (snd sk)))"

text \<open>A delta that a key event source may post: nothing pressed twice, nothing released that
  was not down.\<close>

definition clean_delta :: "e1_ptz_input_delta \<Rightarrow> nat set \<Rightarrow> bool" where
  "clean_delta d K \<longleftrightarrow> keys_of (press d) \<inter> K = {} \<and> keys_of (release d) \<subseteq> K"

definition one_direction :: "u32 \<Rightarrow> bool" where
  "one_direction m \<longleftrightarrow> m AND E1_PTZ_DIRECTION_KEYS \<in>
     {0, E1_PTZ_KEY_UP, E1_PTZ_KEY_DOWN, E1_PTZ_KEY_LEFT, E1_PTZ_KEY_RIGHT}"

definition wf_ptz_input :: "e1_ptz_input_state \<Rightarrow> bool" where
  "wf_ptz_input s \<longleftrightarrow> one_direction (held s) \<and> (held s = 0 \<longrightarrow> deadline_ms s = 0)"

lemma bit_u32: "bit w k \<Longrightarrow> k < 32" for w :: u32
  using bit_imp_le_length [of w k] by simp

lemma set_held_game:
  "keys_of (held s) = K \<Longrightarrow> e1_ptz_set_held s nxt t = (s', d) \<Longrightarrow>
   game_keys d K = keys_of (held s') \<and> clean_delta d K"
  by (auto simp: e1_ptz_set_held_def game_keys_def keys_of_def clean_delta_def bit_simps
      dest: bit_u32)

lemma no_delta_game [simp]: "game_keys no_delta K = K" "clean_delta no_delta K"
  by (auto simp: game_keys_def no_delta_def keys_of_def clean_delta_def)

text \<open>Every call is \<open>e1_ptz_set_held\<close> on a state with the same held keys, or the empty delta.\<close>

inductive pi_shape ::
    "e1_ptz_input_state \<Rightarrow> e1_ptz_input_state \<times> e1_ptz_input_delta \<Rightarrow> bool"
  for s where
  keep: "pi_shape s (s, no_delta)"
| held_set: "held s1 = held s \<Longrightarrow> deadline_ms s1 = deadline_ms s \<Longrightarrow>
    pi_shape s (e1_ptz_set_held s1 nxt t)"

inductive_cases pi_shapeE: "pi_shape s p"

lemma call_shape: "pi_shape s (pi_call e s)"
  by (cases e) (auto simp: e1_ptz_apply_command_def e1_ptz_expire_def Let_def
      intro: pi_shape.intros)

lemma call_game:
  assumes "keys_of (held s) = K" and "pi_call e s = (s', d)"
  shows "game_keys d K = keys_of (held s') \<and> clean_delta d K"
  using call_shape [of s e]
proof cases
  case keep
  with assms show ?thesis by auto
next
  case (held_set s1 nxt t)
  with assms set_held_game [of s1 K nxt t s' d] show ?thesis by simp
qed

section \<open>The held keys and the keys of the game\<close>

lemma masked_insert: "((m AND NOT d) OR k) AND d = k AND d" for m d k :: u32
  by (rule bit_word_eqI) (auto simp: bit_simps)

lemma masked_or: "k AND d = 0 \<Longrightarrow> (m OR k) AND d = m AND d" for m d k :: u32
  by (simp add: bit.conj_disj_distrib2)

lemma one_direction_set:
  "one_direction ((m AND NOT E1_PTZ_DIRECTION_KEYS) OR E1_PTZ_KEY_UP)"
  "one_direction ((m AND NOT E1_PTZ_DIRECTION_KEYS) OR E1_PTZ_KEY_DOWN)"
  "one_direction ((m AND NOT E1_PTZ_DIRECTION_KEYS) OR E1_PTZ_KEY_LEFT)"
  "one_direction ((m AND NOT E1_PTZ_DIRECTION_KEYS) OR E1_PTZ_KEY_RIGHT)"
  unfolding one_direction_def masked_insert by (simp_all add: e1_consts)

lemma one_direction_or:
  "one_direction m \<Longrightarrow> one_direction (m OR E1_PTZ_ACTION_KEYS)"
  "one_direction m \<Longrightarrow> one_direction (m OR E1_PTZ_KEY_ESCAPE)"
  unfolding one_direction_def by (subst masked_or; simp add: e1_consts)+

lemma set_held_wf: "one_direction nxt \<Longrightarrow> wf_ptz_input (fst (e1_ptz_set_held s nxt t))"
  by (simp add: wf_ptz_input_def e1_ptz_set_held_def)

lemma wf_pi_step: "wf_ptz_input s \<Longrightarrow> wf_ptz_input (pi_step e s)"
proof -
  assume wf: "wf_ptz_input s"
  then have "one_direction (held s)" by (simp add: wf_ptz_input_def)
  moreover have "one_direction 0" by (simp add: one_direction_def)
  ultimately show ?thesis using wf
    by (cases e) (simp_all add: pi_step_def e1_ptz_apply_command_def e1_ptz_expire_def Let_def
        set_held_wf one_direction_set one_direction_or)
qed

text \<open>The game beside the decoder: its keys are the held mask, and one direction at most.\<close>

definition pi_game_inv :: "e1_ptz_input_state \<times> nat set \<Rightarrow> bool" where
  "pi_game_inv sk \<longleftrightarrow> wf_ptz_input (fst sk) \<and> snd sk = keys_of (held (fst sk))"

interpretation pi: event_machine pi_game_step pi_game_inv
proof
  fix e and sk :: "e1_ptz_input_state \<times> nat set"
  assume inv: "pi_game_inv sk"
  obtain s' d where call: "pi_call e (fst sk) = (s', d)" by fastforce
  from inv have "keys_of (held (fst sk)) = snd sk" by (simp add: pi_game_inv_def)
  with call call_game [of "fst sk" "snd sk" e s' d] wf_pi_step [of "fst sk" e] inv
  show "pi_game_inv (pi_game_step e sk)"
    by (simp add: pi_game_inv_def pi_game_step_def pi_step_def)
qed

lemma pi_game_zero: "pi_game_inv (ptz_zero, {})"
  by (simp add: pi_game_inv_def wf_ptz_input_def ptz_zero_def one_direction_def keys_of_def)

text \<open>C10. After any sequence of PTZ commands and expiries the keys the game has down are
  exactly the decoder's held mask, with at most one of the four directions among them, and
  the next call presses only keys that are up and releases only keys that are down.\<close>

theorem ptz_game_in_step:
  "let (s, K) = fold pi_game_step es (ptz_zero, {})
   in K = keys_of (held s) \<and> one_direction (held s) \<and> clean_delta (snd (pi_call e s)) K"
proof -
  obtain s K where run: "fold pi_game_step es (ptz_zero, {}) = (s, K)" by fastforce
  from pi.run_inv [OF pi_game_zero, of es] have "pi_game_inv (s, K)" by (simp add: run)
  moreover obtain s' d where "pi_call e s = (s', d)" by fastforce
  ultimately show ?thesis using run call_game [of s K e s' d]
    by (simp add: pi_game_inv_def wf_ptz_input_def)
qed

section \<open>The input timeout\<close>

definition ptz_commands :: "int set" where
  "ptz_commands = {0, 1, 2, 3, 4, 11, 12}"

fun idle_event :: "ptz_input_event \<Rightarrow> bool" where
  "idle_event (PI_Command c t) \<longleftrightarrow> c \<notin> ptz_commands"
| "idle_event (PI_Expire t) \<longleftrightarrow> True"

lemma unknown_command: "c \<notin> ptz_commands \<Longrightarrow> e1_ptz_apply_command s c t = (s, no_delta)"
  by (simp add: ptz_commands_def e1_ptz_apply_command_def)

lemma set_held_deadline:
  "held (fst (e1_ptz_set_held s nxt t)) \<noteq> 0 \<Longrightarrow>
   deadline_ms (fst (e1_ptz_set_held s nxt t)) = t + E1_PTZ_INPUT_TIMEOUT_MS"
  by (simp add: e1_ptz_set_held_def)

lemma command_deadline:
  "c \<in> ptz_commands \<Longrightarrow> held (fst (e1_ptz_apply_command s c t)) \<noteq> 0 \<Longrightarrow>
   deadline_ms (fst (e1_ptz_apply_command s c t)) = t + E1_PTZ_INPUT_TIMEOUT_MS"
  by (auto simp: ptz_commands_def e1_ptz_apply_command_def Let_def set_held_deadline
      split: if_splits)

lemma idle_run:
  assumes "\<forall>e\<in>set us. idle_event e" and "held s \<noteq> 0 \<longrightarrow> deadline_ms s = d"
  shows "held (fold pi_step us s) = (if \<exists>u. PI_Expire u \<in> set us \<and> d \<le> u then 0 else held s)"
  using assms
proof (induction us arbitrary: s)
  case (Cons e us)
  show ?case
  proof (cases e)
    case (PI_Command c t)
    with Cons show ?thesis by (simp add: pi_step_def unknown_command)
  next
    case (PI_Expire u)
    with Cons.prems have "held (pi_step e s) = (if d \<le> u then 0 else held s)"
      and "held (pi_step e s) \<noteq> 0 \<longrightarrow> deadline_ms (pi_step e s) = d"
      by (auto simp: pi_step_def e1_ptz_expire_def e1_ptz_set_held_def)
    with Cons.IH [of "pi_step e s"] Cons.prems PI_Expire show ?thesis by auto
  qed
qed simp

text \<open>C33. Input timeout: after a recognised command at time t, and as long as only clock checks
  and unrecognised commands follow, the held keys stay exactly as the command left them until
  the first clock check at or past t + 350 ms, which releases every one of them.\<close>

theorem ptz_input_timeout:
  assumes "c \<in> ptz_commands" and "\<forall>e\<in>set us. idle_event e"
  shows "held (fold pi_step us (pi_step (PI_Command c t) s)) =
    (if \<exists>u. PI_Expire u \<in> set us \<and> t + E1_PTZ_INPUT_TIMEOUT_MS \<le> u then 0
     else held (pi_step (PI_Command c t) s))"
  using idle_run [OF assms(2), of "pi_step (PI_Command c t) s"] command_deadline [OF assms(1)]
  by (simp add: pi_step_def)

lemma ptz_input_timeout_witness:
  "held (fold pi_step [PI_Expire 1300, PI_Command 9 1310, PI_Expire 1350]
     (pi_step (PI_Command 3 1000) ptz_zero)) = 0"
proof -
  let ?us = "[PI_Expire 1300, PI_Command 9 1310, PI_Expire 1350]"
  have "(3::int) \<in> ptz_commands" and "\<forall>e\<in>set ?us. idle_event e"
    by (simp_all add: ptz_commands_def)
  from ptz_input_timeout [OF this, of 1000 ptz_zero]
  have "held (fold pi_step ?us (pi_step (PI_Command 3 1000) ptz_zero)) =
      (if \<exists>u. PI_Expire u \<in> set ?us \<and> 1000 + E1_PTZ_INPUT_TIMEOUT_MS \<le> u then 0
       else held (pi_step (PI_Command 3 1000) ptz_zero))" .
  moreover have "PI_Expire 1350 \<in> set ?us \<and> 1000 + E1_PTZ_INPUT_TIMEOUT_MS \<le> 1350"
    by (simp add: e1_consts)
  ultimately show ?thesis by metis
qed

section \<open>The double tap\<close>

text \<open>A stop at time \<open>u\<close> that released Up, and nothing since it that cancels the tap.\<close>

fun cancels_tap :: "ptz_input_event \<Rightarrow> bool" where
  "cancels_tap (PI_Command c t) \<longleftrightarrow> c \<in> {1, 2, 4}"
| "cancels_tap (PI_Expire t) \<longleftrightarrow> False"

definition tap_pending :: "ptz_input_event list \<Rightarrow> u64 \<Rightarrow> bool" where
  "tap_pending es u \<longleftrightarrow> (\<exists>pre post. es = pre @ PI_Command 0 u # post \<and>
     held (fold pi_step pre ptz_zero) AND E1_PTZ_KEY_UP \<noteq> 0 \<and>
     held (fold pi_step pre ptz_zero) AND E1_PTZ_ACTION_KEYS = 0 \<and>
     (\<forall>e\<in>set post. \<not> cancels_tap e))"

lemma tap_pending_append:
  "tap_pending es u \<Longrightarrow> \<not> cancels_tap e \<Longrightarrow> tap_pending (es @ [e]) u"
proof -
  assume pending: "tap_pending es u" and e: "\<not> cancels_tap e"
  from pending obtain pre post where "es = pre @ PI_Command 0 u # post"
      "held (fold pi_step pre ptz_zero) AND E1_PTZ_KEY_UP \<noteq> 0"
      "held (fold pi_step pre ptz_zero) AND E1_PTZ_ACTION_KEYS = 0"
      "\<forall>e\<in>set post. \<not> cancels_tap e"
    by (auto simp: tap_pending_def)
  with e show "tap_pending (es @ [e]) u"
    unfolding tap_pending_def by (intro exI [of _ pre] exI [of _ "post @ [e]"]) auto
qed

lemma set_held_last_up [simp]:
  "last_up_release_ms (fst (e1_ptz_set_held s n t)) = last_up_release_ms s"
  by (simp add: e1_ptz_set_held_def)

lemma last_up_step:
  "last_up_release_ms (pi_step e s) \<noteq> 0 \<Longrightarrow>
   (last_up_release_ms (pi_step e s) = last_up_release_ms s \<and> \<not> cancels_tap e) \<or>
   (e = PI_Command 0 (last_up_release_ms (pi_step e s)) \<and>
    held s AND E1_PTZ_KEY_UP \<noteq> 0 \<and> held s AND E1_PTZ_ACTION_KEYS = 0)"
  by (cases e)
    (auto simp: pi_step_def e1_ptz_apply_command_def e1_ptz_expire_def Let_def split: if_splits)

lemma last_up_run:
  "last_up_release_ms (fold pi_step es ptz_zero) \<noteq> 0 \<Longrightarrow>
   tap_pending es (last_up_release_ms (fold pi_step es ptz_zero))"
proof (induction es rule: rev_induct)
  case Nil
  then show ?case by (simp add: ptz_zero_def)
next
  case (snoc e es)
  let ?s = "fold pi_step es ptz_zero"
  let ?u = "last_up_release_ms (pi_step e ?s)"
  from snoc.prems last_up_step [of e ?s] consider
      "?u = last_up_release_ms ?s" "\<not> cancels_tap e"
    | "e = PI_Command 0 ?u" "held ?s AND E1_PTZ_KEY_UP \<noteq> 0"
      "held ?s AND E1_PTZ_ACTION_KEYS = 0"
    by auto
  then show ?case
  proof cases
    case 1
    with snoc show ?thesis by (simp add: tap_pending_append)
  next
    case 2
    then show ?thesis unfolding tap_pending_def
      by (intro exI [of _ es] exI [of _ "[]"]) auto
  qed
qed

lemma up_keeps_action:
  "(((m AND NOT E1_PTZ_DIRECTION_KEYS) OR E1_PTZ_KEY_UP) AND NOT m) AND E1_PTZ_ACTION_KEYS = 0"
proof (rule bit_word_eqI)
  fix n assume "n < LENGTH(32)"
  have "\<not> bit (E1_PTZ_KEY_UP AND E1_PTZ_ACTION_KEYS) n" by (simp add: e1_consts)
  then show "bit ((((m AND NOT E1_PTZ_DIRECTION_KEYS) OR E1_PTZ_KEY_UP) AND NOT m) AND
      E1_PTZ_ACTION_KEYS) n = bit 0 n"
    by (auto simp: bit_simps)
qed

lemma up_press:
  "press (snd (pi_call (PI_Command 3 t) s)) =
   (let nxt = (held s AND NOT E1_PTZ_DIRECTION_KEYS) OR E1_PTZ_KEY_UP
    in (if held s AND E1_PTZ_KEY_UP = 0 \<and> last_up_release_ms s \<noteq> 0 \<and>
           last_up_release_ms s \<le> t \<and> t - last_up_release_ms s \<le> E1_PTZ_ACTION_DOUBLE_TAP_MS
        then nxt OR E1_PTZ_ACTION_KEYS else nxt) AND NOT (held s))"
  by (simp add: e1_ptz_apply_command_def e1_ptz_set_held_def Let_def del: bit.de_Morgan_disj)

text \<open>Soundness of the double tap: an Up command presses an action key (Fire, Use, Enter)
  only if a stop released Up, with no action key held, at most 700 ms before, and no left,
  right or down command came in between, in any run from the zeroed state.\<close>

theorem double_tap_sound:
  assumes "press (snd (pi_call (PI_Command 3 t) (fold pi_step es ptz_zero))) AND
      E1_PTZ_ACTION_KEYS \<noteq> 0"
  shows "\<exists>u. tap_pending es u \<and> u \<le> t \<and> unat t - unat u \<le> 700"
proof -
  let ?s = "fold pi_step es ptz_zero"
  let ?u = "last_up_release_ms ?s"
  have "?u \<noteq> 0 \<and> ?u \<le> t \<and> t - ?u \<le> E1_PTZ_ACTION_DOUBLE_TAP_MS"
  proof (rule ccontr)
    assume "\<not> ?thesis"
    then have "press (snd (pi_call (PI_Command 3 t) ?s)) =
        ((held ?s AND NOT E1_PTZ_DIRECTION_KEYS) OR E1_PTZ_KEY_UP) AND NOT (held ?s)"
      by (subst up_press) (auto simp: Let_def)
    with assms up_keeps_action [of "held ?s"] show False by simp
  qed
  moreover from this have "unat t - unat ?u \<le> 700"
    using unat_elapsed [of ?u t] by (auto simp: e1_consts word_le_nat_alt)
  ultimately show ?thesis using last_up_run [of es] by blast
qed

lemma double_tap_sound_witness:
  "\<exists>u. tap_pending [PI_Command 3 1000, PI_Command 0 1100] u \<and> u \<le> 1500 \<and>
     unat (1500 :: u64) - unat u \<le> 700"
proof -
  have "press (snd (pi_call (PI_Command 3 1500)
      (fold pi_step [PI_Command 3 1000, PI_Command 0 1100] ptz_zero))) AND
      E1_PTZ_ACTION_KEYS \<noteq> 0"
    by code_simp
  then show ?thesis by (rule double_tap_sound)
qed

text \<open>Completeness of the double tap: a stop at a non-zero time u that releases Up with no
  action key held, then any clock checks and unrecognised commands, then Up at most 700 ms
  after the stop, presses Up and all three action keys at once.\<close>

theorem double_tap_complete:
  assumes "held s AND E1_PTZ_KEY_UP \<noteq> 0" and "held s AND E1_PTZ_ACTION_KEYS = 0"
    and "u \<noteq> 0" and "u \<le> t" and "t - u \<le> E1_PTZ_ACTION_DOUBLE_TAP_MS"
    and "\<forall>e\<in>set us. idle_event e"
  shows "press (snd (pi_call (PI_Command 3 t)
      (fold pi_step us (pi_step (PI_Command 0 u) s)))) = E1_PTZ_KEY_UP OR E1_PTZ_ACTION_KEYS"
proof -
  have stop: "held (pi_step (PI_Command 0 u) s) = 0 \<and>
      last_up_release_ms (pi_step (PI_Command 0 u) s) = u"
    using assms(1,2) by (simp add: pi_step_def e1_ptz_apply_command_def e1_ptz_set_held_def)
  have idle: "pi_step e s' = s'" if "idle_event e" and "held s' = 0" for e s'
    using that by (cases e) (simp_all add: pi_step_def unknown_command e1_ptz_expire_def)
  have "held s' = 0 \<longrightarrow> fold pi_step us s' = s'" for s'
    using assms(6) by (induction us) (simp_all add: idle)
  with stop have "held (fold pi_step us (pi_step (PI_Command 0 u) s)) = 0"
    and "last_up_release_ms (fold pi_step us (pi_step (PI_Command 0 u) s)) = u"
    by simp_all
  with assms(3-5) show ?thesis
    by (simp add: e1_ptz_apply_command_def e1_ptz_set_held_def)
qed

lemma double_tap_complete_witness:
  "press (snd (pi_call (PI_Command 3 1500) (fold pi_step [PI_Expire 1200]
     (pi_step (PI_Command 0 1100) (ptz_zero\<lparr>held := 1\<rparr>))))) = 113"
proof -
  have "press (snd (pi_call (PI_Command 3 1500) (fold pi_step [PI_Expire 1200]
     (pi_step (PI_Command 0 1100) (ptz_zero\<lparr>held := 1\<rparr>))))) =
     E1_PTZ_KEY_UP OR E1_PTZ_ACTION_KEYS"
    by (rule double_tap_complete) (simp_all add: e1_consts)
  then show ?thesis by (simp add: e1_consts)
qed

end
