(* ===== verification/Melt.thy ===== *)
theory Melt
  imports E1_Prelude
begin

text \<open>
  The screen-melt transition of \<open>src/common/e1-melt.h\<close>: the 35 Hz clock, the linear
  congruential generator, the initial column offsets, the advance of the columns and the two
  compositions. A column offset is an \<open>int16_t\<close>, here an \<open>int\<close> stored through \<open>int16\<close>; pixel
  buffers are lists of 16-bit words in row order, written by the two nested loops of the code.
  Buffer offsets are \<open>size_t\<close> values below the buffer length and are naturals.
\<close>

section \<open>Data\<close>

definition E1_MELT_COLUMNS :: nat where [e1_consts]: "E1_MELT_COLUMNS = 320"
definition E1_MELT_LOGICAL_ROWS :: int where [e1_consts]: "E1_MELT_LOGICAL_ROWS = 200"
definition E1_MELT_TRANSPARENT :: u16 where [e1_consts]: "E1_MELT_TRANSPARENT = 0"
definition E1_MELT_RATE_HZ :: u64 where [e1_consts]: "E1_MELT_RATE_HZ = 35"
definition E1_MELT_MAX_TICKS_PER_UPDATE :: u32 where
  [e1_consts]: "E1_MELT_MAX_TICKS_PER_UPDATE = 200"

record e1_melt_state =
  row :: "int list"

section \<open>Operations\<close>

text \<open>Result: the new \<open>last_ms\<close> and \<open>remainder\<close>, and the ticks.\<close>

definition e1_melt_clock_ticks :: "u64 \<Rightarrow> u64 \<Rightarrow> u64 \<Rightarrow> u64 \<times> u64 \<times> u32" where
  "e1_melt_clock_ticks last_ms remainder now_ms =
     (if last_ms = 0 then (now_ms, remainder, 0)
      else if now_ms \<le> last_ms then (last_ms, remainder, 0)
      else
        (let elapsed = now_ms - last_ms
         in if elapsed > (1000 * ucast E1_MELT_MAX_TICKS_PER_UPDATE) div E1_MELT_RATE_HZ
            then (now_ms, 0, E1_MELT_MAX_TICKS_PER_UPDATE)
            else (let scaled = elapsed * E1_MELT_RATE_HZ + remainder
                  in (now_ms, scaled mod 1000, ucast (scaled div 1000)))))"

definition e1_melt_random :: "u32 \<Rightarrow> u32 \<times> u32" where
  "e1_melt_random seed =
     (let seed = seed * 1664525 + 1013904223 in (seed, drop_bit 24 seed))"

text \<open>One iteration of the loop over the columns after the first, from the offset of the
  column before.\<close>

definition e1_melt_next_row :: "int \<Rightarrow> u32 \<Rightarrow> int" where
  "e1_melt_next_row prev rnd =
     (let row = prev + int (unat (rnd mod 3)) - 1
      in int16 (if row > 0 then 0 else if row = -16 then -15 else row))"

fun e1_melt_init_columns :: "nat \<Rightarrow> int \<Rightarrow> u32 \<Rightarrow> int list" where
  "e1_melt_init_columns 0 prev seed = []"
| "e1_melt_init_columns (Suc n) prev seed =
     (let (seed, rnd) = e1_melt_random seed; row = e1_melt_next_row prev rnd
      in row # e1_melt_init_columns n row seed)"

definition e1_melt_init :: "u32 \<Rightarrow> e1_melt_state" where
  "e1_melt_init seed =
     (let (seed, rnd) = e1_melt_random seed; first = int16 (- int (unat (rnd mod 16)))
      in \<lparr>row = first # e1_melt_init_columns (E1_MELT_COLUMNS - 1) first seed\<rparr>)"

definition e1_melt_column_tick :: "int \<Rightarrow> int" where
  "e1_melt_column_tick r =
     int16 (if r < 0 then r + 1
            else if r < E1_MELT_LOGICAL_ROWS then
              (let delta = (if r < 16 then r + 1 else 8); r = r + delta
               in if r > E1_MELT_LOGICAL_ROWS then E1_MELT_LOGICAL_ROWS else r)
            else r)"

fun e1_melt_ticks :: "nat \<Rightarrow> int list \<Rightarrow> int list" where
  "e1_melt_ticks 0 rows = rows"
| "e1_melt_ticks (Suc n) rows = e1_melt_ticks n (map e1_melt_column_tick rows)"

definition e1_melt_advance :: "e1_melt_state \<Rightarrow> u32 \<Rightarrow> e1_melt_state \<times> bool" where
  "e1_melt_advance state ticks =
     (let rows = e1_melt_ticks (unat ticks) (row state)
      in (state\<lparr>row := rows\<rparr>, \<not> list_ex (\<lambda>r. r < E1_MELT_LOGICAL_ROWS) rows))"

definition e1_melt_scaled_row :: "int \<Rightarrow> nat \<Rightarrow> nat" where
  "e1_melt_scaled_row r height =
     (if r \<le> 0 then 0 else if r \<ge> E1_MELT_LOGICAL_ROWS then height
      else nat r * height div nat E1_MELT_LOGICAL_ROWS)"

definition e1_melt_compose_entry ::
    "u16 list \<Rightarrow> u16 list \<Rightarrow> u16 list \<Rightarrow> nat \<Rightarrow> nat \<Rightarrow> e1_melt_state \<Rightarrow> u16 list" where
  "e1_melt_compose_entry output doom snapshot width height state =
     fold (\<lambda>x. fold (\<lambda>y output. output[y * width + x :=
         (let column = x * E1_MELT_COLUMNS div width;
              drop = e1_melt_scaled_row (row state ! column) height;
              offset = y * width + x
          in if y < drop then doom ! offset else snapshot ! ((y - drop) * width + x))])
       [0..<height]) [0..<width] output"

definition e1_melt_compose_exit ::
    "u16 list \<Rightarrow> u16 list \<Rightarrow> nat \<Rightarrow> nat \<Rightarrow> e1_melt_state \<Rightarrow> u16 list" where
  "e1_melt_compose_exit output snapshot width height state =
     fold (\<lambda>x. fold (\<lambda>y output. output[y * width + x :=
         (let column = x * E1_MELT_COLUMNS div width;
              drop = e1_melt_scaled_row (row state ! column) height
          in if y < drop then E1_MELT_TRANSPARENT else snapshot ! ((y - drop) * width + x))])
       [0..<height]) [0..<width] output"

section \<open>The columns\<close>

definition melt_row_ok :: "int \<Rightarrow> bool" where
  "melt_row_ok r \<longleftrightarrow> -15 \<le> r \<and> r \<le> 200"

definition wf_melt :: "e1_melt_state \<Rightarrow> bool" where
  "wf_melt s \<longleftrightarrow> length (row s) = E1_MELT_COLUMNS \<and> list_all melt_row_ok (row s)"

lemma next_row_range:
  assumes "-15 \<le> prev" and "prev \<le> 0"
  shows "-15 \<le> e1_melt_next_row prev rnd \<and> e1_melt_next_row prev rnd \<le> 0 \<and>
    \<bar>e1_melt_next_row prev rnd - prev\<bar> \<le> 1"
proof -
  define k where "k = int (unat (rnd mod 3))"
  have "unat (rnd mod 3) < 3" by (simp add: unat_mod_distrib)
  then have "0 \<le> k \<and> k \<le> 2" unfolding k_def by linarith
  with assms show ?thesis
    unfolding e1_melt_next_row_def Let_def k_def [symmetric] by (auto simp: int16_id)
qed

lemma init_columns:
  "-15 \<le> prev \<Longrightarrow> prev \<le> 0 \<Longrightarrow>
   length (e1_melt_init_columns n prev seed) = n \<and>
   list_all (\<lambda>r. -15 \<le> r \<and> r \<le> 0) (e1_melt_init_columns n prev seed) \<and>
   (\<forall>i<n. \<bar>(prev # e1_melt_init_columns n prev seed) ! Suc i -
            (prev # e1_melt_init_columns n prev seed) ! i\<bar> \<le> 1)"
proof (induction n arbitrary: prev seed)
  case (Suc n)
  obtain seed' rnd where r: "e1_melt_random seed = (seed', rnd)" by fastforce
  let ?next = "e1_melt_next_row prev rnd"
  note step = next_row_range [OF Suc.prems, of rnd]
  note ih = Suc.IH [of ?next seed']
  show ?case using step ih by (auto simp: r Let_def less_Suc_eq_0_disj)
qed simp

lemma first_row_range:
  "-15 \<le> int16 (- int (unat (rnd mod 16))) \<and> int16 (- int (unat (rnd mod 16))) \<le> 0" for rnd :: u32
proof -
  have "unat (rnd mod 16) < 16" by (simp add: unat_mod_distrib)
  then have "- 15 \<le> - int (unat (rnd mod 16))" and "- int (unat (rnd mod 16)) \<le> 0"
    by linarith+
  then show ?thesis by (simp only: int16_id)
qed

lemma melt_init_rows:
  "length (row (e1_melt_init seed)) = E1_MELT_COLUMNS \<and>
   list_all (\<lambda>r. -15 \<le> r \<and> r \<le> 0) (row (e1_melt_init seed)) \<and>
   (\<forall>i<E1_MELT_COLUMNS - 1.
      \<bar>row (e1_melt_init seed) ! Suc i - row (e1_melt_init seed) ! i\<bar> \<le> 1)"
proof -
  obtain seed' rnd where r: "e1_melt_random seed = (seed', rnd)" by fastforce
  let ?first = "int16 (- int (unat (rnd mod 16)))"
  note first = first_row_range [of rnd]
  with init_columns [of ?first "E1_MELT_COLUMNS - 1" seed'] show ?thesis
    by (simp add: e1_melt_init_def r Let_def e1_consts)
qed

text \<open>For every seed the initial melt has 320 columns, each delayed by 0 to 15 rows above
  the screen, and neighbouring columns differ by at most one row.\<close>

theorem melt_init_shape:
  "let rows = row (e1_melt_init seed)
   in length rows = E1_MELT_COLUMNS \<and> list_all (\<lambda>r. -15 \<le> r \<and> r \<le> 0) rows \<and>
      list_all (\<lambda>i. \<bar>rows ! Suc i - rows ! i\<bar> \<le> 1) [0..<E1_MELT_COLUMNS - 1]"
  using melt_init_rows [of seed] by (simp add: Let_def list_all_iff)

lemma column_tick_ok: "melt_row_ok r \<Longrightarrow> melt_row_ok (e1_melt_column_tick r)"
  by (auto simp: melt_row_ok_def e1_melt_column_tick_def Let_def int16_id e1_consts)

lemma column_tick_grows:
  "melt_row_ok r \<Longrightarrow> r < 200 \<Longrightarrow> r < e1_melt_column_tick r"
  "melt_row_ok r \<Longrightarrow> r \<le> e1_melt_column_tick r"
  by (auto simp: melt_row_ok_def e1_melt_column_tick_def Let_def int16_id e1_consts)

lemma melt_ticks_map: "e1_melt_ticks n rows = map (e1_melt_column_tick ^^ n) rows"
  by (induction n arbitrary: rows) (simp_all add: funpow_swap1)

lemma melt_ticks_add: "e1_melt_ticks (m + n) rows = e1_melt_ticks n (e1_melt_ticks m rows)"
  by (induction m arbitrary: rows) simp_all

lemma funpow_tick_ok: "melt_row_ok r \<Longrightarrow> melt_row_ok ((e1_melt_column_tick ^^ n) r)"
  by (induction n) (simp_all add: column_tick_ok)

lemma funpow_tick_grows: "melt_row_ok r \<Longrightarrow> r \<le> (e1_melt_column_tick ^^ n) r"
proof (induction n)
  case (Suc n)
  from column_tick_grows(2) [OF funpow_tick_ok [OF Suc.prems], of n] Suc show ?case by simp
qed simp

lemma advance_wf: "wf_melt s \<Longrightarrow> wf_melt (fst (e1_melt_advance s n))"
  by (auto simp: wf_melt_def e1_melt_advance_def Let_def melt_ticks_map list_all_iff
      funpow_tick_ok)

interpretation melt: event_machine "\<lambda>n s. fst (e1_melt_advance s n)" wf_melt
  by unfold_locales (rule advance_wf)

lemma init_wf: "wf_melt (e1_melt_init seed)"
  using melt_init_rows [of seed] by (auto simp: wf_melt_def list_all_iff melt_row_ok_def)

text \<open>
  The ticks a column still needs. The advance is not monotone (row 15 goes to 31, row 16 to
  24), so the bound is a rank that every tick lowers, checked row by row.
\<close>

definition melt_rank :: "int \<Rightarrow> nat" where
  "melt_rank r =
     (if r < 0 then nat (27 - r)
      else if r < 16 then
        [27, 26, 26, 25, 25, 25, 24, 24, 24, 24, 24, 24, 23, 23, 23, 23] ! nat r
      else nat ((207 - r) div 8))"

lemma rank_table:
  "list_all (\<lambda>r. melt_rank r \<le> 42 \<and>
     (if r = 200 then melt_rank r = 0 \<and> e1_melt_column_tick r = 200
      else melt_rank (e1_melt_column_tick r) < melt_rank r)) [-15..200]"
  by code_simp

lemma melt_rank_tick:
  assumes "melt_row_ok r"
  shows "melt_rank r \<le> 42 \<and>
     (if r = 200 then melt_rank r = 0 \<and> e1_melt_column_tick r = 200
      else melt_rank (e1_melt_column_tick r) < melt_rank r)"
proof -
  from assms have "r \<in> set [-15..200]" unfolding melt_row_ok_def set_upto by simp
  with rank_table show ?thesis unfolding list_all_iff by (rule bspec)
qed

lemma column_done: "melt_row_ok r \<Longrightarrow> melt_rank r \<le> n \<Longrightarrow> (e1_melt_column_tick ^^ n) r = 200"
proof (induction n arbitrary: r)
  case 0
  with melt_rank_tick [of r] show ?case by (auto split: if_splits)
next
  case (Suc n)
  have "melt_rank (e1_melt_column_tick r) \<le> n"
    using melt_rank_tick [OF Suc.prems(1)] Suc.prems(2) by (auto split: if_splits)
  with Suc.IH [OF column_tick_ok [OF Suc.prems(1)]]
  show ?case by (simp add: funpow_swap1)
qed

lemma all_columns_done: "melt_row_ok r \<Longrightarrow> 42 \<le> n \<Longrightarrow> (e1_melt_column_tick ^^ n) r = 200"
  using melt_rank_tick [of r] by (intro column_done) auto

lemma advance_run:
  "row (fold (\<lambda>n s. fst (e1_melt_advance s n)) ns s) = e1_melt_ticks (\<Sum>n\<leftarrow>ns. unat n) (row s)"
proof (induction ns arbitrary: s)
  case (Cons n ns)
  have "row (fst (e1_melt_advance s n)) = e1_melt_ticks (unat n) (row s)"
    by (simp add: e1_melt_advance_def Let_def)
  with Cons show ?case by (simp add: melt_ticks_add)
qed simp

lemma advance_done:
  "e1_melt_ticks (unat k) (row s) = replicate n 200 \<Longrightarrow>
   e1_melt_advance s k = (\<lparr>row = replicate n E1_MELT_LOGICAL_ROWS\<rparr>, True)"
  by (cases s) (simp add: e1_melt_advance_def Let_def list_ex_iff E1_MELT_LOGICAL_ROWS_def)

lemma all_ticks_done:
  assumes "42 \<le> (\<Sum>n\<leftarrow>ns. unat n) + unat k"
  shows "e1_melt_ticks (unat k) (row (fold (\<lambda>n s. fst (e1_melt_advance s n)) ns
      (e1_melt_init seed))) = replicate E1_MELT_COLUMNS 200"
proof -
  let ?s = "fold (\<lambda>n s. fst (e1_melt_advance s n)) ns (e1_melt_init seed)"
  let ?n = "(\<Sum>n\<leftarrow>ns. unat n) + unat k"
  have "e1_melt_ticks (unat k) (row ?s) = e1_melt_ticks ?n (row (e1_melt_init seed))"
    by (simp add: advance_run melt_ticks_add)
  also have "\<dots> = map (\<lambda>r. 200) (row (e1_melt_init seed))"
    unfolding melt_ticks_map
  proof (rule map_cong [OF refl])
    fix r assume "r \<in> set (row (e1_melt_init seed))"
    with init_wf [of seed] have "melt_row_ok r" by (simp add: wf_melt_def list_all_iff)
    with assms show "(e1_melt_column_tick ^^ ?n) r = 200" by (intro all_columns_done) simp_all
  qed
  also have "\<dots> = replicate E1_MELT_COLUMNS 200"
    using init_wf [of seed] by (simp add: map_replicate_const wf_melt_def)
  finally show ?thesis .
qed

text \<open>C34. The melt always finishes, and how the ticks are grouped into updates does not matter:
  whatever the seed, once the updates together made 42 ticks (1.2 s at 35 Hz) the next update
  reports completion with all 320 columns exactly at the bottom row.\<close>

theorem melt_finishes:
  assumes "42 \<le> (\<Sum>n\<leftarrow>ns. unat n)"
  shows "e1_melt_advance (fold (\<lambda>n s. fst (e1_melt_advance s n)) ns (e1_melt_init seed)) k =
    (\<lparr>row = replicate E1_MELT_COLUMNS E1_MELT_LOGICAL_ROWS\<rparr>, True)"
  using assms by (intro advance_done all_ticks_done) simp

lemma melt_finishes_witness:
  "snd (e1_melt_advance (fold (\<lambda>n s. fst (e1_melt_advance s n)) [20, 22] (e1_melt_init 7)) 0)"
  using melt_finishes [of "[20, 22]" 7 0] by simp

text \<open>No column ever moves up, leaves the range -15..200 or stops before the bottom: one more
  tick strictly lowers every column that is not at the bottom, from any state the updates reach.\<close>

theorem melt_progress:
  assumes "s = fold (\<lambda>n s. fst (e1_melt_advance s n)) ns (e1_melt_init seed)"
    and "i < E1_MELT_COLUMNS"
  shows "let r = row s ! i; r' = row (fst (e1_melt_advance s 1)) ! i
    in -15 \<le> r \<and> r \<le> r' \<and> r' \<le> 200 \<and> (r = 200 \<or> r < r')"
proof -
  from melt.run_inv [OF init_wf [of seed], of ns] assms(1) have wf: "wf_melt s" by simp
  with assms(2) have ok: "melt_row_ok (row s ! i)" and len: "i < length (row s)"
    by (simp_all add: wf_melt_def list_all_length)
  then have "row (fst (e1_melt_advance s 1)) ! i = e1_melt_column_tick (row s ! i)"
    by (simp add: e1_melt_advance_def Let_def melt_ticks_map)
  moreover have "row s ! i = 200 \<or> row s ! i < 200" using ok by (auto simp: melt_row_ok_def)
  ultimately show ?thesis
    using ok column_tick_grows [OF ok] column_tick_ok [OF ok]
    by (auto simp: Let_def melt_row_ok_def)
qed

lemma melt_progress_witness:
  "row (e1_melt_init 7) ! 3 \<le> row (fst (e1_melt_advance (e1_melt_init 7) 1)) ! 3"
  using melt_progress [of "e1_melt_init 7" "[]" 7 3] by (simp add: e1_consts Let_def)

section \<open>The clock\<close>

text \<open>The melt clock of one transition: \<open>last_ms\<close>, \<open>remainder\<close> and the ticks handed out so far.\<close>

definition melt_clock :: "u64 \<Rightarrow> u64 \<times> u64 \<times> nat \<Rightarrow> u64 \<times> u64 \<times> nat" where
  "melt_clock now_ms c = (case c of (l, r, n) \<Rightarrow>
     (let (l', r', k) = e1_melt_clock_ticks l r now_ms in (l', r', n + unat k)))"

lemma melt_late_limit: "(1000 * ucast E1_MELT_MAX_TICKS_PER_UPDATE) div E1_MELT_RATE_HZ = (5714 :: u64)"
  by (simp add: e1_consts)

lemma melt_scaled:
  fixes e r :: u64
  assumes "e \<le> 5714" and "r < 1000"
  shows "unat (e * 35 + r) = unat e * 35 + unat r"
proof -
  have b: "unat e \<le> 5714" "unat r < 1000" using assms by (simp_all add: word_le_nat_alt word_less_nat_alt)
  then have "unat e * 35 < 2 ^ 64" by simp
  then have m: "unat (e * 35) = unat e * 35" by (simp add: unat_word_ariths)
  with b show ?thesis by (simp add: unat_word_ariths)
qed

lemma clock_eq:
  "l \<noteq> 0 \<Longrightarrow> l < now \<Longrightarrow> e1_melt_clock_ticks l r now =
     (if now - l > 5714 then (now, 0, 200)
      else (now, ((now - l) * 35 + r) mod 1000, ucast (((now - l) * 35 + r) div 1000)))"
  unfolding e1_melt_clock_ticks_def melt_late_limit Let_def by (auto simp: e1_consts)

lemma clock_step:
  assumes "l \<noteq> 0" and "r < 1000" and "l < now" and "e1_melt_clock_ticks l r now = (l', r', k)"
  shows "l' = now \<and> r' < 1000 \<and> unat k \<le> 200 \<and>
    unat k * 1000 + unat r' \<le> 35 * (unat now - unat l) + unat r \<and>
    (unat now - unat l \<le> 5714 \<longrightarrow>
       unat k * 1000 + unat r' = 35 * (unat now - unat l) + unat r)"
proof -
  define e where "e = now - l"
  have e: "unat e = unat now - unat l" using assms(3) unfolding e_def by (simp add: unat_elapsed)
  show ?thesis
  proof (cases "e > 5714")
    case True
    then have "5714 < unat e" by (simp add: word_less_nat_alt)
    moreover have "(l', r', k) = (now, 0, 200)"
      using clock_eq [OF assms(1,3), of r, folded e_def] assms(4) True by simp
    ultimately show ?thesis using e by simp
  next
    case False
    then have le: "e \<le> 5714" by simp
    define q where "q = unat e * 35 + unat r"
    note scaled = melt_scaled [OF le assms(2), folded q_def]
    have bound: "unat e \<le> 5714" "unat r < 1000"
      using le assms(2) by (simp_all add: word_le_nat_alt word_less_nat_alt)
    have res: "l' = now \<and> r' = (e * 35 + r) mod 1000 \<and> k = ucast ((e * 35 + r) div 1000)"
      using clock_eq [OF assms(1,3), of r, folded e_def] assms(4) False by simp
    have "q div 1000 \<le> 200" using bound by (simp add: q_def)
    then have k: "unat k = q div 1000"
      using res by (simp add: unsigned_ucast_eq take_bit_eq_mod unat_div scaled)
    have r': "unat r' = q mod 1000" using res by (simp add: unat_mod scaled)
    then have "r' < 1000" by (simp add: word_less_nat_alt)
    moreover have "q div 1000 * 1000 + q mod 1000 = q" by simp
    ultimately show ?thesis using res k r' e \<open>q div 1000 \<le> 200\<close> by (simp add: q_def)
  qed
qed

definition clock_inv :: "u64 \<Rightarrow> u64 \<times> u64 \<times> nat \<Rightarrow> bool" where
  "clock_inv t0 c \<longleftrightarrow> (case c of (l, r, n) \<Rightarrow>
     l \<noteq> 0 \<and> t0 \<le> l \<and> r < 1000 \<and> n * 1000 + unat r \<le> 35 * (unat l - unat t0))"

lemma clock_keeps:
  assumes "clock_inv t0 c"
  shows "clock_inv t0 (melt_clock now c) \<and> snd (snd (melt_clock now c)) \<le> snd (snd c) + 200"
proof -
  obtain l r n where c: "c = (l, r, n)" by (cases c)
  from assms c have inv: "l \<noteq> 0" "t0 \<le> l" "r < 1000" "n * 1000 + unat r \<le> 35 * (unat l - unat t0)"
    by (simp_all add: clock_inv_def)
  show ?thesis
  proof (cases "now \<le> l")
    case True
    with inv c show ?thesis by (simp add: melt_clock_def e1_melt_clock_ticks_def clock_inv_def)
  next
    case False
    then have lt: "l < now" by simp
    obtain l' r' k where t: "e1_melt_clock_ticks l r now = (l', r', k)"
      by (cases "e1_melt_clock_ticks l r now")
    note st = clock_step [OF inv(1,3) lt t]
    have "unat t0 \<le> unat l" "unat l < unat now"
      using inv(2) lt by (simp_all add: word_le_nat_alt word_less_nat_alt)
    then have "unat now - unat t0 = (unat l - unat t0) + (unat now - unat l)" by simp
    then have "(n + unat k) * 1000 + unat r' \<le> 35 * (unat now - unat t0)"
      using st inv(4) by (simp only: distrib_left distrib_right) linarith
    moreover have "now \<noteq> 0" "t0 \<le> now" using lt inv(2) by auto
    ultimately show ?thesis using st c t by (simp add: melt_clock_def clock_inv_def)
  qed
qed

interpretation melt_clock: event_machine melt_clock "clock_inv t0" for t0
  by unfold_locales (simp add: clock_keeps)

text \<open>The melt never runs faster than 35 Hz: whatever the sequence of clock readings after a
  non-zero first one, even one that goes backwards or jumps, the ticks handed out are at most
  35 per elapsed second, and one update never hands out more than 200.\<close>

theorem melt_clock_rate:
  assumes "t0 \<noteq> 0"
  shows "case fold melt_clock ts (t0, 0, 0) of (l, r, n) \<Rightarrow>
    n * 1000 \<le> 35 * (unat l - unat t0) \<and> unat r < 1000 \<and>
    unat (snd (snd (e1_melt_clock_ticks l r t))) \<le> 200"
proof -
  have "clock_inv t0 (t0, 0, 0)" using assms by (simp add: clock_inv_def)
  then have inv: "clock_inv t0 (fold melt_clock ts (t0, 0, 0))" by (rule melt_clock.run_inv)
  obtain l r n where run: "fold melt_clock ts (t0, 0, 0) = (l, r, n)"
    by (cases "fold melt_clock ts (t0, 0, 0)")
  from clock_keeps [OF inv, of t] run
  have "unat (snd (snd (e1_melt_clock_ticks l r t))) \<le> 200"
    by (simp add: melt_clock_def split: prod.splits)
  with inv run show ?thesis by (simp add: clock_inv_def word_less_nat_alt)
qed

lemma melt_clock_rate_witness:
  "case fold melt_clock [1010, 1005, 9000] (1000, 0, 0) of (l, r, n) \<Rightarrow>
     n * 1000 \<le> 35 * (unat l - 1000)"
proof -
  have "(1000 :: u64) \<noteq> 0" by simp
  from melt_clock_rate [OF this, of 0 "[1010, 1005, 9000]"] show ?thesis
    by (auto split: prod.splits)
qed

fun timely :: "u64 \<Rightarrow> u64 list \<Rightarrow> bool" where
  "timely l [] \<longleftrightarrow> True"
| "timely l (t # ts) \<longleftrightarrow> l \<le> t \<and> unat t - unat l \<le> 5714 \<and> timely t ts"

lemma timely_run:
  assumes "l \<noteq> 0" and "r < 1000" and "timely l ts"
    and "fold melt_clock ts (l, r, n) = (l', r', n')"
  shows "n' * 1000 + unat r' = n * 1000 + unat r + 35 * (unat (last (l # ts)) - unat l)"
  using assms
proof (induction ts arbitrary: l r n)
  case (Cons t ts)
  show ?case
  proof (cases "t = l")
    case True
    with Cons show ?thesis by (simp add: melt_clock_def e1_melt_clock_ticks_def)
  next
    case False
    with Cons.prems have lt: "l < t" and gap: "unat t - unat l \<le> 5714" by auto
    obtain l1 r1 k where t1: "e1_melt_clock_ticks l r t = (l1, r1, k)"
      by (cases "e1_melt_clock_ticks l r t")
    note st = clock_step [OF Cons.prems(1,2) lt t1]
    have "unat l \<le> unat t" "unat t \<le> unat (last (t # ts))"
    proof -
      show "unat l \<le> unat t" using lt by (simp add: word_less_nat_alt)
      have "timely t ts" using Cons.prems by simp
      then show "unat t \<le> unat (last (t # ts))"
        by (induction ts arbitrary: t) (auto simp: word_le_nat_alt split: if_splits intro: order_trans)
    qed
    moreover have "t \<noteq> 0" using lt by auto
    with Cons.IH [of t r1 "n + unat k"] Cons.prems st t1
    have "n' * 1000 + unat r' = (n + unat k) * 1000 + unat r1 + 35 * (unat (last (t # ts)) - unat t)"
      by (simp add: melt_clock_def)
    moreover from calculation have "unat (last (t # ts)) - unat l =
        (unat t - unat l) + (unat (last (t # ts)) - unat t)" by simp
    moreover have "unat k * 1000 + unat r1 = 35 * (unat t - unat l) + unat r" using st gap by simp
    ultimately show ?thesis by (simp only: last.simps distrib_left distrib_right list.simps) simp
  qed
qed simp

text \<open>No tick is lost either: with readings that never go back and at most 5714 ms apart, the
  ticks handed out and the remainder account for the elapsed time at exactly 35 Hz.\<close>

theorem melt_clock_exact:
  assumes "t0 \<noteq> 0" and "timely t0 ts" and "fold melt_clock ts (t0, 0, 0) = (l, r, n)"
  shows "n * 1000 + unat r = 35 * (unat (last (t0 # ts)) - unat t0)"
  using timely_run [OF assms(1) _ assms(2,3)] by simp

lemma melt_clock_exact_witness:
  "case fold melt_clock [1010, 1060] (1000, 0, 0) of (l, r, n) \<Rightarrow> n * 1000 + unat r = 2100"
proof -
  obtain l r n where run: "fold melt_clock [1010, 1060] (1000, 0, 0) = (l, r, n)"
    by (cases "fold melt_clock [1010, 1060] (1000, 0, 0)")
  have "timely 1000 [1010, 1060]" by simp
  from melt_clock_exact [OF _ this run] run show ?thesis by simp
qed

section \<open>The compositions\<close>

lemma scaled_row_le: "e1_melt_scaled_row r h \<le> h"
proof -
  have "nat r * h div 200 \<le> h" if "r < 200"
  proof -
    have "nat r * h \<le> 200 * h" using that by (intro mult_le_mono1) simp
    then have "nat r * h div 200 \<le> 200 * h div 200" by (rule div_le_mono)
    then show ?thesis by simp
  qed
  then show ?thesis by (simp add: e1_melt_scaled_row_def e1_consts)
qed

lemma melt_column_less: "x < w \<Longrightarrow> x * E1_MELT_COLUMNS div w < E1_MELT_COLUMNS"
  by (simp add: e1_consts div_less_iff_less_mult)

text \<open>How many rows of column \<open>x\<close> have been uncovered.\<close>

definition melt_drop :: "e1_melt_state \<Rightarrow> nat \<Rightarrow> nat \<Rightarrow> nat \<Rightarrow> nat" where
  "melt_drop s w h x = e1_melt_scaled_row (row s ! (x * E1_MELT_COLUMNS div w)) h"

lemma compose_entry_at:
  assumes "x < w" and "y < h" and "length out = h * w"
  shows "e1_melt_compose_entry out doom snap w h s ! (y * w + x) =
      (if y < melt_drop s w h x then doom ! (y * w + x)
       else snap ! ((y - melt_drop s w h x) * w + x))"
  using grid_fill_nth [OF assms] unfolding e1_melt_compose_entry_def Let_def melt_drop_def by simp

lemma compose_exit_at:
  assumes "x < w" and "y < h" and "length out = h * w"
  shows "e1_melt_compose_exit out snap w h s ! (y * w + x) =
      (if y < melt_drop s w h x then E1_MELT_TRANSPARENT
       else snap ! ((y - melt_drop s w h x) * w + x))"
  using grid_fill_nth [OF assms] unfolding e1_melt_compose_exit_def Let_def melt_drop_def by simp

lemma length_compose [simp]:
  "length (e1_melt_compose_entry out doom snap w h s) = length out"
  "length (e1_melt_compose_exit out snap w h s) = length out"
  by (simp_all add: e1_melt_compose_entry_def e1_melt_compose_exit_def)

text \<open>Each composition writes every pixel of the frame and nothing else: above the drop of its
  column the Doom frame at the same place (entry) or the transparent colour (exit), below it
  the snapshot shifted down by the drop; the column index is inside the state and every buffer
  index read is inside the frame.\<close>

theorem compose_pixels:
  assumes "x < w" and "y < h" and "length out = h * w"
  shows "e1_melt_compose_entry out doom snap w h s ! (y * w + x) =
      (if y < melt_drop s w h x then doom ! (y * w + x)
       else snap ! ((y - melt_drop s w h x) * w + x)) \<and>
    e1_melt_compose_exit out snap w h s ! (y * w + x) =
      (if y < melt_drop s w h x then E1_MELT_TRANSPARENT
       else snap ! ((y - melt_drop s w h x) * w + x)) \<and>
    length (e1_melt_compose_entry out doom snap w h s) = h * w \<and>
    length (e1_melt_compose_exit out snap w h s) = h * w \<and>
    x * E1_MELT_COLUMNS div w < E1_MELT_COLUMNS \<and> melt_drop s w h x \<le> h \<and>
    (y - melt_drop s w h x) * w + x < h * w"
  using assms compose_entry_at [OF assms] compose_exit_at [OF assms]
    grid_index_less [OF assms(1), of "y - melt_drop s w h x" h]
  by (simp add: melt_column_less melt_drop_def scaled_row_le)

lemma compose_pixels_witness:
  "e1_melt_compose_exit (replicate 6 9) [1, 2, 3, 4, 5, 6] 2 3 (\<lparr>row = replicate 320 100\<rparr>) ! 3 = 2"
proof -
  have "melt_drop (\<lparr>row = replicate 320 100\<rparr>) 2 3 1 = 1"
    by (simp add: melt_drop_def e1_melt_scaled_row_def e1_consts)
  with compose_pixels [of 1 2 1 3 "replicate 6 9" "[]" "[1, 2, 3, 4, 5, 6]"
      "\<lparr>row = replicate 320 100\<rparr>"]
  show ?thesis by simp
qed

lemma frame_eqI:
  assumes "length a = h * w" and "length b = h * w" and "0 < w"
    and "\<And>x y. x < w \<Longrightarrow> y < h \<Longrightarrow> a ! (y * w + x) = b ! (y * w + x)"
  shows "a = b"
proof (rule nth_equalityI)
  fix i assume i: "i < length a"
  then have "i div w < h" using assms(1,3) by (simp add: div_less_iff_less_mult)
  moreover have "i mod w < w" using assms(3) by simp
  ultimately show "a ! i = b ! i" using assms(4) [of "i mod w" "i div w"] by simp
qed (simp add: assms)

lemma melt_drop_start:
  assumes "x < w"
  shows "melt_drop (e1_melt_init seed) w h x = 0"
proof -
  have "row (e1_melt_init seed) ! (x * E1_MELT_COLUMNS div w) \<le> 0"
    using melt_init_rows [of seed] melt_column_less [OF assms] by (simp add: list_all_length)
  then show ?thesis by (simp add: melt_drop_def e1_melt_scaled_row_def)
qed

lemma melt_drop_end:
  "x < w \<Longrightarrow> melt_drop (\<lparr>row = replicate E1_MELT_COLUMNS E1_MELT_LOGICAL_ROWS\<rparr>) w h x = h"
  using melt_column_less [of x w] by (simp add: melt_drop_def e1_melt_scaled_row_def e1_consts)

text \<open>The frame a transition shows when the updates so far are \<open>ns\<close>.\<close>

definition melt_state :: "u32 \<Rightarrow> u32 list \<Rightarrow> e1_melt_state" where
  "melt_state seed ns = fold (\<lambda>n s. fst (e1_melt_advance s n)) ns (e1_melt_init seed)"

lemma melt_state_end:
  "42 \<le> (\<Sum>n\<leftarrow>ns. unat n) \<Longrightarrow>
   melt_state seed ns = \<lparr>row = replicate E1_MELT_COLUMNS E1_MELT_LOGICAL_ROWS\<rparr>"
  using all_ticks_done [of ns 0 seed]
  by (cases "melt_state seed ns") (simp add: melt_state_def E1_MELT_LOGICAL_ROWS_def)

text \<open>The transitions begin and end where they should: before the first tick the entry shows
  exactly the camera snapshot and so does the exit; once 42 ticks have been made the entry
  shows exactly the Doom frame and the exit is transparent everywhere.\<close>

theorem melt_endpoints:
  assumes "length out = h * w" and "length doom = h * w" and "length snap = h * w" and "0 < w"
    and "42 \<le> (\<Sum>n\<leftarrow>ns. unat n)"
  shows "e1_melt_compose_entry out doom snap w h (melt_state seed []) = snap \<and>
    e1_melt_compose_exit out snap w h (melt_state seed []) = snap \<and>
    e1_melt_compose_entry out doom snap w h (melt_state seed ns) = doom \<and>
    e1_melt_compose_exit out snap w h (melt_state seed ns) = replicate (h * w) E1_MELT_TRANSPARENT"
proof (intro conjI)
  have start: "melt_state seed [] = e1_melt_init seed" by (simp add: melt_state_def)
  show "e1_melt_compose_entry out doom snap w h (melt_state seed []) = snap"
    unfolding start using compose_entry_at assms
    by (intro frame_eqI [of _ h w]) (simp_all add: melt_drop_start)
  show "e1_melt_compose_exit out snap w h (melt_state seed []) = snap"
    unfolding start using compose_exit_at assms
    by (intro frame_eqI [of _ h w]) (simp_all add: melt_drop_start)
  show "e1_melt_compose_entry out doom snap w h (melt_state seed ns) = doom"
    unfolding melt_state_end [OF assms(5)] using compose_entry_at assms
    by (intro frame_eqI [of _ h w]) (simp_all add: melt_drop_end)
  show "e1_melt_compose_exit out snap w h (melt_state seed ns) =
      replicate (h * w) E1_MELT_TRANSPARENT"
    unfolding melt_state_end [OF assms(5)] using compose_exit_at assms grid_index_less
    by (intro frame_eqI [of _ h w]) (simp_all add: melt_drop_end)
qed

lemma melt_endpoints_witness:
  "e1_melt_compose_entry [0, 0] [5, 6] [1, 2] 2 1 (melt_state 7 [42]) = [5, 6]"
  using melt_endpoints [of "[0, 0]" 1 2 "[5, 6]" "[1, 2]" "[42]" 7] by simp

end
