(* ===== verification/Audio_Contract.thy ===== *)
theory Audio_Contract
  imports E1_Prelude
begin

text \<open>
  The audio format contract of \<open>src/common/e1-audio-contract.h\<close>: the 1 kHz test tone and the
  parser of the ADTS headers the stock encoder writes. A pointer that may be \<open>NULL\<close> is an
  option; the parser fills the contract field by field before its last checks, as in C, so a
  rejected header still leaves what was decoded. The result is the C return value.
\<close>

section \<open>Data\<close>

definition E1_AUDIO_SAMPLE_RATE :: u32 where [e1_consts]: "E1_AUDIO_SAMPLE_RATE = 16000"
definition E1_AUDIO_SAMPLES_PER_FRAME :: u32 where
  [e1_consts]: "E1_AUDIO_SAMPLES_PER_FRAME = 1024"
definition E1_AUDIO_PCM_BYTES_PER_FRAME :: u32 where
  "E1_AUDIO_PCM_BYTES_PER_FRAME = E1_AUDIO_SAMPLES_PER_FRAME * 2"

record e1_adts_contract =
  mpeg_id :: u32
  object_type :: u32
  sample_rate :: u32
  channels :: u32
  header_size :: u32
  frame_size :: u32
  buffer_fullness :: u32
  raw_data_blocks :: u32

section \<open>Operations\<close>

definition tone_wave :: "int list" where
  "tone_wave = [0, 5740, 10607, 13858, 15000, 13858, 10607, 5740,
                0, -5740, -10607, -13858, -15000, -13858, -10607, -5740]"

definition e1_fill_tone_1khz_s16 :: "int list \<Rightarrow> nat \<Rightarrow> int list" where
  "e1_fill_tone_1khz_s16 samples count =
     fold (\<lambda>index samples. samples[index := tone_wave ! unat (word_of_nat index AND (15 :: u32))])
       [0..<count] samples"

definition adts_sample_rates :: "u32 list" where
  "adts_sample_rates = [96000, 88200, 64000, 48000, 44100, 32000, 24000,
     22050, 16000, 12000, 11025, 8000, 7350]"

definition e1_parse_stock_adts ::
    "u8 list option \<Rightarrow> nat \<Rightarrow> e1_adts_contract option \<Rightarrow> e1_adts_contract option \<times> int" where
  "e1_parse_stock_adts data available contract =
     (case (data, contract) of
        (Some data, Some contract) \<Rightarrow>
          if available < 7 \<or> data ! 0 \<noteq> 0xff \<or> data ! 1 \<noteq> 0xf9 then (Some contract, -1)
          else
            (let frequency_index = drop_bit 2 (ucast (data ! 2)) AND (15 :: u32)
             in if frequency_index \<ge> 13 then (Some contract, -1)
                else
                  (let size = push_bit 11 (ucast (data ! 3 AND 3) :: u32) OR
                              push_bit 3 (ucast (data ! 4)) OR drop_bit 5 (ucast (data ! 5));
                       fullness = push_bit 6 (ucast (data ! 5 AND 31) :: u32) OR
                                  drop_bit 2 (ucast (data ! 6));
                       contract = contract\<lparr>
                         mpeg_id := drop_bit 3 (ucast (data ! 1)) AND 1,
                         object_type := drop_bit 6 (ucast (data ! 2)) + 1,
                         sample_rate := adts_sample_rates ! unat frequency_index,
                         channels := push_bit 2 (ucast (data ! 2 AND 1)) OR
                                     drop_bit 6 (ucast (data ! 3)),
                         header_size := 7,
                         frame_size := size,
                         buffer_fullness := fullness,
                         raw_data_blocks := ucast (data ! 6 AND 3)\<rparr>
                   in if mpeg_id contract \<noteq> 1 \<or> object_type contract \<noteq> 2 \<or>
                         sample_rate contract \<noteq> E1_AUDIO_SAMPLE_RATE \<or>
                         channels contract \<noteq> 1 \<or> size \<le> 7 \<or> unat size > available \<or>
                         raw_data_blocks contract \<noteq> 0
                      then (Some contract, -1) else (Some contract, 0)))
      | _ \<Rightarrow> (contract, -1))"

section \<open>The tone\<close>

text \<open>The tone has a period of sixteen samples, 1 kHz at 16 kHz.\<close>

lemma tone_nth:
  assumes "i < count" and "count \<le> length samples"
  shows "e1_fill_tone_1khz_s16 samples count ! i = tone_wave ! (i mod 16)"
proof -
  have "unat (word_of_nat i AND (15 :: u32)) = i mod 16"
  proof -
    have "(15 :: u32) = mask 4" by (simp add: mask_eq_exp_minus_1)
    then have "unat (word_of_nat i AND (15 :: u32)) = unat (word_of_nat i :: u32) mod 2 ^ 4"
      by (simp only: unat_and_mask)
    also have "\<dots> = i mod 2 ^ 4" by (simp add: unsigned_of_nat take_bit_eq_mod mod_mod_cancel)
    finally show ?thesis by simp
  qed
  then show ?thesis
    unfolding e1_fill_tone_1khz_s16_def
    using fold_update_nth [of "\<lambda>i. i" "[0..<count]" i samples
        "\<lambda>i. tone_wave ! unat (word_of_nat i AND (15 :: u32))"] assms
    by simp
qed

section \<open>The parser\<close>

lemma frame_size_value:
  fixes b3 b4 b5 :: u8
  shows "unat (push_bit 11 (ucast (b3 AND 3) :: u32) OR push_bit 3 (ucast b4) OR
      drop_bit 5 (ucast b5)) = unat b3 mod 4 * 2048 + unat b4 * 8 + unat b5 div 32"
proof -
  let ?hi = "push_bit 11 (ucast (b3 AND 3) :: u32)" and ?mid = "push_bit 3 (ucast b4) :: u32"
    and ?lo = "drop_bit 5 (ucast b5) :: u32"
  have b: "unat b4 < 256" "unat b5 < 256" using unsigned_less [of b4] unsigned_less [of b5] by auto
  have three: "unat (b3 AND 3) = unat b3 mod 4"
    using unat_and_mask [of b3 2] by (simp add: mask_eq_exp_minus_1)
  have vals: "unat ?hi = unat b3 mod 4 * 2048" "unat ?mid = unat b4 * 8" "unat ?lo = unat b5 div 32"
    using b three
    by (simp_all add: push_bit_eq_mult drop_bit_eq_div unat_word_ariths unsigned_ucast_eq
        take_bit_eq_mod unat_div)
  have "?mid OR ?lo = ?mid + ?lo"
    by (rule disjunctive_add [symmetric]) (auto simp: bit_simps dest!: bit_imp_le_length)
  moreover have "?hi OR (?mid + ?lo) = ?hi + (?mid + ?lo)"
    unfolding calculation [symmetric]
    by (rule disjunctive_add [symmetric]) (auto simp: bit_simps dest!: bit_imp_le_length)
  moreover have "unat (?mid + ?lo) = unat b4 * 8 + unat b5 div 32"
    using b vals by (subst unat_add_lem [THEN iffD1]) simp_all
  moreover have "unat (?hi + (?mid + ?lo)) = unat b3 mod 4 * 2048 + (unat b4 * 8 + unat b5 div 32)"
    using b vals calculation(3) by (subst unat_add_lem [THEN iffD1]) simp_all
  ultimately show ?thesis by simp
qed

lemma fullness_value:
  fixes b5 b6 :: u8
  shows "unat (push_bit 6 (ucast (b5 AND 31) :: u32) OR drop_bit 2 (ucast b6)) =
    unat b5 mod 32 * 64 + unat b6 div 4"
proof -
  let ?hi = "push_bit 6 (ucast (b5 AND 31) :: u32)" and ?lo = "drop_bit 2 (ucast b6) :: u32"
  have b: "unat b6 < 256" using unsigned_less [of b6] by simp
  have low: "unat (b5 AND 31) = unat b5 mod 32"
    using unat_and_mask [of b5 5] by (simp add: mask_eq_exp_minus_1)
  have vals: "unat ?hi = unat b5 mod 32 * 64" "unat ?lo = unat b6 div 4"
    using b low
    by (simp_all add: push_bit_eq_mult drop_bit_eq_div unat_word_ariths unsigned_ucast_eq
        take_bit_eq_mod unat_div)
  have "?hi OR ?lo = ?hi + ?lo"
    by (rule disjunctive_add [symmetric]) (auto simp: bit_simps dest!: bit_imp_le_length)
  moreover have "unat (?hi + ?lo) = unat b5 mod 32 * 64 + unat b6 div 4"
    using b vals by (subst unat_add_lem [THEN iffD1]) simp_all
  ultimately show ?thesis by simp
qed

text \<open>The numbers an ADTS header encodes, from its bytes.\<close>

definition adts_frame_size :: "u8 list \<Rightarrow> nat" where
  "adts_frame_size data = unat (data ! 3) mod 4 * 2048 + unat (data ! 4) * 8 + unat (data ! 5) div 32"

definition adts_fullness :: "u8 list \<Rightarrow> nat" where
  "adts_fullness data = unat (data ! 5) mod 32 * 64 + unat (data ! 6) div 4"

text \<open>The header of a stock frame: MPEG-2, AAC-LC, 16 kHz, mono, one block, no CRC. The bits the
  parser ignores (private, copyright, home) may hold anything.\<close>

definition stock_header :: "u8 list \<Rightarrow> nat \<Rightarrow> bool" where
  "stock_header data available \<longleftrightarrow> 7 \<le> available \<and> data ! 0 = 0xff \<and> data ! 1 = 0xf9 \<and>
     unat (data ! 2) div 4 = 24 \<and> data ! 2 AND 1 = 0 \<and> unat (data ! 3) div 64 = 1 \<and>
     7 < adts_frame_size data \<and> adts_frame_size data \<le> available \<and> data ! 6 AND 3 = 0"

lemma low_rates: "r < 13 \<Longrightarrow> adts_sample_rates ! r = E1_AUDIO_SAMPLE_RATE \<longleftrightarrow> r = 8" for r :: nat
proof -
  have "list_all (\<lambda>r. (adts_sample_rates ! r = E1_AUDIO_SAMPLE_RATE) = (r = 8)) [0..<13]"
    by (simp add: adts_sample_rates_def E1_AUDIO_SAMPLE_RATE_def upt_rec)
  then show "r < 13 \<Longrightarrow> adts_sample_rates ! r = E1_AUDIO_SAMPLE_RATE \<longleftrightarrow> r = 8"
    by (simp add: list_all_iff)
qed

lemma byte2_fields:
  fixes b2 :: u8
  shows "(\<not> drop_bit 2 (ucast b2) AND (15 :: u32) \<ge> 13 \<and> drop_bit 6 (ucast b2) + 1 = (2 :: u32) \<and>
    adts_sample_rates ! unat (drop_bit 2 (ucast b2) AND (15 :: u32)) = E1_AUDIO_SAMPLE_RATE) \<longleftrightarrow>
   unat b2 div 4 = 24"
proof -
  let ?i = "drop_bit 2 (ucast b2) AND (15 :: u32)"
  have "(15 :: u32) = mask 4" by (simp add: mask_eq_exp_minus_1)
  then have "unat ?i = unat (drop_bit 2 (ucast b2) :: u32) mod 2 ^ 4" by (simp only: unat_and_mask)
  also have "\<dots> = unat b2 div 4 mod 16" by (simp add: drop_bit_eq_div unat_div)
  finally have i: "unat ?i = unat b2 div 4 mod 16" .
  have "drop_bit 6 (ucast b2) + 1 = (2 :: u32) \<longleftrightarrow> drop_bit 6 (ucast b2) = (1 :: u32)"
    by (metis add_left_cancel add.commute one_add_one)
  also have "\<dots> \<longleftrightarrow> unat b2 div 64 = 1"
    by (simp add: word_unat_eq_iff drop_bit_eq_div unat_div)
  finally have hi: "drop_bit 6 (ucast b2) + 1 = (2 :: u32) \<longleftrightarrow> unat b2 div 64 = 1" .
  have "13 \<le> ?i \<longleftrightarrow> 13 \<le> unat ?i" by (simp add: word_le_nat_alt)
  with low_rates [of "unat ?i"] hi have "?thesis \<longleftrightarrow>
      (unat b2 div 64 = 1 \<and> unat b2 div 4 mod 16 = 8 \<longleftrightarrow> unat b2 div 4 = 24)"
    unfolding i by auto
  moreover have "unat b2 div 64 = unat b2 div 4 div 16" by (simp add: div_mult2_eq [symmetric])
  moreover have "q div 16 = 1 \<and> q mod 16 = 8 \<longleftrightarrow> q = 24" for q :: nat
  proof
    assume "q div 16 = 1 \<and> q mod 16 = 8"
    then show "q = 24" using div_mult_mod_eq [of q 16] by (elim conjE) linarith
  qed simp
  ultimately show ?thesis by simp
qed

lemma channels_field:
  fixes b2 b3 :: u8
  shows "push_bit 2 (ucast (b2 AND 1)) OR drop_bit 6 (ucast b3) = (1 :: u32) \<longleftrightarrow>
    b2 AND 1 = 0 \<and> unat b3 div 64 = 1"
proof -
  have hi: "drop_bit 6 (ucast b3) = (1 :: u32) \<longleftrightarrow> unat b3 div 64 = 1"
    by (simp add: word_unat_eq_iff drop_bit_eq_div unat_div)
  show ?thesis
  proof (cases "b2 AND 1 = 0")
    case True
    with hi show ?thesis by simp
  next
    case False
    then have one: "b2 AND 1 = 1" by (simp add: and_one_eq mod_2_eq_odd split: if_splits)
    have "bit (push_bit 2 (ucast (b2 AND 1)) OR drop_bit 6 (ucast b3) :: u32) 2"
      unfolding one by (simp add: bit_simps)
    moreover have "\<not> bit (1 :: u32) 2" by simp
    ultimately show ?thesis using False by metis
  qed
qed

lemma mpeg_field: "drop_bit 3 (ucast (0xf9 :: u8)) AND 1 = (1 :: u32)"
  by code_simp

lemma blocks_field: "ucast (b AND 3) = (0 :: u32) \<longleftrightarrow> b AND 3 = 0" for b :: u8
  by (simp add: word_unat_eq_iff)

lemma parse_accepts:
  "snd (e1_parse_stock_adts (Some data) available (Some c)) = 0 \<longleftrightarrow> stock_header data available"
  (is "?ok \<longleftrightarrow> _")
proof -
  let ?size = "push_bit 11 (ucast (data ! 3 AND 3) :: u32) OR
      push_bit 3 (ucast (data ! 4)) OR drop_bit 5 (ucast (data ! 5))"
  have size: "unat ?size = adts_frame_size data"
    unfolding adts_frame_size_def by (rule frame_size_value)
  then have le: "?size \<le> 7 \<longleftrightarrow> \<not> 7 < adts_frame_size data"
    by (simp add: word_le_nat_alt not_less)
  have "?ok \<longleftrightarrow> \<not> available < 7 \<and> data ! 0 = 0xff \<and> data ! 1 = 0xf9 \<and>
     (\<not> drop_bit 2 (ucast (data ! 2)) AND (15 :: u32) \<ge> 13 \<and>
      drop_bit 6 (ucast (data ! 2)) + 1 = (2 :: u32) \<and>
      adts_sample_rates ! unat (drop_bit 2 (ucast (data ! 2)) AND (15 :: u32)) =
        E1_AUDIO_SAMPLE_RATE) \<and>
     push_bit 2 (ucast (data ! 2 AND 1)) OR drop_bit 6 (ucast (data ! 3)) = (1 :: u32) \<and>
     \<not> ?size \<le> 7 \<and> \<not> unat ?size > available \<and> ucast (data ! 6 AND 3) = (0 :: u32)"
    unfolding e1_parse_stock_adts_def Let_def using mpeg_field by simp argo
  then show ?thesis
    unfolding byte2_fields channels_field blocks_field le size stock_header_def
    by (auto simp: not_less)
qed

text \<open>The parser accepts a frame exactly when its header is that of a stock frame that fits in
  the available bytes, and then reports the size and fullness the header encodes; it never
  accepts a frame that is empty or longer than the buffer.\<close>

theorem parse_adts_iff:
  "snd (e1_parse_stock_adts (Some data) available (Some c)) = 0 \<longleftrightarrow> stock_header data available"
  by (rule parse_accepts)

lemma adts_split: "(n::nat) div 2048 * 2048 + n div 8 mod 256 * 8 + n mod 8 = n"
proof -
  have "n div 2048 = n div 8 div 256" by (simp add: div_mult2_eq)
  then show ?thesis
    using div_mult_mod_eq [of "n div 8" 256] div_mult_mod_eq [of n 8] by linarith
qed

lemma parse_stock:
  assumes "stock_header data available"
  obtains c' where "e1_parse_stock_adts (Some data) available (Some c) = (Some c', 0)"
    and "unat (frame_size c') = adts_frame_size data"
    and "unat (buffer_fullness c') = adts_fullness data"
    and "mpeg_id c' = 1" and "object_type c' = 2" and "sample_rate c' = E1_AUDIO_SAMPLE_RATE"
    and "channels c' = 1" and "header_size c' = 7" and "raw_data_blocks c' = 0"
proof -
  from assms have ok: "snd (e1_parse_stock_adts (Some data) available (Some c)) = 0"
    using parse_accepts [of data available c] by simp
  obtain c1 r where r: "e1_parse_stock_adts (Some data) available (Some c) = (c1, r)"
    by (rule prod.exhaust)
  moreover from r have "c1 \<noteq> None"
    unfolding e1_parse_stock_adts_def Let_def by (auto split: if_split_asm)
  ultimately obtain c' where c': "e1_parse_stock_adts (Some data) available (Some c) = (Some c', 0)"
    using ok by auto
  define sz where "sz = push_bit 11 (ucast (data ! 3 AND 3) :: u32) OR
      push_bit 3 (ucast (data ! 4)) OR drop_bit 5 (ucast (data ! 5))"
  define fu where "fu = push_bit 6 (ucast (data ! 5 AND 31) :: u32) OR
      drop_bit 2 (ucast (data ! 6))"
  have "frame_size c' = sz \<and> buffer_fullness c' = fu \<and> mpeg_id c' = 1 \<and> object_type c' = 2 \<and>
      sample_rate c' = E1_AUDIO_SAMPLE_RATE \<and> channels c' = 1 \<and> header_size c' = 7 \<and>
      raw_data_blocks c' = 0"
    using c' unfolding e1_parse_stock_adts_def Let_def sz_def [symmetric] fu_def [symmetric]
    by (simp split: if_split_asm) (auto simp: sz_def fu_def)
  moreover have "unat sz = adts_frame_size data"
    unfolding sz_def adts_frame_size_def by (rule frame_size_value)
  moreover have "unat fu = adts_fullness data"
    unfolding fu_def adts_fullness_def by (rule fullness_value)
  ultimately have "unat (frame_size c') = adts_frame_size data \<and>
      unat (buffer_fullness c') = adts_fullness data \<and> mpeg_id c' = 1 \<and> object_type c' = 2 \<and>
      sample_rate c' = E1_AUDIO_SAMPLE_RATE \<and> channels c' = 1 \<and> header_size c' = 7 \<and>
      raw_data_blocks c' = 0" by simp
  with c' that show ?thesis by blast
qed

lemma unat_byte: "n < 256 \<Longrightarrow> unat (word_of_nat n :: u8) = n"
  by (simp add: unsigned_of_nat take_bit_eq_mod)

text \<open>The header an encoder writes for a stock frame.\<close>

definition adts_header :: "nat \<Rightarrow> nat \<Rightarrow> u8 list" where
  "adts_header n fullness = map word_of_nat
     [255, 249, 96, 64 + n div 2048, n div 8 mod 256, n mod 8 * 32 + fullness div 64,
      fullness mod 64 * 4]"

text \<open>Round trip: a header written for any frame size that fits the 13-bit field and the
  buffer, and any 11-bit fullness, is accepted and decodes to exactly that size and fullness.\<close>

theorem adts_roundtrip:
  assumes "7 < n" and "n < 8192" and "fullness < 2048" and "n \<le> available"
  shows "\<exists>c'. e1_parse_stock_adts (Some (adts_header n fullness @ payload)) available (Some c) =
    (Some c', 0) \<and> unat (frame_size c') = n \<and> unat (buffer_fullness c') = fullness"
proof -
  let ?d = "adts_header n fullness @ payload"
  have b3: "unat (?d ! 3) = 64 + n div 2048" and b4: "unat (?d ! 4) = n div 8 mod 256"
    and b5: "unat (?d ! 5) = n mod 8 * 32 + fullness div 64"
    and b6: "unat (?d ! 6) = fullness mod 64 * 4"
    using assms unat_byte [of "64 + n div 2048"] unat_byte [of "n div 8 mod 256"]
      unat_byte [of "n mod 8 * 32 + fullness div 64"] unat_byte [of "fullness mod 64 * 4"]
    by (simp_all add: adts_header_def)
  have "n div 2048 < 4" using assms(2) by (simp add: div_less_iff_less_mult)
  then have mod4: "(64 + n div 2048) mod 4 = n div 2048" by (simp add: mod_add_eq [symmetric])
  have "adts_frame_size ?d = n div 2048 * 2048 + n div 8 mod 256 * 8 + n mod 8"
    unfolding adts_frame_size_def b3 b4 b5 mod4 using assms by simp
  also have "\<dots> = n"
    by (metis (no_types) adts_split)
  finally have sz: "adts_frame_size ?d = n" .
  have full: "adts_fullness ?d = fullness"
    unfolding adts_fullness_def b5 b6 using assms by simp
  have "?d ! 6 AND 3 = 0"
    using b6 unat_and_mask [of "?d ! 6" 2] by (simp add: word_unat_eq_iff mask_eq_exp_minus_1)
  moreover have "?d ! 0 = 0xff" "?d ! 1 = 0xf9" "?d ! 2 = 96"
    by (simp_all add: adts_header_def)
  ultimately have "stock_header ?d available"
    unfolding stock_header_def sz using assms b3 by simp
  from parse_stock [OF this, of c] sz full show ?thesis by metis
qed

lemma adts_roundtrip_witness:
  "\<exists>c'. e1_parse_stock_adts (Some (adts_header 300 1000 @ [])) 512
      (Some \<lparr>mpeg_id = 0, object_type = 0, sample_rate = 0, channels = 0, header_size = 0,
        frame_size = 0, buffer_fullness = 0, raw_data_blocks = 0\<rparr>) =
    (Some c', 0) \<and> unat (frame_size c') = 300 \<and> unat (buffer_fullness c') = 1000"
  by (rule adts_roundtrip) simp_all

end
