(* ===== verification/Seqlock.thy ===== *)
theory Seqlock
  imports E1_Prelude
begin

text \<open>
  Sequence locks. Both shared memories of the program (the audio ring and the frame buffer)
  are written under the same protocol: the writer makes a slot's sequence number odd, changes
  the slot, and makes the number even again; the reader copies the slot between two reads of
  the number and keeps the copy only if the two are equal and even. The locale states what
  the protocol demands of a writer's single steps, and the lemma \<open>stable\<close> is what a reader
  gets from it. Each shared memory is an instance, on its model of the code's stores.
\<close>

definition is_run :: "('s \<Rightarrow> 's \<Rightarrow> bool) \<Rightarrow> (nat \<Rightarrow> 's) \<Rightarrow> nat \<Rightarrow> bool" where
  "is_run step s n \<longleftrightarrow> (\<forall>i<n. step (s i) (s (Suc i)))"

lemma is_run_Suc: "is_run step s (Suc n) \<longleftrightarrow> is_run step s n \<and> step (s n) (s (Suc n))"
  by (auto simp: is_run_def less_Suc_eq)

lemma is_run_shift: "is_run step s n \<Longrightarrow> a \<le> n \<Longrightarrow> is_run step (\<lambda>i. s (a + i)) (n - a)"
  by (auto simp: is_run_def)

lemma is_run_inv:
  assumes "is_run step s n" and "I (s 0)" and "\<And>x y. I x \<Longrightarrow> step x y \<Longrightarrow> I y" and "i \<le> n"
  shows "I (s i)"
  using assms(4)
proof (induction i)
  case 0
  show ?case by (rule assms(2))
next
  case (Suc i)
  then have "I (s i)" and "step (s i) (s (Suc i))" using assms(1) by (simp_all add: is_run_def)
  then show ?case by (rule assms(3))
qed

text \<open>The masks the code uses on a sequence number.\<close>

lemma seq_and_one: "x AND 1 = 0 \<longleftrightarrow> even x" for x :: u32
  by (simp add: and_one_eq even_iff_mod_2_eq_zero)

lemma seq_and_one_neq: "x AND 1 \<noteq> 0 \<longleftrightarrow> odd x" for x :: u32
  by (simp add: seq_and_one)

lemma seq_mark_even: "even x \<Longrightarrow> (x AND NOT 1) + 1 = x + 1" for x :: u32
proof -
  assume "even x"
  then have "x AND NOT 1 = x"
    by (intro bit_word_eqI) (auto simp: bit_simps bit_0 even_bit_succ_iff)
  then show ?thesis by simp
qed

lemma seq_mark_odd: "odd x \<Longrightarrow> (x AND NOT 1) + 1 = x" for x :: u32
proof -
  assume "odd x"
  have "(x AND NOT 1) + 1 = (x AND NOT 1) OR 1"
    by (rule disjunctive_add) (auto simp: bit_simps)
  also have "\<dots> = x" using \<open>odd x\<close>
    by (intro bit_word_eqI) (auto simp: bit_simps bit_0)
  finally show ?thesis .
qed

lemma seq_mark_is_odd: "odd ((x AND NOT 1) + 1)" for x :: u32
proof (cases "even x")
  case True
  then show ?thesis by (simp only: seq_mark_even) simp
next
  case False
  from False seq_mark_odd [OF False] show ?thesis by metis
qed

lemma seq_Suc_even: "even (x + 1) \<longleftrightarrow> odd x" for x :: u32
  by simp

locale seqlock =
  fixes seqno :: "'s \<Rightarrow> u32" and payload :: "'s \<Rightarrow> 'd" and step :: "'s \<Rightarrow> 's \<Rightarrow> bool"
  assumes even_stable: "step s s' \<Longrightarrow> even (seqno s) \<Longrightarrow> payload s' = payload s"
    and seq_shape: "step s s' \<Longrightarrow> seqno s' = seqno s \<or> seqno s' = seqno s + 1"
begin

lemma seq_advance:
  "is_run step s n \<Longrightarrow> \<exists>k\<le>n. seqno (s n) = seqno (s 0) + word_of_nat k \<and>
    (k = 0 \<longrightarrow> (\<forall>i\<le>n. seqno (s i) = seqno (s 0)))"
proof (induction n)
  case 0
  then show ?case by simp
next
  case (Suc n)
  then have "is_run step s n" and st: "step (s n) (s (Suc n))" by (simp_all add: is_run_Suc)
  with Suc.IH obtain k where k: "k \<le> n" "seqno (s n) = seqno (s 0) + word_of_nat k"
      "k = 0 \<longrightarrow> (\<forall>i\<le>n. seqno (s i) = seqno (s 0))"
    by blast
  from seq_shape [OF st] show ?case
  proof
    assume same: "seqno (s (Suc n)) = seqno (s n)"
    have "k = 0 \<longrightarrow> (\<forall>i\<le>Suc n. seqno (s i) = seqno (s 0))"
    proof (intro impI allI)
      fix i assume "k = 0" and "i \<le> Suc n"
      show "seqno (s i) = seqno (s 0)"
      proof (cases "i \<le> n")
        case True
        with k(3) \<open>k = 0\<close> show ?thesis by blast
      next
        case False
        with \<open>i \<le> Suc n\<close> have "i = Suc n" by simp
        have "seqno (s n) = seqno (s 0)" using k(3) \<open>k = 0\<close> by blast
        with same \<open>i = Suc n\<close> show ?thesis by (metis trans)
      qed
    qed
    moreover have "seqno (s (Suc n)) = seqno (s 0) + word_of_nat k" by (rule trans [OF same k(2)])
    ultimately show ?thesis using le_SucI [OF k(1)] by blast
  next
    assume "seqno (s (Suc n)) = seqno (s n) + 1"
    with k(2) have "seqno (s (Suc n)) = seqno (s 0) + word_of_nat (Suc k)" by simp
    with k(1) show ?thesis by (intro exI [of _ "Suc k"]) simp
  qed
qed

text \<open>A run between two equal readings of the number, too short for it to wrap around, never
  changed the number.\<close>

lemma seq_constant:
  assumes "is_run step s n" and "n < 2 ^ 32" and "seqno (s n) = seqno (s 0)" and "i \<le> n"
  shows "seqno (s i) = seqno (s 0)"
proof -
  from seq_advance [OF assms(1)] obtain k where k: "k \<le> n"
      "seqno (s n) = seqno (s 0) + word_of_nat k"
      "k = 0 \<longrightarrow> (\<forall>i\<le>n. seqno (s i) = seqno (s 0))"
    by blast
  with assms(3) have "(word_of_nat k :: u32) = 0" by simp
  moreover have "k < 2 ^ 32" using k(1) assms(2) by simp
  then have "unat (word_of_nat k :: u32) = k"
    by (simp add: unsigned_of_nat take_bit_nat_eq_self)
  ultimately have "k = 0" by simp
  with k(3) assms(4) show ?thesis by blast
qed

lemma stable:
  assumes "is_run step s n" and "n < 2 ^ 32" and "seqno (s n) = seqno (s 0)"
    and "even (seqno (s 0))" and "i \<le> n"
  shows "payload (s i) = payload (s 0)"
  using assms(5)
proof (induction i)
  case (Suc i)
  then have "step (s i) (s (Suc i))" using assms(1) by (simp add: is_run_def)
  moreover have "seqno (s i) = seqno (s 0)"
    using Suc.prems by (intro seq_constant [OF assms(1-3)]) simp
  then have "even (seqno (s i))" using assms(4) by metis
  ultimately have "payload (s (Suc i)) = payload (s i)" by (rule even_stable)
  also have "\<dots> = payload (s 0)" using Suc by simp
  finally show ?case .
qed simp

end

end
