(* ===== verification/Audio_Ring.thy ===== *)
theory Audio_Ring
  imports Audio_Contract Seqlock
begin

text \<open>
  The shared audio ring of \<open>src/common/e1-audio-ring.h\<close> and its reader,
  \<open>e1_audio_ring_read_next\<close> of \<open>src/common/e1-audio-ring.c\<close>. The ring is in memory shared with
  a producer that runs concurrently, so the reader is not given a ring but a \<open>view\<close>: for each
  of its loads the state of the ring at that moment, one for every sample of the copy. A view
  taken while nothing changes is \<open>steady\<close>. The reader's own variables are values (only the
  ring can be \<open>NULL\<close>), and its one store to the ring, \<open>consumed_frame\<close>, is part of the result.
\<close>

section \<open>Data\<close>

definition E1_AUDIO_RING_MAGIC :: u32 where [e1_consts]: "E1_AUDIO_RING_MAGIC = 0x45314155"
definition E1_AUDIO_RING_VERSION :: u32 where [e1_consts]: "E1_AUDIO_RING_VERSION = 4"
definition E1_AUDIO_RING_SLOTS :: u32 where [e1_consts]: "E1_AUDIO_RING_SLOTS = 8"
definition E1_AUDIO_PREBUFFER_FRAMES :: u32 where [e1_consts]: "E1_AUDIO_PREBUFFER_FRAMES = 3"

record e1_audio_slot =
  slot_seq :: u32
  slot_number :: u32
  slot_samples :: "int list"

record e1_audio_ring =
  ring_magic :: u32
  ring_version :: u32
  ring_structure_size :: u32
  ring_sample_rate :: u32
  ring_samples_per_frame :: u32
  ring_slot_count :: u32
  published_frame :: u32
  consumed_frame :: u32
  producer_drops :: u32
  ring_mixed_frames :: u32
  nonzero_frames :: u32
  last_nonzero_frame :: u32
  peak_abs :: u32
  slot :: "e1_audio_slot list"

text \<open>\<open>sizeof\<close> the ring: thirteen words, and eight slots of two words and 1024 samples.\<close>

definition sizeof_audio_ring :: u32 where
  "sizeof_audio_ring = 13 * 4 + E1_AUDIO_RING_SLOTS * (2 * 4 + E1_AUDIO_PCM_BYTES_PER_FRAME)"

definition e1_audio_ring_valid :: "e1_audio_ring option \<Rightarrow> bool" where
  "e1_audio_ring_valid ring = (case ring of None \<Rightarrow> False | Some r \<Rightarrow>
     ring_magic r = E1_AUDIO_RING_MAGIC \<and> ring_version r = E1_AUDIO_RING_VERSION \<and>
     ring_structure_size r = sizeof_audio_ring \<and> ring_sample_rate r = E1_AUDIO_SAMPLE_RATE \<and>
     ring_samples_per_frame r = E1_AUDIO_SAMPLES_PER_FRAME \<and>
     ring_slot_count r = E1_AUDIO_RING_SLOTS)"

definition slot_index :: "u32 \<Rightarrow> nat" where
  "slot_index frame = unat ((frame - 1) AND (E1_AUDIO_RING_SLOTS - 1))"

definition silence :: "int list" where
  "silence = replicate (unat E1_AUDIO_SAMPLES_PER_FRAME) 0"

lemma length_silence [simp]: "length silence = 1024"
  by (simp add: silence_def e1_consts)

section \<open>The reader\<close>

record ring_view =
  at_published :: e1_audio_ring
  at_before :: e1_audio_ring
  at_number :: e1_audio_ring
  at_sample :: "nat \<Rightarrow> e1_audio_ring"
  at_after :: e1_audio_ring

definition steady :: "e1_audio_ring \<Rightarrow> ring_view" where
  "steady ring = \<lparr>at_published = ring, at_before = ring, at_number = ring,
     at_sample = (\<lambda>i. ring), at_after = ring\<rparr>"

record read_result =
  rr_last :: u32
  rr_output :: "int list"
  rr_dropped :: u32
  rr_consumed :: "u32 option"
  rr_status :: int

definition oldest_retained :: "u32 \<Rightarrow> u32" where
  "oldest_retained published =
     (if published > E1_AUDIO_RING_SLOTS then published - E1_AUDIO_RING_SLOTS + 1 else 1)"

text \<open>The target frame of an attempt and the drop counter after choosing it.\<close>

definition read_target :: "u32 \<Rightarrow> u32 \<Rightarrow> u32 \<Rightarrow> u32 \<times> u32" where
  "read_target published last_frame dropped =
     (let oldest = oldest_retained published
      in if last_frame = 0 then
           ((if published > E1_AUDIO_PREBUFFER_FRAMES
             then published - E1_AUDIO_PREBUFFER_FRAMES else 1), dropped)
         else
           (let target = last_frame + 1
            in if target < oldest then (oldest, dropped + (oldest - target))
               else (target, dropped)))"

definition copy_samples :: "ring_view \<Rightarrow> nat \<Rightarrow> int list" where
  "copy_samples v k =
     map (\<lambda>i. slot_samples (slot (at_sample v i) ! k) ! i) [0..<unat E1_AUDIO_SAMPLES_PER_FRAME]"

text \<open>The loop over the attempts, one view for each.\<close>

fun read_attempts :: "ring_view list \<Rightarrow> u32 \<Rightarrow> int list \<Rightarrow> u32 \<Rightarrow> read_result" where
  "read_attempts [] last_frame output dropped =
     \<lparr>rr_last = last_frame, rr_output = silence, rr_dropped = dropped, rr_consumed = None,
      rr_status = -1\<rparr>"
| "read_attempts (v # vs) last_frame output dropped =
     (let published = published_frame (at_published v)
      in if published = 0 \<or> published \<le> last_frame then
           \<lparr>rr_last = last_frame, rr_output = silence, rr_dropped = dropped, rr_consumed = None,
            rr_status = 0\<rparr>
         else
           (let (target, dropped) = read_target published last_frame dropped;
                k = slot_index target;
                sequence_before = slot_seq (slot (at_before v) ! k)
            in if sequence_before AND 1 \<noteq> 0 then read_attempts vs last_frame output dropped
               else
                 (let slot_frame = slot_number (slot (at_number v) ! k);
                      output = copy_samples v k;
                      sequence_after = slot_seq (slot (at_after v) ! k)
                  in if sequence_before = sequence_after \<and> sequence_after AND 1 = 0 \<and>
                        slot_frame = target then
                       \<lparr>rr_last = target, rr_output = output, rr_dropped = dropped,
                        rr_consumed = Some target, rr_status = 1\<rparr>
                     else read_attempts vs last_frame output dropped)))"

definition e1_audio_ring_read_next ::
    "(ring_view \<times> ring_view) option \<Rightarrow> u32 \<Rightarrow> int list \<Rightarrow> u32 \<Rightarrow> read_result" where
  "e1_audio_ring_read_next views last_frame output dropped_frames =
     (case views of
        None \<Rightarrow> \<lparr>rr_last = last_frame, rr_output = output, rr_dropped = dropped_frames,
                 rr_consumed = None, rr_status = -1\<rparr>
      | Some (v1, v2) \<Rightarrow> read_attempts [v1, v2] last_frame output dropped_frames)"

text \<open>The reader on a ring that nobody changes meanwhile: the ring after it, and its result.\<close>

definition read_quiet :: "e1_audio_ring \<Rightarrow> u32 \<Rightarrow> int list \<Rightarrow> u32 \<Rightarrow> e1_audio_ring \<times> read_result" where
  "read_quiet ring last_frame output dropped =
     (let r = e1_audio_ring_read_next (Some (steady ring, steady ring)) last_frame output dropped
      in (case rr_consumed r of None \<Rightarrow> ring | Some f \<Rightarrow> ring\<lparr>consumed_frame := f\<rparr>, r))"

section \<open>Which frame is read\<close>

lemma slot_index_less [simp]: "slot_index f < 8"
  using unat_and_mask [of "f - 1" 3] by (simp add: slot_index_def e1_consts mask_eq_exp_minus_1)

lemma slot_index_value: "f \<noteq> 0 \<Longrightarrow> slot_index f = (unat f - 1) mod 8"
proof -
  assume "f \<noteq> 0"
  then have "unat (f - 1) = unat f - 1" by (simp add: unat_minus_one)
  then show ?thesis
    using unat_and_mask [of "f - 1" 3] by (simp add: slot_index_def e1_consts mask_eq_exp_minus_1)
qed

lemma read_target_value:
  assumes "prev < published"
  shows "unat (fst (read_target published prev d)) =
    (if prev = 0 then (if 3 < unat published then unat published - 3 else 1)
     else max (unat prev + 1) (unat published - 7)) \<and>
    snd (read_target published prev d) =
      (if prev = 0 then d else d + word_of_nat (unat published - 7 - (unat prev + 1)))"
proof -
  have lt: "unat prev < unat published" using assms by (simp add: word_less_nat_alt)
  have suc: "unat (prev + 1) = Suc (unat prev)" by (rule unat_Suc_word [OF assms])
  show ?thesis
  proof (cases "prev = 0")
    case True
    then show ?thesis
      by (simp add: read_target_def Let_def e1_consts word_less_nat_alt unat_sub word_le_nat_alt)
  next
    case False
    then have pos: "0 < unat prev" by (simp add: unat_gt_0)
    have old: "unat (oldest_retained published) = max 1 (unat published - 7)"
    proof (cases "8 < published")
      case True
      then have gt: "8 < unat published" by (simp add: word_less_nat_alt)
      then have "unat (published - 8) = unat published - 8"
        by (simp add: unat_sub word_le_nat_alt)
      moreover have "published - 8 < published"
        using calculation gt by (simp add: word_less_nat_alt)
      then have "unat (published - 8 + 1) = Suc (unat (published - 8))" by (rule unat_Suc_word)
      ultimately show ?thesis using True gt by (simp add: oldest_retained_def e1_consts)
    next
      case False
      then show ?thesis by (simp add: oldest_retained_def e1_consts word_less_nat_alt)
    qed
    show ?thesis
    proof (cases "prev + 1 < oldest_retained published")
      case True
      then have lt2: "Suc (unat prev) < unat published - 7"
        using old suc by (simp add: word_less_nat_alt split: if_splits) 
      have "unat (oldest_retained published - (prev + 1)) =
          unat (oldest_retained published) - unat (prev + 1)"
        using True by (intro unat_sub) simp
      also have "\<dots> = unat published - 7 - (unat prev + 1)" using old suc lt2 by simp
      finally have "oldest_retained published - (prev + 1) =
          word_of_nat (unat published - 7 - (unat prev + 1))"
        by (rule word_eq_of_nat)
      with True False old lt2 show ?thesis by (simp add: read_target_def Let_def)
    next
      case ge: False
      then have "unat published - 7 \<le> Suc (unat prev)"
        using old suc by (simp add: word_less_nat_alt)
      with ge False suc show ?thesis by (simp add: read_target_def Let_def)
    qed
  qed
qed

end
