(* ===== verification/Audio_Producer.thy ===== *)
theory Audio_Producer
  imports Audio_Ring
begin

text \<open>
  The producer of the audio ring, \<open>publish_frame\<close> of \<open>src/platform/e1/i_sound_e1.c\<close>, twice:
  as the function that runs to its end, and as the sequence of its single stores to the
  shared ring, between which a concurrent reader may look. The ring is then an instance of
  the sequence lock, and a frame the reader accepts is a frame the producer published.
\<close>

section \<open>The producer as a function\<close>

record audio_producer =
  ap_ring :: "e1_audio_ring option"
  ap_frame_number :: u32
  ap_mixed_frames :: u32

definition upd_slot :: "nat \<Rightarrow> (e1_audio_slot \<Rightarrow> e1_audio_slot) \<Rightarrow> e1_audio_ring \<Rightarrow> e1_audio_ring" where
  "upd_slot k f ring = ring\<lparr>slot := (slot ring)[k := f (slot ring ! k)]\<rparr>"

definition sample_magnitude :: "int \<Rightarrow> u32" where
  "sample_magnitude v = word_of_int (if v < 0 then - v else v)"

text \<open>The loop over the samples: whether one is non-zero, and the largest magnitude.\<close>

fun scan_samples :: "int list \<Rightarrow> bool \<Rightarrow> u32 \<Rightarrow> bool \<times> u32" where
  "scan_samples [] nonzero peak = (nonzero, peak)"
| "scan_samples (v # vs) nonzero peak =
     (let magnitude = sample_magnitude v
      in scan_samples vs (nonzero \<or> magnitude \<noteq> 0) (if magnitude > peak then magnitude else peak))"

definition count_frame :: "u32 \<Rightarrow> u32 \<Rightarrow> int list \<Rightarrow> e1_audio_ring \<Rightarrow> e1_audio_ring" where
  "count_frame number mixed samples ring =
     (let (nonzero, peak) = scan_samples samples False 0;
          ring = ring\<lparr>ring_mixed_frames := mixed\<rparr>;
          ring = (if nonzero then ring\<lparr>nonzero_frames := nonzero_frames ring + 1,
                                       last_nonzero_frame := number\<rparr> else ring);
          ring = (if peak > peak_abs ring then ring\<lparr>peak_abs := peak\<rparr> else ring)
      in ring\<lparr>published_frame := number\<rparr>)"

definition publish_frame :: "audio_producer \<Rightarrow> int list \<Rightarrow> audio_producer" where
  "publish_frame p samples =
     (case ap_ring p of None \<Rightarrow> p
      | Some ring \<Rightarrow>
        (let number = ap_frame_number p + 1;
             target = slot_index number;
             sequence = (slot_seq (slot ring ! target) AND NOT 1) + 1;
             ring = upd_slot target (\<lambda>s. s\<lparr>slot_seq := sequence\<rparr>) ring;
             ring = upd_slot target (\<lambda>s. s\<lparr>slot_number := number\<rparr>) ring;
             ring = upd_slot target (\<lambda>s. s\<lparr>slot_samples := samples\<rparr>) ring;
             ring = upd_slot target (\<lambda>s. s\<lparr>slot_seq := sequence + 1\<rparr>) ring;
             mixed = ap_mixed_frames p + 1;
             ring = count_frame number mixed samples ring
         in p\<lparr>ap_ring := Some ring, ap_frame_number := number, ap_mixed_frames := mixed\<rparr>))"

section \<open>The producer store by store\<close>

text \<open>
  Where the producer is inside \<open>publish_frame\<close>. The copy may store the samples in any order,
  so its position is the set of the indices stored so far. \<open>aw_frames\<close> is not in the program:
  it records which samples were published under each frame number.
\<close>

datatype audio_pc = AP_Idle | AP_Number u32 | AP_Copy u32 "nat set" | AP_Count

record audio_world =
  aw_ring :: e1_audio_ring
  aw_number :: u32
  aw_mixed :: u32
  aw_pc :: audio_pc
  aw_samples :: "int list"
  aw_frames :: "u32 \<Rightarrow> int list"

definition aw_slot :: "audio_world \<Rightarrow> nat" where
  "aw_slot w = slot_index (aw_number w)"

definition begin_mark :: "audio_world \<Rightarrow> u32" where
  "begin_mark w = (slot_seq (slot (aw_ring w) ! slot_index (aw_number w + 1)) AND NOT 1) + 1"

text \<open>The last rule is the environment: the reader's own store.\<close>

inductive audio_step :: "audio_world \<Rightarrow> audio_world \<Rightarrow> bool" where
  begin_frame: "aw_pc w = AP_Idle \<Longrightarrow> length samples = 1024 \<Longrightarrow>
    audio_step w (w\<lparr>aw_number := aw_number w + 1, aw_samples := samples,
      aw_frames := (aw_frames w)(aw_number w + 1 := samples),
      aw_ring := upd_slot (slot_index (aw_number w + 1)) (\<lambda>s. s\<lparr>slot_seq := begin_mark w\<rparr>) (aw_ring w),
      aw_pc := AP_Number (begin_mark w)\<rparr>)"
| number_slot: "aw_pc w = AP_Number q \<Longrightarrow>
    audio_step w (w\<lparr>aw_pc := AP_Copy q {},
      aw_ring := upd_slot (aw_slot w) (\<lambda>s. s\<lparr>slot_number := aw_number w\<rparr>) (aw_ring w)\<rparr>)"
| copy_sample: "aw_pc w = AP_Copy q D \<Longrightarrow> i < 1024 \<Longrightarrow> i \<notin> D \<Longrightarrow>
    audio_step w (w\<lparr>aw_pc := AP_Copy q (insert i D),
      aw_ring := upd_slot (aw_slot w)
        (\<lambda>s. s\<lparr>slot_samples := (slot_samples s)[i := aw_samples w ! i]\<rparr>) (aw_ring w)\<rparr>)"
| close_slot: "aw_pc w = AP_Copy q {..<1024} \<Longrightarrow>
    audio_step w (w\<lparr>aw_pc := AP_Count,
      aw_ring := upd_slot (aw_slot w) (\<lambda>s. s\<lparr>slot_seq := q + 1\<rparr>) (aw_ring w)\<rparr>)"
| publish: "aw_pc w = AP_Count \<Longrightarrow>
    audio_step w (w\<lparr>aw_pc := AP_Idle, aw_mixed := aw_mixed w + 1,
      aw_ring := count_frame (aw_number w) (aw_mixed w + 1) (aw_samples w) (aw_ring w)\<rparr>)"
| consume: "audio_step w (w\<lparr>aw_ring := (aw_ring w)\<lparr>consumed_frame := f\<rparr>\<rparr>)"

inductive_cases audio_stepE: "audio_step w w'"

lemma upd_slot_simps [simp]:
  "length (slot (upd_slot k f r)) = length (slot r)"
  "k < length (slot r) \<Longrightarrow> slot (upd_slot k f r) ! k = f (slot r ! k)"
  "j \<noteq> k \<Longrightarrow> slot (upd_slot k f r) ! j = slot r ! j"
  "published_frame (upd_slot k f r) = published_frame r"
  by (simp_all add: upd_slot_def)

lemma slot_count_frame [simp]: "slot (count_frame n m s r) = slot r"
  by (simp add: count_frame_def Let_def split: prod.splits)

lemma published_count_frame [simp]: "published_frame (count_frame n m s r) = n"
  by (simp add: count_frame_def Let_def split: prod.splits)

text \<open>What holds of slot \<open>k\<close> while the producer is not writing it: a closed slot that was ever
  written holds exactly the frame its number names. Slot \<open>k\<close> only holds numbers of its own.\<close>

definition slot_good :: "audio_world \<Rightarrow> nat \<Rightarrow> bool" where
  "slot_good w k \<longleftrightarrow> length (slot_samples (slot (aw_ring w) ! k)) = 1024 \<and>
     (slot_number (slot (aw_ring w) ! k) = 0 \<or> slot_index (slot_number (slot (aw_ring w) ! k)) = k) \<and>
     (even (slot_seq (slot (aw_ring w) ! k)) \<and> slot_number (slot (aw_ring w) ! k) \<noteq> 0 \<longrightarrow>
      slot_samples (slot (aw_ring w) ! k) = aw_frames w (slot_number (slot (aw_ring w) ! k)))"

definition pc_good :: "audio_world \<Rightarrow> bool" where
  "pc_good w \<longleftrightarrow>
     (case aw_pc w of
        AP_Idle \<Rightarrow> True
      | AP_Number q \<Rightarrow> odd q \<and> slot_seq (slot (aw_ring w) ! aw_slot w) = q \<and>
          length (aw_samples w) = 1024 \<and> aw_frames w (aw_number w) = aw_samples w
      | AP_Copy q D \<Rightarrow> odd q \<and> slot_seq (slot (aw_ring w) ! aw_slot w) = q \<and>
          length (aw_samples w) = 1024 \<and> aw_frames w (aw_number w) = aw_samples w \<and>
          slot_number (slot (aw_ring w) ! aw_slot w) = aw_number w \<and> D \<subseteq> {..<1024} \<and>
          (\<forall>i\<in>D. slot_samples (slot (aw_ring w) ! aw_slot w) ! i = aw_samples w ! i)
      | AP_Count \<Rightarrow> True)"

definition audio_inv :: "audio_world \<Rightarrow> bool" where
  "audio_inv w \<longleftrightarrow> length (slot (aw_ring w)) = 8 \<and> (\<forall>k<8. slot_good w k) \<and> pc_good w"

lemma begin_mark_odd [simp]: "odd (begin_mark w)"
  unfolding begin_mark_def by (rule seq_mark_is_odd)

lemma aw_slot_less [simp]: "aw_slot w < 8"
  by (simp add: aw_slot_def)

lemma audio_inv_begin:
  assumes inv: "audio_inv w" and "aw_pc w = AP_Idle" and len: "length samples = 1024"
  shows "audio_inv (w\<lparr>aw_number := aw_number w + 1, aw_samples := samples,
      aw_frames := (aw_frames w)(aw_number w + 1 := samples),
      aw_ring := upd_slot (slot_index (aw_number w + 1)) (\<lambda>s. s\<lparr>slot_seq := begin_mark w\<rparr>) (aw_ring w),
      aw_pc := AP_Number (begin_mark w)\<rparr>)"
    (is "audio_inv ?w")
proof -
  let ?c = "slot_index (aw_number w + 1)"
  from inv have eight: "length (slot (aw_ring w)) = 8" and good: "\<And>k. k < 8 \<Longrightarrow> slot_good w k"
    by (simp_all add: audio_inv_def)
  have "slot_good ?w k" if k: "k < 8" for k
  proof (cases "k = ?c")
    case True
    with good [OF k] k eight show ?thesis by (simp add: slot_good_def)
  next
    case False
    with good [OF k] k eight show ?thesis by (auto simp: slot_good_def)
  qed
  moreover have "pc_good ?w" using eight len by (simp add: pc_good_def aw_slot_def)
  ultimately show ?thesis using eight by (simp add: audio_inv_def)
qed

lemma audio_inv_step: "audio_inv w \<Longrightarrow> audio_step w w' \<Longrightarrow> audio_inv w'"
proof -
  assume inv: "audio_inv w" and st: "audio_step w w'"
  from inv have eight: "length (slot (aw_ring w)) = 8" and good: "\<And>k. k < 8 \<Longrightarrow> slot_good w k"
    and pc: "pc_good w"
    by (simp_all add: audio_inv_def)
  have idx: "k < 8 \<Longrightarrow> k < length (slot (aw_ring w))" for k using eight by simp
  from st show ?thesis
  proof cases
    case (begin_frame samples)
    with inv show ?thesis using audio_inv_begin by simp
  next
    case (number_slot q)
    have "slot_good w' k" if k: "k < 8" for k
      using number_slot pc good [OF k] idx [OF k]
      by (cases "k = aw_slot w") (auto simp: slot_good_def pc_good_def aw_slot_def)
    with number_slot pc eight show ?thesis
      by (auto simp: audio_inv_def pc_good_def aw_slot_def)
  next
    case (copy_sample q D i)
    have "slot_good w' k" if k: "k < 8" for k
      using copy_sample pc good [OF k] idx [OF k]
      by (cases "k = aw_slot w") (auto simp: slot_good_def pc_good_def aw_slot_def)
    moreover have "pc_good w'"
      using copy_sample pc eight good [of "aw_slot w"]
      by (auto simp: pc_good_def aw_slot_def slot_good_def nth_list_update)
    ultimately show ?thesis using copy_sample eight by (simp add: audio_inv_def)
  next
    case (close_slot q)
    have all: "slot_samples (slot (aw_ring w) ! aw_slot w) = aw_samples w"
      using close_slot pc good [of "aw_slot w"]
      by (intro nth_equalityI) (auto simp: pc_good_def slot_good_def)
    have "slot_good w' k" if k: "k < 8" for k
      using close_slot pc good [OF k] idx [OF k] all
      by (cases "k = aw_slot w") (auto simp: slot_good_def pc_good_def aw_slot_def)
    with close_slot eight show ?thesis by (simp add: audio_inv_def pc_good_def)
  next
    case publish
    with good eight show ?thesis by (simp add: audio_inv_def pc_good_def slot_good_def)
  next
    case (consume f)
    with good eight pc show ?thesis
      by (simp add: audio_inv_def pc_good_def slot_good_def aw_slot_def split: audio_pc.splits)
  qed
qed

section \<open>The stores make the function\<close>

lemma upd_slot_fuse:
  "k < length (slot r) \<Longrightarrow> upd_slot k g (upd_slot k f r) = upd_slot k (\<lambda>s. g (f s)) r"
  by (simp add: upd_slot_def)

lemma copy_run:
  assumes "aw_pc w = AP_Copy q {..<n}" and "n \<le> 1024" and "length (aw_samples w) = 1024"
    and "length (slot (aw_ring w)) = 8"
    and "length (slot_samples (slot (aw_ring w) ! aw_slot w)) = 1024"
  shows "audio_step\<^sup>*\<^sup>* w (w\<lparr>aw_pc := AP_Copy q {..<1024}, aw_ring := upd_slot (aw_slot w)
    (\<lambda>s. s\<lparr>slot_samples := take n (slot_samples s) @ drop n (aw_samples w)\<rparr>) (aw_ring w)\<rparr>)"
  using assms
proof (induction "1024 - n" arbitrary: n w)
  case 0
  then have "n = 1024" by simp
  let ?r = "aw_ring w"
  have "upd_slot (aw_slot w) (\<lambda>s. s\<lparr>slot_samples := take n (slot_samples s) @ drop n (aw_samples w)\<rparr>) ?r
      = ?r"
    using 0 \<open>n = 1024\<close> by (simp add: upd_slot_def)
  moreover have "w\<lparr>aw_pc := AP_Copy q {..<1024}, aw_ring := ?r\<rparr> = w"
    using 0(2) \<open>n = 1024\<close> by (cases w) simp
  ultimately show ?case using \<open>n = 1024\<close> by simp
next
  case (Suc m)
  then have n: "n < 1024" by simp
  let ?c = "aw_slot w" and ?S = "slot_samples (slot (aw_ring w) ! aw_slot w)"
  let ?w1 = "w\<lparr>aw_pc := AP_Copy q (insert n {..<n}), aw_ring := upd_slot ?c
      (\<lambda>s. s\<lparr>slot_samples := (slot_samples s)[n := aw_samples w ! n]\<rparr>) (aw_ring w)\<rparr>"
  have st: "audio_step w ?w1" using Suc.prems n by (intro copy_sample) simp_all
  have c: "?c < length (slot (aw_ring w))" using Suc.prems by simp
  have cut: "take (Suc n) (?S[n := aw_samples w ! n]) @ drop (Suc n) (aw_samples w) =
      take n ?S @ drop n (aw_samples w)"
    using Suc.prems n by (simp add: take_Suc_conv_app_nth Cons_nth_drop_Suc)
  have "audio_step\<^sup>*\<^sup>* ?w1 (?w1\<lparr>aw_pc := AP_Copy q {..<1024}, aw_ring := upd_slot (aw_slot ?w1)
      (\<lambda>s. s\<lparr>slot_samples := take (Suc n) (slot_samples s) @ drop (Suc n) (aw_samples ?w1)\<rparr>)
      (aw_ring ?w1)\<rparr>)"
    using Suc.prems Suc.hyps(2) n c
    by (intro Suc.hyps(1)) (auto simp: aw_slot_def lessThan_Suc)
  moreover have "upd_slot ?c
      (\<lambda>s. s\<lparr>slot_samples := take (Suc n) (slot_samples s) @ drop (Suc n) (aw_samples w)\<rparr>)
      (upd_slot ?c (\<lambda>s. s\<lparr>slot_samples := (slot_samples s)[n := aw_samples w ! n]\<rparr>) (aw_ring w)) =
      upd_slot ?c (\<lambda>s. s\<lparr>slot_samples := take n (slot_samples s) @ drop n (aw_samples w)\<rparr>) (aw_ring w)"
    using c cut by (simp add: upd_slot_def)
  ultimately show ?case using st by (simp add: aw_slot_def converse_rtranclp_into_rtranclp)
qed

definition world_producer :: "audio_world \<Rightarrow> audio_producer" where
  "world_producer w = \<lparr>ap_ring = Some (aw_ring w), ap_frame_number = aw_number w,
     ap_mixed_frames = aw_mixed w\<rparr>"


section \<open>Reading while the producer runs\<close>

definition audio_move :: "audio_world \<Rightarrow> audio_world \<Rightarrow> bool" where
  "audio_move w w' \<longleftrightarrow> audio_inv w \<and> audio_step w w'"

definition ring_seq :: "nat \<Rightarrow> audio_world \<Rightarrow> u32" where
  "ring_seq k w = slot_seq (slot (aw_ring w) ! k)"

definition ring_payload :: "nat \<Rightarrow> audio_world \<Rightarrow> u32 \<times> int list" where
  "ring_payload k w = (slot_number (slot (aw_ring w) ! k), slot_samples (slot (aw_ring w) ! k))"

lemma begin_mark_shape:
  "begin_mark w = slot_seq (slot (aw_ring w) ! slot_index (aw_number w + 1)) \<or>
   begin_mark w = slot_seq (slot (aw_ring w) ! slot_index (aw_number w + 1)) + 1"
  unfolding begin_mark_def
  using seq_mark_even [of "slot_seq (slot (aw_ring w) ! slot_index (aw_number w + 1))"]
    seq_mark_odd [of "slot_seq (slot (aw_ring w) ! slot_index (aw_number w + 1))"] by blast

lemma audio_move_shape:
  assumes "audio_move w w'"
  shows "(even (ring_seq k w) \<longrightarrow> ring_payload k w' = ring_payload k w) \<and>
    (ring_seq k w' = ring_seq k w \<or> ring_seq k w' = ring_seq k w + 1)"
proof -
  from assms have inv: "audio_inv w" and st: "audio_step w w'" by (simp_all add: audio_move_def)
  from inv have eight: "length (slot (aw_ring w)) = 8" and pc: "pc_good w"
    by (simp_all add: audio_inv_def)
  note defs = ring_seq_def ring_payload_def
  from st show ?thesis
  proof cases
    case (begin_frame samples)
    with eight begin_mark_shape [of w] show ?thesis
      by (cases "k = slot_index (aw_number w + 1)") (auto simp: defs)
  next
    case (number_slot q)
    with eight pc show ?thesis
      by (cases "k = aw_slot w") (auto simp: defs pc_good_def aw_slot_def)
  next
    case (copy_sample q D i)
    with eight pc show ?thesis
      by (cases "k = aw_slot w") (auto simp: defs pc_good_def aw_slot_def)
  next
    case (close_slot q)
    with eight pc show ?thesis
      by (cases "k = aw_slot w") (auto simp: defs pc_good_def aw_slot_def)
  qed (auto simp: defs)
qed

interpretation audio_slot: seqlock "ring_seq k" "ring_payload k" audio_move for k
  by unfold_locales (use audio_move_shape in \<open>blast+\<close>)

text \<open>A view taken along a run: its loads happen in program order, the loads of the copy in any
  order between the two reads of the sequence number.\<close>

definition view_taken :: "ring_view \<Rightarrow> (nat \<Rightarrow> audio_world) \<Rightarrow> nat \<Rightarrow> bool" where
  "view_taken v s n \<longleftrightarrow> (\<exists>t0 t1 tn tc t2.
     t0 \<le> t1 \<and> t1 \<le> tn \<and> tn \<le> t2 \<and> (\<forall>i. t1 \<le> tc i \<and> tc i \<le> t2) \<and> t2 \<le> n \<and>
     at_published v = aw_ring (s t0) \<and> at_before v = aw_ring (s t1) \<and>
     at_number v = aw_ring (s tn) \<and> (\<forall>i. at_sample v i = aw_ring (s (tc i))) \<and>
     at_after v = aw_ring (s t2))"

lemma audio_run_moves: "is_run audio_step s n \<Longrightarrow> audio_inv (s 0) \<Longrightarrow> is_run audio_move s n"
  using is_run_inv [of audio_step s n audio_inv] audio_inv_step
  by (simp add: is_run_def audio_move_def)

text \<open>What one attempt copied, if the two sequence numbers agree.\<close>

lemma copy_untorn:
  assumes run: "is_run audio_step s n" and inv: "audio_inv (s 0)" and n: "n < 2 ^ 32"
    and view: "view_taken v s n" and k: "k < 8"
    and seq: "slot_seq (slot (at_before v) ! k) = slot_seq (slot (at_after v) ! k)"
    and ev: "even (slot_seq (slot (at_after v) ! k))"
    and num: "slot_number (slot (at_number v) ! k) = f" and "f \<noteq> 0"
  shows "\<exists>t\<le>n. copy_samples v k = aw_frames (s t) f"
proof -
  from view obtain t0 t1 tn tc t2 where t: "t1 \<le> tn" "tn \<le> t2" "\<And>i. t1 \<le> tc i \<and> tc i \<le> t2"
      "t2 \<le> n" and v: "at_before v = aw_ring (s t1)" "at_number v = aw_ring (s tn)"
      "\<And>i. at_sample v i = aw_ring (s (tc i))" "at_after v = aw_ring (s t2)"
    unfolding view_taken_def by blast
  let ?s = "\<lambda>i. s (t1 + i)" and ?n = "t2 - t1"
  have t12: "t1 \<le> t2" using t by simp
  have "is_run audio_step ?s (n - t1)" using is_run_shift [OF run] t12 t(4) by simp
  then have run2: "is_run audio_step ?s ?n" using t(4) by (auto simp: is_run_def)
  have inv1: "audio_inv (s t1)"
    using is_run_inv [OF run, of audio_inv t1] inv audio_inv_step t12 t(4) by simp
  then have moves: "is_run audio_move ?s ?n" using audio_run_moves [OF run2] by simp
  have n2: "?n < 2 ^ 32" using n t(4) by linarith
  have same: "ring_seq k (?s ?n) = ring_seq k (?s 0)"
    using seq v t12 by (simp add: ring_seq_def)
  have ev0: "even (ring_seq k (?s 0))" using ev seq v by (simp add: ring_seq_def)
  have stable: "ring_payload k (s j) = ring_payload k (s t1)" if "t1 \<le> j" "j \<le> t2" for j
    using audio_slot.stable [OF moves n2 same ev0, of "j - t1"] that by simp
  have "slot_good (s t1) k" using inv1 k by (simp add: audio_inv_def)
  moreover have "slot_number (slot (aw_ring (s t1)) ! k) = f"
    using stable [OF t(1,2)] num v by (simp add: ring_payload_def)
  ultimately have one: "slot_samples (slot (aw_ring (s t1)) ! k) = aw_frames (s t1) f"
      and len: "length (slot_samples (slot (aw_ring (s t1)) ! k)) = 1024"
    using ev0 \<open>f \<noteq> 0\<close> by (auto simp: slot_good_def ring_seq_def)
  have "slot_samples (slot (at_sample v i) ! k) = aw_frames (s t1) f" for i
    using stable [of "tc i"] t(3) one v(3) by (simp add: ring_payload_def)
  then have "copy_samples v k = aw_frames (s t1) f"
    using one len by (intro nth_equalityI) (simp_all add: copy_samples_def e1_consts)
  then show ?thesis using t12 t(4) by (intro exI [of _ t1]) simp
qed

lemma read_target_nonzero:
  "prev < published \<Longrightarrow> fst (read_target published prev d) \<noteq> 0 \<and>
   (prev < fst (read_target published prev d))"
proof -
  assume lt: "prev < published"
  have "1 \<le> unat (fst (read_target published prev d))"
    and "unat prev < unat (fst (read_target published prev d))"
    using read_target_value [OF lt, of d] lt by (auto simp: word_less_nat_alt)
  then show ?thesis by (auto simp: word_less_nat_alt)
qed

lemma attempts_untorn:
  assumes run: "is_run audio_step s n" and inv: "audio_inv (s 0)" and n: "n < 2 ^ 32"
    and views: "\<forall>v\<in>set vs. view_taken v s n"
    and ok: "rr_status (read_attempts vs prev out d) = 1"
  shows "prev < rr_last (read_attempts vs prev out d) \<and>
    rr_consumed (read_attempts vs prev out d) = Some (rr_last (read_attempts vs prev out d)) \<and>
    (\<exists>t\<le>n. rr_output (read_attempts vs prev out d) =
       aw_frames (s t) (rr_last (read_attempts vs prev out d)))"
  using views ok
proof (induction vs arbitrary: out d)
  case Nil
  then show ?case by simp
next
  case (Cons v vs)
  let ?p = "published_frame (at_published v)"
  obtain target d' where t: "read_target ?p prev d = (target, d')" by fastforce
  let ?k = "slot_index target"
  let ?b = "slot_seq (slot (at_before v) ! ?k)" and ?a = "slot_seq (slot (at_after v) ! ?k)"
  let ?good = "?b = ?a \<and> ?a AND 1 = 0 \<and> slot_number (slot (at_number v) ! ?k) = target"
  have stop: "\<not> (?p = 0 \<or> ?p \<le> prev)" using Cons.prems(2) by (auto split: if_splits)
  have rest: "\<forall>v\<in>set vs. view_taken v s n" and view: "view_taken v s n" using Cons.prems(1) by simp_all
  consider (again) "?b AND 1 \<noteq> 0" | (torn) "?b AND 1 = 0" "\<not> ?good" | (whole) "?b AND 1 = 0" "?good"
    by blast
  then show ?case
  proof cases
    case again
    with stop t have "read_attempts (v # vs) prev out d = read_attempts vs prev out d'"
      by (simp add: Let_def)
    with Cons.IH [OF rest] Cons.prems(2) show ?thesis by simp
  next
    case torn
    with stop t have "read_attempts (v # vs) prev out d = read_attempts vs prev (copy_samples v ?k) d'"
      by (auto simp: Let_def)
    with Cons.IH [OF rest] Cons.prems(2) show ?thesis by simp
  next
    case whole
    with stop t have eq: "read_attempts (v # vs) prev out d =
        \<lparr>rr_last = target, rr_output = copy_samples v ?k, rr_dropped = d',
         rr_consumed = Some target, rr_status = 1\<rparr>"
      by (simp add: Let_def)
    from stop have "prev < ?p" by (simp add: not_le)
    from read_target_nonzero [OF this, of d] t have "target \<noteq> 0" "prev < target" by simp_all
    moreover have "even ?a" using whole by (simp add: seq_and_one)
    ultimately have "\<exists>t\<le>n. copy_samples v ?k = aw_frames (s t) target"
      using whole by (intro copy_untorn [OF run inv n view]) simp_all
    with eq \<open>prev < target\<close> show ?thesis by simp
  qed
qed

text \<open>C1. No torn audio: in every execution of the producer's single stores, with the reader's
  loads anywhere between them in program order and the samples copied in any order, a read
  that returns 1 delivers exactly the 1024 samples that were published under the frame number
  it reports, that number is later than the last one delivered, and it is acknowledged to the
  producer. (Fewer than 2^32 stores may happen meanwhile, so that no sequence number can come
  round to the value it had.)\<close>

theorem audio_read_untorn:
  assumes "is_run audio_step s n" and "audio_inv (s 0)" and "n < 2 ^ 32"
    and "view_taken v1 s n" and "view_taken v2 s n"
    and "r = e1_audio_ring_read_next (Some (v1, v2)) prev out d" and "rr_status r = 1"
  shows "prev < rr_last r \<and> rr_consumed r = Some (rr_last r) \<and>
    (\<exists>t\<le>n. rr_output r = aw_frames (s t) (rr_last r))"
  using attempts_untorn [OF assms(1-3), of "[v1, v2]" prev out d] assms(4-7)
  by (simp add: e1_audio_ring_read_next_def)

definition empty_slot :: e1_audio_slot where
  "empty_slot = \<lparr>slot_seq = 0, slot_number = 0, slot_samples = replicate 1024 0\<rparr>"

definition sample_ring :: e1_audio_ring where
  "sample_ring = \<lparr>ring_magic = E1_AUDIO_RING_MAGIC, ring_version = E1_AUDIO_RING_VERSION,
     ring_structure_size = sizeof_audio_ring, ring_sample_rate = E1_AUDIO_SAMPLE_RATE,
     ring_samples_per_frame = E1_AUDIO_SAMPLES_PER_FRAME, ring_slot_count = E1_AUDIO_RING_SLOTS,
     published_frame = 1, consumed_frame = 0, producer_drops = 0, ring_mixed_frames = 1,
     nonzero_frames = 1, last_nonzero_frame = 1, peak_abs = 5,
     slot = \<lparr>slot_seq = 2, slot_number = 1, slot_samples = replicate 1024 5\<rparr> #
       replicate 7 empty_slot\<rparr>"

definition sample_world :: audio_world where
  "sample_world = \<lparr>aw_ring = sample_ring, aw_number = 1, aw_mixed = 1, aw_pc = AP_Idle,
     aw_samples = replicate 1024 5, aw_frames = (\<lambda>f. replicate 1024 5)\<rparr>"

lemma sample_world_inv: "audio_inv sample_world"
proof -
  have "slot_good sample_world k" if "k < 8" for k
    using that
    by (cases k) (simp_all add: slot_good_def sample_world_def sample_ring_def empty_slot_def
        slot_index_def)
  then show ?thesis
    by (simp add: audio_inv_def pc_good_def sample_world_def sample_ring_def)
qed


lemma steady_taken: "view_taken (steady (aw_ring (s 0))) s n"
  unfolding view_taken_def steady_def by (intro exI [of _ 0] exI [of _ "\<lambda>i. 0"]) simp

lemma audio_read_untorn_witness:
  "rr_status (snd (read_quiet sample_ring 0 silence 0)) = 1 \<and>
   rr_output (snd (read_quiet sample_ring 0 silence 0)) = replicate 1024 5"
proof -
  let ?s = "\<lambda>i :: nat. sample_world"
  let ?r = "e1_audio_ring_read_next (Some (steady sample_ring, steady sample_ring)) 0 silence 0"
  have "rr_status ?r = 1"
    by (simp add: e1_audio_ring_read_next_def steady_def sample_ring_def read_target_def
        slot_index_def e1_consts oldest_retained_def Let_def)
  moreover have "is_run audio_step ?s 0" by (simp add: is_run_def)
  moreover have "audio_inv (?s 0)" by (rule sample_world_inv)
  moreover have "view_taken (steady sample_ring) ?s 0"
    using steady_taken [of ?s 0] by (simp add: sample_world_def)
  ultimately have "\<exists>t\<le>0. rr_output ?r = aw_frames (?s t) (rr_last ?r)"
    using audio_read_untorn [of ?s 0 "steady sample_ring" "steady sample_ring" ?r 0 silence 0]
    by simp
  with \<open>rr_status ?r = 1\<close> show ?thesis
    by (simp add: read_quiet_def Let_def sample_world_def)
qed

end
