(* ===== verification/Audio_Link.thy ===== *)
theory Audio_Link
  imports Audio_Producer
begin

text \<open>
  The audio ring end to end, at the granularity of whole calls: the producer publishes frames,
  the consumer reads the next one, in any order. The link keeps the consumer's variables and,
  as a record of what happened, the samples published so far and the frames delivered.
\<close>

record audio_link =
  al_producer :: audio_producer
  al_last :: u32
  al_dropped :: u32
  al_sent :: "int list list"
  al_got :: "(u32 \<times> int list) list"

datatype link_event = L_Publish "int list" | L_Read

text \<open>A frame has 1024 samples; the array type of the C parameter says so.\<close>

fun link_step :: "link_event \<Rightarrow> audio_link \<Rightarrow> audio_link" where
  "link_step (L_Publish samples) l =
     (if length samples \<noteq> 1024 then l
      else l\<lparr>al_producer := publish_frame (al_producer l) samples,
             al_sent := al_sent l @ [samples]\<rparr>)"
| "link_step L_Read l =
     (case ap_ring (al_producer l) of None \<Rightarrow> l
      | Some ring \<Rightarrow>
        (let (ring', r) = read_quiet ring (al_last l) silence (al_dropped l)
         in l\<lparr>al_producer := (al_producer l)\<lparr>ap_ring := Some ring'\<rparr>, al_last := rr_last r,
              al_dropped := rr_dropped r,
              al_got := (if rr_status r = 1 then al_got l @ [(rr_last r, rr_output r)]
                         else al_got l)\<rparr>))"

text \<open>Frame \<open>f\<close> is in its slot, complete.\<close>

definition holds_frame :: "e1_audio_ring \<Rightarrow> nat \<Rightarrow> int list \<Rightarrow> bool" where
  "holds_frame r f samples \<longleftrightarrow>
     (let s = slot r ! ((f - 1) mod 8)
      in even (slot_seq s) \<and> unat (slot_number s) = f \<and> slot_samples s = samples)"

definition retained :: "e1_audio_ring \<Rightarrow> int list list \<Rightarrow> bool" where
  "retained r sent \<longleftrightarrow> length (slot r) = 8 \<and> unat (published_frame r) = length sent \<and>
     (\<forall>f. 1 \<le> f \<and> f \<le> length sent \<and> length sent < f + 8 \<longrightarrow>
        length (sent ! (f - 1)) = 1024 \<and> holds_frame r f (sent ! (f - 1)))"

lemma publish_retained:
  assumes "retained r sent" and "length samples = 1024" and "Suc (length sent) < 2 ^ 32"
    and "ap_ring p = Some r" and "unat (ap_frame_number p) = length sent"
  obtains r' where "ap_ring (publish_frame p samples) = Some r'" and "retained r' (sent @ [samples])"
    and "unat (ap_frame_number (publish_frame p samples)) = Suc (length sent)"
proof -
  let ?n = "ap_frame_number p + 1" and ?L = "length sent"
  have n: "unat ?n = Suc ?L"
    using assms(3,5) by (simp add: unat_word_ariths)
  then have "?n \<noteq> 0" by auto
  then have k: "slot_index ?n = ?L mod 8" using n by (simp add: slot_index_value)
  let ?c = "slot_index ?n"
  let ?q = "(slot_seq (slot r ! ?c) AND NOT 1) + 1"
  obtain r' where r': "ap_ring (publish_frame p samples) = Some r'"
    and slots: "slot r' = (slot r)[?c := \<lparr>slot_seq = ?q + 1, slot_number = ?n, slot_samples = samples\<rparr>]"
    and pub: "published_frame r' = ?n"
    using assms(1,4) by (cases "slot r ! ?c") (simp add: publish_frame_def Let_def upd_slot_def retained_def)
  have eight: "length (slot r) = 8" using assms(1) by (simp add: retained_def)
  have "length ((sent @ [samples]) ! (f - 1)) = 1024 \<and> holds_frame r' f ((sent @ [samples]) ! (f - 1))"
    if f: "1 \<le> f" "f \<le> Suc ?L" "Suc ?L < f + 8" for f
  proof (cases "f = Suc ?L")
    case True
    have "even (?q + 1)" by (rule seq_mark_is_odd [of "slot_seq (slot r ! ?c)", folded seq_Suc_even])
    with True slots eight k n assms(2) show ?thesis
      by (simp add: holds_frame_def Let_def)
  next
    case False
    then have old: "f \<le> ?L" using f by simp
    have "(f - 1) mod 8 \<noteq> ?L mod 8"
    proof
      assume "(f - 1) mod 8 = ?L mod 8"
      then have "8 dvd ?L - (f - 1)" using old by (intro mod_eq_dvd_iff_nat [THEN iffD1]) simp_all
      moreover have "0 < ?L - (f - 1)" "?L - (f - 1) < 8" using f old by auto
      ultimately show False by (auto dest: dvd_imp_le)
    qed
    moreover have "length (sent ! (f - 1)) = 1024 \<and> holds_frame r f (sent ! (f - 1))"
      using assms(1) f old by (simp add: retained_def)
    moreover have "f - 1 < length sent" using f(1) old by simp
    then have "(sent @ [samples]) ! (f - 1) = sent ! (f - 1)" by (simp only: nth_append if_True)
    ultimately show ?thesis using slots k by (simp add: holds_frame_def)
  qed
  then have "retained r' (sent @ [samples])"
    using slots pub eight n by (simp add: retained_def)
  moreover have "unat (ap_frame_number (publish_frame p samples)) = Suc ?L"
    using n assms(4) by (simp add: publish_frame_def Let_def)
  ultimately show thesis using r' that by blast
qed

text \<open>A read that nobody disturbs.\<close>

lemma quiet_read_idle:
  "published_frame r \<le> prev \<Longrightarrow> read_quiet r prev out d =
    (r, \<lparr>rr_last = prev, rr_output = silence, rr_dropped = d, rr_consumed = None, rr_status = 0\<rparr>)"
  by (simp add: read_quiet_def e1_audio_ring_read_next_def steady_def)

lemma steady_attempt:
  assumes "retained r sent" and "prev < published_frame r"
    and t: "read_target (published_frame r) prev d = (target, d')"
  shows "read_attempts (steady r # vs) prev out d =
    \<lparr>rr_last = target, rr_output = sent ! (unat target - 1), rr_dropped = d',
     rr_consumed = Some target, rr_status = 1\<rparr>"
proof -
  let ?f = "unat target" and ?L = "length sent"
  have len: "unat (published_frame r) = ?L" using assms(1) by (simp add: retained_def)
  have lt: "unat prev < ?L" using assms(2) len by (simp add: word_less_nat_alt)
  have f: "1 \<le> ?f \<and> ?f \<le> ?L \<and> ?L < ?f + 8"
    using read_target_value [OF assms(2), of d] t lt len by (auto split: if_splits)
  then have hold: "length (sent ! (?f - 1)) = 1024" "holds_frame r ?f (sent ! (?f - 1))"
    using assms(1) by (simp_all add: retained_def)
  have "target \<noteq> 0" using f by auto
  then have k: "slot_index target = (?f - 1) mod 8" by (rule slot_index_value)
  have even: "even (slot_seq (slot r ! slot_index target))"
    and num: "slot_number (slot r ! slot_index target) = target"
    and sam: "slot_samples (slot r ! slot_index target) = sent ! (?f - 1)"
    using hold(2) by (simp_all add: holds_frame_def k Let_def word_unat_eq_iff)
  have "copy_samples (steady r) (slot_index target) = sent ! (?f - 1)"
    using sam hold(1)
    by (intro nth_equalityI) (simp_all add: copy_samples_def steady_def e1_consts)
  moreover have "\<not> (published_frame r = 0 \<or> published_frame r \<le> prev)"
    using assms(2) by (auto simp: not_le)
  ultimately show ?thesis using t even num
    by (simp add: steady_def Let_def seq_and_one)
qed

lemma quiet_read_next:
  assumes "retained r sent" and "prev < published_frame r"
    and "read_target (published_frame r) prev d = (target, d')"
  shows "read_quiet r prev out d = (r\<lparr>consumed_frame := target\<rparr>,
    \<lparr>rr_last = target, rr_output = sent ! (unat target - 1), rr_dropped = d',
     rr_consumed = Some target, rr_status = 1\<rparr>)"
  unfolding read_quiet_def e1_audio_ring_read_next_def option.case prod.case
    steady_attempt [OF assms] Let_def by simp

section \<open>The invariant of the link\<close>

definition log_ok :: "audio_link \<Rightarrow> bool" where
  "log_ok l \<longleftrightarrow>
     (al_last l = 0 \<longleftrightarrow> al_got l = []) \<and> unat (al_last l) \<le> length (al_sent l) \<and>
     sorted_wrt (<) (map fst (al_got l)) \<and>
     (\<forall>(f, x)\<in>set (al_got l). 1 \<le> unat f \<and> f \<le> al_last l \<and> x = al_sent l ! (unat f - 1)) \<and>
     (al_got l = [] \<longrightarrow> al_dropped l = 0) \<and>
     (al_got l \<noteq> [] \<longrightarrow> Suc (unat (al_last l)) =
        unat (fst (hd (al_got l))) + length (al_got l) + unat (al_dropped l))"

definition link_ok :: "audio_link \<Rightarrow> bool" where
  "link_ok l \<longleftrightarrow> length (al_sent l) < 2 ^ 32 \<longrightarrow>
     (\<exists>r. ap_ring (al_producer l) = Some r \<and> retained r (al_sent l)) \<and>
     unat (ap_frame_number (al_producer l)) = length (al_sent l) \<and> log_ok l"

lemma log_publish: "log_ok l \<Longrightarrow> log_ok (l\<lparr>al_producer := p, al_sent := al_sent l @ [x]\<rparr>)"
proof -
  assume ok: "log_ok l"
  have "(al_sent l @ [x]) ! (unat f - 1) = al_sent l ! (unat f - 1)"
    if "1 \<le> unat f" "f \<le> al_last l" for f
  proof -
    have "unat f \<le> length (al_sent l)" using ok that by (simp add: log_ok_def word_le_nat_alt)
    with that have "unat f - 1 < length (al_sent l)" by simp
    then show ?thesis by (simp only: nth_append if_True)
  qed
  with ok show ?thesis by (fastforce simp: log_ok_def)
qed

lemma log_read:
  assumes ok: "log_ok l" and lt: "al_last l < pub" and len: "unat pub = length (al_sent l)"
    and t: "read_target pub (al_last l) (al_dropped l) = (target, d')"
  shows "log_ok (l\<lparr>al_producer := p, al_last := target, al_dropped := d',
    al_got := al_got l @ [(target, al_sent l ! (unat target - 1))]\<rparr>)"
proof -
  note val = read_target_value [OF lt, of "al_dropped l"]
  have ltn: "unat (al_last l) < length (al_sent l)" using lt len by (simp add: word_less_nat_alt)
  have up: "unat (al_last l) < unat target \<and> unat target \<le> length (al_sent l)"
    using val t ltn len by (auto split: if_splits)
  then have later: "al_last l < target" by (simp add: word_less_nat_alt)
  have sorted: "sorted_wrt (<) (map fst (al_got l) @ [target])"
    using ok later by (fastforce simp: log_ok_def sorted_wrt_append)
  have count: "Suc (unat target) = unat (fst (hd (al_got l @ [(target, x)]))) +
      Suc (length (al_got l)) + unat d'" for x
  proof (cases "al_got l = []")
    case True
    then have "al_last l = 0" "al_dropped l = 0" using ok by (simp_all add: log_ok_def)
    with True val t show ?thesis by simp
  next
    case False
    then have nz: "al_last l \<noteq> 0" and sum: "Suc (unat (al_last l)) =
        unat (fst (hd (al_got l))) + length (al_got l) + unat (al_dropped l)"
      using ok by (auto simp: log_ok_def)
    let ?lost = "unat pub - 7 - (unat (al_last l) + 1)"
    have d': "d' = al_dropped l + word_of_nat ?lost" and tgt: "unat target = max (unat (al_last l) + 1) (unat pub - 7)"
      using val t nz by simp_all
    have "unat pub < 2 ^ 32" using unsigned_less [of pub] by simp
    moreover have "unat (al_dropped l) \<le> Suc (unat (al_last l))" using sum by simp
    ultimately have "unat (al_dropped l) + ?lost < 2 ^ 32" using ltn len by simp
    then have "unat d' = unat (al_dropped l) + ?lost"
      unfolding d' by (simp add: unat_word_ariths unsigned_of_nat take_bit_nat_eq_self)
    with False sum tgt show ?thesis by simp
  qed
  have "target \<noteq> 0" using later by auto
  moreover have "f \<le> target" if "f \<le> al_last l" for f using that later by simp
  ultimately show ?thesis using ok up sorted count by (fastforce simp: log_ok_def)
qed

lemma link_ok_step: "link_ok l \<Longrightarrow> link_ok (link_step e l)"
proof (cases e)
  case (L_Publish samples)
  assume ok: "link_ok l"
  show ?thesis
  proof (cases "length samples = 1024 \<and> Suc (length (al_sent l)) < 2 ^ 32")
    case True
    with ok obtain r where r: "ap_ring (al_producer l) = Some r" "retained r (al_sent l)"
        "unat (ap_frame_number (al_producer l)) = length (al_sent l)" "log_ok l"
      by (auto simp: link_ok_def)
    from True have "length samples = 1024" "Suc (length (al_sent l)) < 2 ^ 32" by simp_all
    from publish_retained [OF r(2) this r(1,3)] obtain r' where
        "ap_ring (publish_frame (al_producer l) samples) = Some r'"
        "retained r' (al_sent l @ [samples])"
        "unat (ap_frame_number (publish_frame (al_producer l) samples)) = Suc (length (al_sent l))" .
    with L_Publish True log_publish [OF r(4)] show ?thesis by (simp add: link_ok_def)
  next
    case False
    with L_Publish ok show ?thesis by (auto simp: link_ok_def)
  qed
next
  case L_Read
  assume ok: "link_ok l"
  have "link_ok (link_step L_Read l)" if "length (al_sent l) < 2 ^ 32"
  proof -
    from ok that obtain r where r: "ap_ring (al_producer l) = Some r" "retained r (al_sent l)"
        "unat (ap_frame_number (al_producer l)) = length (al_sent l)" "log_ok l"
      by (auto simp: link_ok_def)
    show ?thesis
    proof (cases "published_frame r \<le> al_last l")
      case True
      with r show ?thesis by (simp add: quiet_read_idle link_ok_def log_ok_def)
    next
      case False
      then have lt: "al_last l < published_frame r" by simp
      obtain target d' where t: "read_target (published_frame r) (al_last l) (al_dropped l) = (target, d')"
        by fastforce
      have len: "unat (published_frame r) = length (al_sent l)" using r(2) by (simp add: retained_def)
      have "retained (r\<lparr>consumed_frame := target\<rparr>) (al_sent l)"
        using r(2) by (simp add: retained_def holds_frame_def)
      with r quiet_read_next [OF r(2) lt t] log_read [OF r(4) lt len t] show ?thesis
        by (simp add: link_ok_def)
    qed
  qed
  moreover have "al_sent (link_step L_Read l) = al_sent l"
    by (simp add: Let_def split: option.splits prod.splits)
  ultimately show ?thesis using L_Read by (auto simp: link_ok_def)
qed

interpretation link: event_machine link_step link_ok
  by unfold_locales (rule link_ok_step)

text \<open>A ring as the producer creates it: valid header, nothing published.\<close>

definition fresh_link :: "e1_audio_ring \<Rightarrow> audio_link" where
  "fresh_link r = \<lparr>al_producer = \<lparr>ap_ring = Some r, ap_frame_number = 0, ap_mixed_frames = 0\<rparr>,
     al_last = 0, al_dropped = 0, al_sent = [], al_got = []\<rparr>"

lemma fresh_link_ok:
  "length (slot r) = 8 \<Longrightarrow> published_frame r = 0 \<Longrightarrow> link_ok (fresh_link r)"
  by (simp add: link_ok_def fresh_link_def retained_def log_ok_def)


definition fresh_ring :: e1_audio_ring where
  "fresh_ring = sample_ring\<lparr>published_frame := 0, ring_mixed_frames := 0, nonzero_frames := 0,
     last_nonzero_frame := 0, peak_abs := 0, slot := replicate 8 empty_slot\<rparr>"

lemma al_sent_step:
  "al_sent (link_step L_Read l) = al_sent l"
  "length x = 1024 \<Longrightarrow> al_sent (link_step (L_Publish x) l) = al_sent l @ [x]"
  by (simp_all add: Let_def split: option.splits prod.splits)


section \<open>Losses counted twice\<close>


text \<open>Twelve frames published, the reader at frame 1 and the target slot being rewritten.\<close>

definition twelve_ring :: e1_audio_ring where
  "twelve_ring = sample_ring\<lparr>published_frame := 12, slot := map (\<lambda>k.
     \<lparr>slot_seq = 2, slot_number = word_of_nat (if k < 4 then k + 9 else k + 1),
      slot_samples = replicate 1024 5\<rparr>) [0..<8]\<rparr>"

lemma twelve_retained: "retained twelve_ring (replicate 12 (replicate 1024 5))"
proof -
  have "holds_frame twelve_ring f (replicate 1024 5)" if "4 < f" and "f \<le> 12" for f
  proof -
    from that have "f = 5 \<or> f = 6 \<or> f = 7 \<or> f = 8 \<or> f = 9 \<or> f = 10 \<or> f = 11 \<or> f = 12"
      by linarith
    then show ?thesis
      by (elim disjE) (simp_all add: holds_frame_def twelve_ring_def Let_def)
  qed
  then have "length (replicate 12 (replicate 1024 5) ! (f - 1)) = 1024 \<and>
      holds_frame twelve_ring f (replicate 12 (replicate 1024 5) ! (f - 1))"
    if "1 \<le> f" "f \<le> 12" "12 < f + 8" for f
    using that nth_replicate [of "f - 1" 12 "replicate 1024 (5 :: int)"] by simp
  moreover have "length (slot twelve_ring) = 8" "unat (published_frame twelve_ring) = 12"
    by (simp_all add: twelve_ring_def)
  ultimately show ?thesis unfolding retained_def length_replicate by blast
qed


end
