(* ===== verification/Sfx_Mixer.thy ===== *)
theory Sfx_Mixer
  imports Audio_Contract
begin

text \<open>
  The sound-effect mixer of \<open>src/common/e1-sfx-mixer.h\<close> and \<open>e1-sfx-mixer.c\<close>. A voice plays
  a lump of unsigned 8-bit samples at a 16.16 fixed-point position that advances by a fixed
  step; a frame is the clipped sum of all active voices with linear interpolation. A voice's
  \<open>samples\<close> pointer is the list of the bytes it points to. The 32-bit signed intermediate
  values are integers; the bounds below show that they stay inside \<open>int32_t\<close>.
\<close>

section \<open>Data\<close>

definition E1_SFX_MAX_VOICES :: nat where [e1_consts]: "E1_SFX_MAX_VOICES = 16"

record e1_sfx_voice =
  v_samples :: "u8 list"
  sample_count :: u32
  position_q16 :: u64
  step_q16 :: u32
  v_volume :: u16
  separation :: u16
  active :: bool
  paused :: bool

definition voice_zero :: e1_sfx_voice where
  "voice_zero = \<lparr>v_samples = [], sample_count = 0, position_q16 = 0, step_q16 = 0, v_volume = 0,
     separation = 0, active = False, paused = False\<rparr>"

section \<open>Operations\<close>

definition clip_s16 :: "int \<Rightarrow> int" where
  "clip_s16 v = (if v > 32767 then 32767 else if v < -32768 then -32768 else int16 v)"

text \<open>The voice and the sample pointer may be \<open>NULL\<close>.\<close>

definition e1_sfx_start_voice ::
    "e1_sfx_voice option \<Rightarrow> u8 list option \<Rightarrow> u32 \<Rightarrow> u32 \<Rightarrow> u32 \<Rightarrow> u32 \<Rightarrow> u32 \<Rightarrow>
     e1_sfx_voice option \<times> int" where
  "e1_sfx_start_voice voice samples count source_rate pitch volume sep =
     (let denominator = ucast E1_AUDIO_SAMPLE_RATE * (128 :: u64)
      in case (voice, samples) of
        (Some _, Some bytes) \<Rightarrow>
          if count < 2 \<or> source_rate < 4000 \<or> source_rate > 96000 \<or> pitch = 0 then (voice, -1)
          else
            (let pitch = (if pitch > 255 then 255 else pitch);
                 volume = (if volume > 127 then 127 else volume);
                 sep = (if sep > 255 then 255 else sep);
                 numerator = ucast source_rate * ucast pitch * (65536 :: u64);
                 v = voice_zero\<lparr>v_samples := bytes, sample_count := count,
                                 step_q16 := ucast (numerator div denominator)\<rparr>;
                 v = (if step_q16 v = 0 then v\<lparr>step_q16 := 1\<rparr> else v);
                 v = v\<lparr>v_volume := ucast volume, separation := ucast sep,
                        active := volume \<noteq> 0\<rparr>
             in (Some v, if active v then 0 else -1))
      | _ \<Rightarrow> (voice, -1))"

text \<open>The interpolated sample of a voice at its position.\<close>

definition voice_sample :: "e1_sfx_voice \<Rightarrow> int" where
  "voice_sample v =
     (let source_index = unat (drop_bit 16 (position_q16 v));
          fraction = int (unat (position_q16 v AND 0xffff));
          first = (int (unat (v_samples v ! source_index)) - 128) * 256;
          second = (if source_index + 1 < unat (sample_count v)
                    then (int (unat (v_samples v ! (source_index + 1))) - 128) * 256 else first)
      in first + ((second - first) * fraction) div 65536)"

definition at_end :: "e1_sfx_voice \<Rightarrow> bool" where
  "at_end v \<longleftrightarrow> drop_bit 16 (position_q16 v) \<ge> ucast (sample_count v)"

text \<open>The loop over one voice's output samples, with its \<open>break\<close>.\<close>

fun mix_voice :: "nat list \<Rightarrow> e1_sfx_voice \<Rightarrow> int list \<Rightarrow> e1_sfx_voice \<times> int list" where
  "mix_voice [] v mixed = (v, mixed)"
| "mix_voice (output_index # is) v mixed =
     (if at_end v then (v\<lparr>active := False\<rparr>, mixed)
      else
        (let sample = voice_sample v;
             mixed = mixed[output_index := mixed ! output_index +
                       (sample * int (unat (v_volume v))) sdiv 127];
             v = v\<lparr>position_q16 := position_q16 v + ucast (step_q16 v)\<rparr>;
             v = (if at_end v then v\<lparr>active := False\<rparr> else v)
         in mix_voice is v mixed))"

fun mix_voices :: "e1_sfx_voice list \<Rightarrow> int list \<Rightarrow> e1_sfx_voice list \<times> int list" where
  "mix_voices [] mixed = ([], mixed)"
| "mix_voices (v # vs) mixed =
     (let (v, mixed) = (if \<not> active v \<or> paused v then (v, mixed)
                        else mix_voice [0..<unat E1_AUDIO_SAMPLES_PER_FRAME] v mixed);
          (vs, mixed) = mix_voices vs mixed
      in (v # vs, mixed))"

text \<open>The new voices and the output frame.\<close>

definition e1_sfx_mix_frame :: "e1_sfx_voice list \<Rightarrow> e1_sfx_voice list \<times> int list" where
  "e1_sfx_mix_frame voices =
     (let (voices, mixed) = mix_voices voices (replicate (unat E1_AUDIO_SAMPLES_PER_FRAME) 0)
      in (voices, map clip_s16 mixed))"

section \<open>Starting a voice\<close>

definition wf_voice :: "e1_sfx_voice \<Rightarrow> bool" where
  "wf_voice v \<longleftrightarrow> unat (sample_count v) \<le> length (v_samples v) \<and> unat (v_volume v) \<le> 127 \<and>
     (active v \<longrightarrow> 0 < unat (step_q16 v) \<and> unat (step_q16 v) \<le> 783360 \<and> \<not> at_end v)"

lemma step_value:
  fixes r p :: u32
  assumes "r \<le> 96000" and "p \<le> 255"
  shows "unat (ucast (ucast r * ucast p * (65536 :: u64) div (ucast E1_AUDIO_SAMPLE_RATE * 128)) :: u32) =
      unat r * unat p * 65536 div 2048000"
    and "unat r * unat p * 65536 div 2048000 \<le> 783360"
proof -
  have b: "unat r \<le> 96000" "unat p \<le> 255" using assms by (simp_all add: word_le_nat_alt)
  then have prod: "unat r * unat p \<le> 96000 * 255" by (intro mult_le_mono)
  then have "unat r * unat p * 65536 \<le> 96000 * 255 * 65536" by (rule mult_le_mono1)
  also have "\<dots> = 783360 * 2048000" by simp
  finally have "unat r * unat p * 65536 \<le> 783360 * 2048000" .
  then have "unat r * unat p * 65536 div 2048000 \<le> 783360 * 2048000 div 2048000"
    by (rule div_le_mono)
  then show le: "unat r * unat p * 65536 div 2048000 \<le> 783360" by (simp only: nonzero_mult_div_cancel_right)
  have m1: "unat (ucast r * ucast p :: u64) = unat r * unat p"
    using prod by (simp add: unat_word_ariths)
  have m2: "unat (ucast r * ucast p * (65536 :: u64)) = unat r * unat p * 65536"
  proof -
    have "n * 65536 < 2 ^ 64" if "n \<le> 96000 * 255" for n :: nat using that by simp
    from this [OF prod] have "unat (ucast r * ucast p :: u64) * unat (65536 :: u64) < 2 ^ LENGTH(64)"
      by (simp only: m1) simp
    then have "unat (ucast r * ucast p * (65536 :: u64)) =
        unat (ucast r * ucast p :: u64) * unat (65536 :: u64)"
      by (rule unat_mult_lem [THEN iffD1])
    also have "\<dots> = unat r * unat p * 65536" unfolding m1 by simp
    finally show ?thesis .
  qed
  have d: "(ucast E1_AUDIO_SAMPLE_RATE * 128 :: u64) = 2048000" by (simp add: e1_consts)
  have "unat (ucast r * ucast p * (65536 :: u64) div 2048000) = unat r * unat p * 65536 div 2048000"
    by (simp add: unat_div m2)
  then show "unat (ucast (ucast r * ucast p * (65536 :: u64) div (ucast E1_AUDIO_SAMPLE_RATE * 128)) :: u32) =
      unat r * unat p * 65536 div 2048000"
    unfolding d using le by (simp add: unsigned_ucast_eq take_bit_nat_eq_self)
qed

lemma fresh_not_at_end: "2 \<le> c \<Longrightarrow> position_q16 v = 0 \<Longrightarrow> sample_count v = c \<Longrightarrow> \<not> at_end v"
  by (auto simp: at_end_def word_le_nat_alt)

text \<open>Starting a voice: it is accepted exactly for at least two samples, a source rate of 4 to
  96 kHz, a non-zero pitch and an audible volume; an accepted voice is well formed, starts at
  the first sample, and its 16.16 step is the exact quotient of the rates (pitch 128 being
  unity), at least 1, with no overflow in the 64-bit product or the 32-bit step.\<close>

theorem start_voice_spec:
  assumes "unat count \<le> length bytes"
    and "e1_sfx_start_voice (Some v0) (Some bytes) count rate pitch volume sep = (Some v, code)"
  shows "(code = 0 \<longleftrightarrow> 2 \<le> count \<and> 4000 \<le> rate \<and> rate \<le> 96000 \<and> pitch \<noteq> 0 \<and> volume \<noteq> 0) \<and>
    (code = 0 \<longrightarrow> wf_voice v \<and> active v \<and> position_q16 v = 0 \<and> v_samples v = bytes \<and>
       sample_count v = count \<and> unat (v_volume v) = min (unat volume) 127 \<and>
       unat (step_q16 v) = max 1 (unat rate * min (unat pitch) 255 * 65536 div 2048000))"
proof (cases "count < 2 \<or> rate < 4000 \<or> rate > 96000 \<or> pitch = 0")
  case True
  with assms(2) show ?thesis by (auto simp: e1_sfx_start_voice_def)
next
  case False
  let ?p = "if pitch > 255 then 255 else pitch" and ?vol = "if volume > 127 then 127 else volume"
  let ?st = "ucast (ucast rate * ucast ?p * (65536 :: u64) div (ucast E1_AUDIO_SAMPLE_RATE * 128)) :: u32"
  have le: "rate \<le> 96000" "?p \<le> 255" using False by auto
  have p: "unat ?p = min (unat pitch) 255" by (auto simp: word_less_nat_alt)
  note st = step_value [OF le, unfolded p]
  have step: "unat (if ?st = 0 then 1 else ?st) =
      max 1 (unat rate * min (unat pitch) 255 * 65536 div 2048000)"
    using st(1) by (auto simp: unat_eq_0 word_unat_eq_iff)
  have vol: "unat ?vol = min (unat volume) 127" by (auto simp: word_less_nat_alt)
  then have vol16: "unat (ucast ?vol :: u16) = min (unat volume) 127"
    by (simp add: unsigned_ucast_eq take_bit_nat_eq_self)
  have vol0: "?vol \<noteq> 0 \<longleftrightarrow> volume \<noteq> 0" by auto
  have v: "v_samples v = bytes" "sample_count v = count" "position_q16 v = 0"
      "step_q16 v = (if ?st = 0 then 1 else ?st)" "v_volume v = ucast ?vol"
      "active v = (?vol \<noteq> 0)" "code = (if active v then 0 else -1)"
    using assms(2) False by (auto simp: e1_sfx_start_voice_def Let_def voice_zero_def)
  have "2 \<le> count" using False by (simp add: not_less)
  then have "\<not> at_end v" using v by (intro fresh_not_at_end) simp_all
  moreover have "unat (step_q16 v) \<le> 783360" using v(4) step st(2) by simp
  moreover have "0 < unat (step_q16 v)" using v(4) step by simp
  ultimately have "wf_voice v" using v vol16 assms(1) by (simp add: wf_voice_def)
  moreover have "4000 \<le> rate" using False by (simp add: not_less)
  ultimately show ?thesis using v step vol16 vol0 False \<open>2 \<le> count\<close> le(1) by auto
qed

lemma start_voice_spec_witness:
  "case e1_sfx_start_voice (Some voice_zero) (Some [1, 2, 3]) 3 11025 128 127 128 of
     (Some v, code) \<Rightarrow> code = 0 \<and> unat (step_q16 v) = 45158 | _ \<Rightarrow> False"
proof -
  obtain v code where r: "e1_sfx_start_voice (Some voice_zero) (Some [1, 2, 3]) 3 11025 128 127 128 =
      (Some v, code)"
    by (simp add: e1_sfx_start_voice_def Let_def)
  have "unat (3 :: u32) \<le> length [1, 2, 3 :: u8]" by simp
  from start_voice_spec [OF this r] r show ?thesis by simp
qed

section \<open>One sample\<close>

lemma between_interpolation:
  fixes a b f :: int
  assumes "0 \<le> f" and "f < 65536"
  shows "min a b \<le> a + (b - a) * f div 65536 \<and> a + (b - a) * f div 65536 \<le> max a b"
proof (cases "a \<le> b")
  case True
  then have "0 \<le> (b - a) * f" using assms by simp
  moreover have "(b - a) * f \<le> (b - a) * 65536" using True assms by (intro mult_left_mono) simp_all
  ultimately have "0 \<le> (b - a) * f div 65536" and "(b - a) * f div 65536 \<le> (b - a) * 65536 div 65536"
    by (simp, intro zdiv_mono1, simp_all)
  with True show ?thesis by simp
next
  case False
  then have "(b - a) * f \<le> 0" using assms by (simp add: mult_nonpos_nonneg)
  moreover have "(b - a) * 65536 \<le> (b - a) * f"
    using False assms by (intro mult_left_mono_neg) simp_all
  ultimately have "(b - a) * f div 65536 \<le> 0" and "(b - a) * 65536 div 65536 \<le> (b - a) * f div 65536"
    by (simp add: div_nonpos_pos_le0, intro zdiv_mono1, simp_all)
  with False show ?thesis by simp
qed

lemma byte_scaled: "0 \<le> x \<Longrightarrow> x \<le> 255 \<Longrightarrow> -32768 \<le> (x - 128) * 256 \<and> (x - 128) * 256 \<le> 32512"
  for x :: int
  by simp

lemma byte_sample_range:
  fixes b :: u8
  shows "-32768 \<le> (int (unat b) - 128) * 256 \<and> (int (unat b) - 128) * 256 \<le> 32512"
proof -
  have "unat b < 256" using unsigned_less [of b] by simp
  then have "0 \<le> int (unat b)" and "int (unat b) \<le> 255" by linarith+
  then show ?thesis by (rule byte_scaled)
qed

lemma voice_sample_range: "-32768 \<le> voice_sample v \<and> voice_sample v \<le> 32512"
proof -
  let ?s = "unat (drop_bit 16 (position_q16 v))"
  let ?f = "int (unat (position_q16 v AND 0xffff))"
  let ?a = "(int (unat (v_samples v ! ?s)) - 128) * 256"
  let ?b = "if ?s + 1 < unat (sample_count v)
    then (int (unat (v_samples v ! (?s + 1))) - 128) * 256 else ?a"
  have "unat (position_q16 v AND 0xffff) < 65536"
    using unat_and_mask [of "position_q16 v" 16] by (simp add: mask_eq_exp_minus_1)
  then have "0 \<le> ?f" "?f < 65536" by linarith+
  from between_interpolation [OF this, of ?a ?b]
  have "min ?a ?b \<le> voice_sample v \<and> voice_sample v \<le> max ?a ?b"
    by (simp only: voice_sample_def Let_def)
  moreover have "-32768 \<le> ?a" "?a \<le> 32512" "-32768 \<le> ?b" "?b \<le> 32512"
    using byte_sample_range [of "v_samples v ! ?s"] byte_sample_range [of "v_samples v ! (?s + 1)"]
    by auto
  ultimately show ?thesis by linarith
qed

lemma scaled_sample_range:
  assumes "n \<le> 127"
  shows "\<bar>(voice_sample v * int n) sdiv 127\<bar> \<le> 32768"
proof -
  have "\<bar>voice_sample v\<bar> \<le> 32768" using voice_sample_range [of v] by linarith
  then have "\<bar>voice_sample v\<bar> * int n \<le> 32768 * 127" using assms by (intro mult_mono) simp_all
  then have "\<bar>voice_sample v * int n\<bar> div 127 \<le> 32768 * 127 div 127"
    by (intro zdiv_mono1) (simp_all add: abs_mult)
  then show ?thesis by (simp add: abs_sdiv)
qed

section \<open>One voice over a frame\<close>

lemma at_end_iff: "at_end v \<longleftrightarrow> unat (sample_count v) * 65536 \<le> unat (position_q16 v)"
  by (simp add: at_end_def word_le_nat_alt drop_bit_eq_div unat_div less_eq_div_iff_mult_less_eq)

lemma position_step:
  assumes "wf_voice v" and "active v"
  shows "unat (position_q16 v + ucast (step_q16 v)) = unat (position_q16 v) + unat (step_q16 v)"
proof -
  have "unat (sample_count v) < 2 ^ 32" using unsigned_less [of "sample_count v"] by simp
  moreover have "unat (position_q16 v) < unat (sample_count v) * 65536"
    using assms by (simp add: wf_voice_def at_end_iff)
  moreover have "unat (step_q16 v) \<le> 783360" using assms by (simp add: wf_voice_def)
  ultimately have "unat (position_q16 v) + unat (step_q16 v) < 2 ^ 64" by simp
  then show ?thesis by (simp add: unat_word_ariths)
qed

text \<open>What a voice keeps while it plays.\<close>

definition same_voice :: "e1_sfx_voice \<Rightarrow> e1_sfx_voice \<Rightarrow> bool" where
  "same_voice v v' \<longleftrightarrow> v_samples v' = v_samples v \<and> sample_count v' = sample_count v \<and>
     step_q16 v' = step_q16 v \<and> v_volume v' = v_volume v \<and> separation v' = separation v \<and>
     paused v' = paused v"

lemma mix_voice_inactive: "at_end v \<Longrightarrow> \<not> active v \<Longrightarrow> mix_voice is v m = (v, m)"
  by (cases "is") simp_all

lemma mix_voice_effect:
  assumes "wf_voice v" and "active v"
  shows "wf_voice (fst (mix_voice is v m)) \<and> same_voice v (fst (mix_voice is v m)) \<and>
    length (snd (mix_voice is v m)) = length m \<and>
    (active (fst (mix_voice is v m)) \<longrightarrow>
      unat (position_q16 (fst (mix_voice is v m))) =
        unat (position_q16 v) + length is * unat (step_q16 v))"
  using assms
proof (induction "is" arbitrary: v m)
  case Nil
  then show ?case by (simp add: same_voice_def)
next
  case (Cons i js)
  have notend: "\<not> at_end v" using Cons.prems by (simp add: wf_voice_def)
  let ?m = "m[i := m ! i + (voice_sample v * int (unat (v_volume v))) sdiv 127]"
  let ?v = "v\<lparr>position_q16 := position_q16 v + ucast (step_q16 v)\<rparr>"
  have pos: "unat (position_q16 ?v) = unat (position_q16 v) + unat (step_q16 v)"
    using position_step [OF Cons.prems] by simp
  show ?case
  proof (cases "at_end ?v")
    case True
    let ?w = "?v\<lparr>active := False\<rparr>"
    have "at_end ?w" using True by (simp add: at_end_def)
    then have "mix_voice (i # js) v m = (?w, ?m)"
      using notend True by (simp add: Let_def mix_voice_inactive)
    with Cons.prems show ?thesis by (simp add: wf_voice_def same_voice_def)
  next
    case False
    then have "mix_voice (i # js) v m = mix_voice js ?v ?m" using notend by (simp add: Let_def)
    moreover have "wf_voice ?v" using Cons.prems False by (simp add: wf_voice_def)
    ultimately show ?thesis
      using Cons.IH [of ?v ?m] Cons.prems pos by (auto simp: same_voice_def algebra_simps)
  qed
qed

lemma mix_voice_bound:
  assumes "wf_voice v" and "distinct is" and "k < length m"
  shows "\<bar>snd (mix_voice is v m) ! k\<bar> \<le> \<bar>m ! k\<bar> + (if k \<in> set is then 32768 else 0)"
  using assms
proof (induction "is" arbitrary: v m)
  case (Cons i js)
  let ?d = "(voice_sample v * int (unat (v_volume v))) sdiv 127"
  let ?m = "m[i := m ! i + ?d]"
  let ?v = "v\<lparr>position_q16 := position_q16 v + ucast (step_q16 v)\<rparr>"
  let ?w = "if at_end ?v then ?v\<lparr>active := False\<rparr> else ?v"
  have wf: "wf_voice ?w" and vol: "unat (v_volume v) \<le> 127"
    using Cons.prems(1) by (auto simp: wf_voice_def)
  show ?case
  proof (cases "at_end v")
    case True
    then show ?thesis by simp
  next
    case False
    then have eq: "mix_voice (i # js) v m = mix_voice js ?w ?m" by (simp add: Let_def)
    have "\<bar>m[i := m ! i + d] ! k\<bar> \<le> \<bar>m ! k\<bar> + (if k = i then 32768 else 0)"
      if "\<bar>d\<bar> \<le> 32768" for d
      using that Cons.prems(3) by (cases "k = i") simp_all
    then have "\<bar>?m ! k\<bar> \<le> \<bar>m ! k\<bar> + (if k = i then 32768 else 0)"
      using scaled_sample_range [OF vol, of v] by blast
    moreover have "\<bar>snd (mix_voice js ?w ?m) ! k\<bar> \<le> \<bar>?m ! k\<bar> + (if k \<in> set js then 32768 else 0)"
      using Cons.IH [OF wf, of ?m] Cons.prems by simp
    ultimately show ?thesis using Cons.prems(2) eq by (auto split: if_splits)
  qed
qed simp

lemma samples_per_frame: "unat E1_AUDIO_SAMPLES_PER_FRAME = 1024"
  by (simp add: e1_consts)

lemma mix_voices_effect:
  assumes "\<forall>v\<in>set vs. wf_voice v" and "length m = 1024"
  shows "length (fst (mix_voices vs m)) = length vs \<and> length (snd (mix_voices vs m)) = 1024 \<and>
    (\<forall>v\<in>set (fst (mix_voices vs m)). wf_voice v) \<and>
    (\<forall>k<1024. \<bar>snd (mix_voices vs m) ! k\<bar> \<le> \<bar>m ! k\<bar> + int (length vs) * 32768)"
  using assms
proof (induction vs arbitrary: m)
  case (Cons v vs)
  let ?r = "if \<not> active v \<or> paused v then (v, m) else mix_voice [0..<1024] v m"
  obtain v' m' where r: "?r = (v', m')" by fastforce
  obtain vs' m'' where rest: "mix_voices vs m' = (vs', m'')" by fastforce
  have eq: "mix_voices (v # vs) m = (v' # vs', m'')"
    unfolding mix_voices.simps samples_per_frame r by (simp add: rest)
  have wf: "wf_voice v" using Cons.prems by simp
  have one: "wf_voice v' \<and> length m' = 1024 \<and> (\<forall>k<1024. \<bar>m' ! k\<bar> \<le> \<bar>m ! k\<bar> + 32768)"
  proof (cases "\<not> active v \<or> paused v")
    case True
    with r wf Cons.prems show ?thesis by auto
  next
    case False
    with r mix_voice_effect [OF wf, of "[0..<1024]" m] mix_voice_bound [OF wf, of "[0..<1024]" _ m]
      Cons.prems show ?thesis by auto
  qed
  with Cons.IH [of m'] Cons.prems rest have tail: "length vs' = length vs" "length m'' = 1024"
      "\<forall>v\<in>set vs'. wf_voice v" "\<forall>k<1024. \<bar>m'' ! k\<bar> \<le> \<bar>m' ! k\<bar> + int (length vs) * 32768"
    by simp_all
  have "\<bar>m'' ! k\<bar> \<le> \<bar>m ! k\<bar> + (1 + int (length vs)) * 32768" if "k < 1024" for k
    using tail(4) one that by (fastforce simp: algebra_simps)
  with eq one tail show ?case by simp
qed simp



section \<open>A voice plays to its end\<close>

lemma mix_one:
  assumes "wf_voice v" and "active v" and "\<not> paused v"
  obtains v' out where "e1_sfx_mix_frame [v] = ([v'], out)" and "wf_voice v'" and "same_voice v v'"
    and "active v' \<longrightarrow> unat (position_q16 v') = unat (position_q16 v) + 1024 * unat (step_q16 v)"
proof -
  let ?z = "replicate 1024 (0 :: int)"
  obtain v' m where r: "mix_voice [0..<1024] v ?z = (v', m)" by fastforce
  have "e1_sfx_mix_frame [v] = ([v'], map clip_s16 m)"
    unfolding e1_sfx_mix_frame_def mix_voices.simps samples_per_frame using assms r by simp
  with mix_voice_effect [OF assms(1,2), of "[0..<1024]" ?z] r that show thesis by simp
qed

lemma mix_idle: "\<not> active v \<or> paused v \<Longrightarrow> fst (e1_sfx_mix_frame [v]) = [v]"
  by (auto simp: e1_sfx_mix_frame_def split: prod.splits)

text \<open>The voices after \<open>n\<close> frames.\<close>

fun frames_of :: "nat \<Rightarrow> e1_sfx_voice list \<Rightarrow> e1_sfx_voice list" where
  "frames_of 0 vs = vs"
| "frames_of (Suc n) vs = frames_of n (fst (e1_sfx_mix_frame vs))"

lemma frames_of_idle: "\<not> active v \<Longrightarrow> frames_of n [v] = [v]"
  by (induction n) (simp_all add: mix_idle)

lemma voice_progress:
  "wf_voice v \<Longrightarrow> \<not> paused v \<Longrightarrow>
   \<exists>v'. frames_of n [v] = [v'] \<and> (active v' \<longrightarrow> active v \<and>
     unat (position_q16 v) + n * (1024 * unat (step_q16 v)) < unat (sample_count v) * 65536)"
proof (induction n arbitrary: v)
  case 0
  then show ?case by (auto simp: wf_voice_def at_end_iff)
next
  case (Suc n)
  show ?case
  proof (cases "active v")
    case False
    then show ?thesis using frames_of_idle [OF False, of n] by (simp add: mix_idle)
  next
    case True
    from mix_one [OF Suc.prems(1) True Suc.prems(2)] obtain v' out where
        r: "e1_sfx_mix_frame [v] = ([v'], out)" "wf_voice v'" "same_voice v v'"
        "active v' \<longrightarrow> unat (position_q16 v') = unat (position_q16 v) + 1024 * unat (step_q16 v)" .
    have "\<not> paused v'" using r(3) Suc.prems(2) by (simp add: same_voice_def)
    from Suc.IH [OF r(2) this] r True show ?thesis
      by (auto simp: same_voice_def algebra_simps)
  qed
qed

text \<open>Every sound ends: a playing voice that is not paused is finished after at most
  count * 64 / step frames, whatever its pitch, even at the smallest step.\<close>

theorem voice_finishes:
  assumes "wf_voice v" and "\<not> paused v"
    and "unat (sample_count v) * 64 \<le> n * unat (step_q16 v)"
  shows "\<exists>v'. frames_of n [v] = [v'] \<and> \<not> active v'"
proof -
  have "unat (sample_count v) * 65536 \<le> n * (1024 * unat (step_q16 v))" using assms(3) by simp
  with voice_progress [OF assms(1,2), of n] show ?thesis by fastforce
qed

lemma voice_finishes_witness:
  "\<exists>v'. frames_of 2 [voice_zero\<lparr>v_samples := [1, 2, 3], sample_count := 3, step_q16 := 100,
     v_volume := 10, active := True\<rparr>] = [v'] \<and> \<not> active v'"
  by (rule voice_finishes) (simp_all add: wf_voice_def voice_zero_def at_end_iff)

end
