(* ===== verification/Frame_Convert.thy ===== *)
theory Frame_Convert
  imports E1_Prelude
begin

text \<open>
  The pixel conversions of \<open>src/common/e1-frame-convert.h\<close> and \<open>e1-frame-expand.h\<close> (the C
  versions of the two expansion loops; the ARM assembly is not modelled), and the constants
  of the shared frame buffer, \<open>src/common/e1-framebuffer.h\<close>. Buffers are lists; a pointer into
  a buffer is the list with an offset, and a pointer that may be \<open>NULL\<close> is an option. \<open>>>\<close> on
  a negative \<open>int\<close> is the arithmetic shift of the target compiler, here \<open>div\<close>.
\<close>

section \<open>Data\<close>

definition E1_OSG_WIDTH :: nat where [e1_consts]: "E1_OSG_WIDTH = 640"
definition E1_OSG_HEIGHT :: nat where [e1_consts]: "E1_OSG_HEIGHT = 360"
definition E1_FRAME_MAX_WIDTH :: nat where [e1_consts]: "E1_FRAME_MAX_WIDTH = 640"
definition E1_FRAME_MAX_HEIGHT :: nat where [e1_consts]: "E1_FRAME_MAX_HEIGHT = 300"
definition E1_FRAME_MAX_PIXELS :: nat where
  [e1_consts]: "E1_FRAME_MAX_PIXELS = E1_FRAME_MAX_WIDTH * E1_FRAME_MAX_HEIGHT"
definition E1_FRAME_PALETTE_BYTES :: nat where [e1_consts]: "E1_FRAME_PALETTE_BYTES = 256 * 3"

section \<open>Operations\<close>

definition e1_clamp_rgb :: "int \<Rightarrow> u8" where
  "e1_clamp_rgb v = (if v < 0 then 0 else if v > 255 then 255 else word_of_int v)"

text \<open>Four bits of each channel under a full alpha.\<close>

definition pack_argb4444 :: "u8 \<Rightarrow> u8 \<Rightarrow> u8 \<Rightarrow> u16" where
  "pack_argb4444 red green blue =
     0xf000 OR push_bit 8 (ucast (drop_bit 4 red)) OR push_bit 4 (ucast (drop_bit 4 green)) OR
     ucast (drop_bit 4 blue)"

definition nv12_pixel :: "u8 \<Rightarrow> u8 \<Rightarrow> u8 \<Rightarrow> u16" where
  "nv12_pixel luma u v =
     (let c = int (unat luma) - 16;
          d = int (unat u) - 128;
          e = int (unat v) - 128;
          c = (if c < 0 then 0 else c);
          red = e1_clamp_rgb ((298 * c + 409 * e + 128) div 256);
          green = e1_clamp_rgb ((298 * c - 100 * d - 208 * e + 128) div 256);
          blue = e1_clamp_rgb ((298 * c + 516 * d + 128) div 256)
      in pack_argb4444 red green blue)"

definition e1_convert_nv12_argb4444 ::
    "u16 list option \<Rightarrow> u8 list option \<Rightarrow> u8 list option \<Rightarrow> nat \<Rightarrow> nat \<Rightarrow> nat \<Rightarrow> nat \<Rightarrow>
     u16 list option \<times> int" where
  "e1_convert_nv12_argb4444 output luma chroma width height luma_pitch chroma_pitch =
     (case (output, luma, chroma) of
        (Some out, Some luma, Some chroma) \<Rightarrow>
          if width \<noteq> E1_OSG_WIDTH \<or> height \<noteq> E1_OSG_HEIGHT \<or> luma_pitch < width \<or>
             chroma_pitch < width \<or> odd width \<or> odd height
          then (output, -1)
          else
            (Some (fold (\<lambda>y. fold (\<lambda>x out. out[y * width + x :=
                nv12_pixel (luma ! (y * luma_pitch + x))
                  (chroma ! (y div 2 * chroma_pitch + (x - x mod 2)))
                  (chroma ! (y div 2 * chroma_pitch + (x - x mod 2) + 1))])
              [0..<width]) [0..<height] out), 0)
      | _ \<Rightarrow> (output, -1))"

text \<open>The two supported source sizes.\<close>

definition supported_source :: "nat \<Rightarrow> nat \<Rightarrow> bool" where
  "supported_source width height \<longleftrightarrow>
     (width = 640 \<and> height = 300) \<or> (width = 426 \<and> height = 200)"

definition e1_build_scale_maps ::
    "nat \<Rightarrow> nat \<Rightarrow> u16 list \<Rightarrow> u16 list \<Rightarrow> u16 list \<times> u16 list \<times> int" where
  "e1_build_scale_maps source_width source_height x_map y_map =
     (if \<not> supported_source source_width source_height then (x_map, y_map, -1)
      else
        (fold (\<lambda>x m. m[x := word_of_nat (x * source_width div E1_OSG_WIDTH)]) [0..<E1_OSG_WIDTH] x_map,
         fold (\<lambda>y m. m[y := word_of_nat (y * source_height div E1_OSG_HEIGHT)]) [0..<E1_OSG_HEIGHT] y_map,
         0))"

definition e1_palette_to_argb4444 :: "u8 list \<Rightarrow> u8 \<Rightarrow> u16" where
  "e1_palette_to_argb4444 palette index =
     (let rgb = unat index * 3
      in pack_argb4444 (palette ! rgb) (palette ! (rgb + 1)) (palette ! (rgb + 2)))"

text \<open>The row loops, from offset \<open>d\<close> of the destination and \<open>s\<close> of the source.\<close>

definition e1_expand_i8_argb4444 ::
    "u16 list \<Rightarrow> nat \<Rightarrow> u8 list \<Rightarrow> nat \<Rightarrow> u32 list \<Rightarrow> nat \<Rightarrow> u16 list" where
  "e1_expand_i8_argb4444 out d source s palette count =
     fold (\<lambda>pixel out. out[d + pixel := ucast (palette ! unat (source ! (s + pixel)))])
       [0..<count] out"

definition e1_scale_i8_argb4444 ::
    "u16 list \<Rightarrow> nat \<Rightarrow> u8 list \<Rightarrow> nat \<Rightarrow> u16 list \<Rightarrow> u32 list \<Rightarrow> nat \<Rightarrow> u16 list" where
  "e1_scale_i8_argb4444 out d source s x_map palette count =
     fold (\<lambda>pixel out. out[d + pixel := ucast (palette ! unat (source ! (s + unat (x_map ! pixel))))])
       [0..<count] out"

definition copy_row :: "u16 list \<Rightarrow> nat \<Rightarrow> nat \<Rightarrow> nat \<Rightarrow> u16 list" where
  "copy_row out d s count = fold (\<lambda>i o'. o'[d + i := out ! (s + i)]) [0..<count] out"

definition convert_row ::
    "u8 list \<Rightarrow> nat \<Rightarrow> nat \<Rightarrow> u32 list \<Rightarrow> u16 list \<Rightarrow> u16 list \<Rightarrow> nat \<Rightarrow> u16 list \<Rightarrow> u16 list" where
  "convert_row pixels width pitch converted x_map y_map y out =
     (let source = unat (y_map ! y) * pitch; destination = y * E1_OSG_WIDTH
      in if y > 0 \<and> y_map ! y = y_map ! (y - 1)
         then copy_row out destination (destination - E1_OSG_WIDTH) E1_OSG_WIDTH
         else if width = E1_OSG_WIDTH
         then e1_expand_i8_argb4444 out destination pixels source converted E1_OSG_WIDTH
         else e1_scale_i8_argb4444 out destination pixels source x_map converted E1_OSG_WIDTH)"

definition e1_convert_indexed_argb4444 ::
    "u16 list option \<Rightarrow> u8 list option \<Rightarrow> nat \<Rightarrow> nat \<Rightarrow> nat \<Rightarrow> u8 list option \<Rightarrow> u16 list option \<Rightarrow>
     u16 list option \<Rightarrow> u16 list option \<times> int" where
  "e1_convert_indexed_argb4444 output pixels width height pitch palette x_map y_map =
     (case (output, pixels, palette, x_map, y_map) of
        (Some out, Some pixels, Some palette, Some x_map, Some y_map) \<Rightarrow>
          if pitch < width \<or> \<not> supported_source width height then (output, -1)
          else
            (let converted = map (\<lambda>i. ucast (e1_palette_to_argb4444 palette (word_of_nat i)))
                               [0..<256]
             in (Some (fold (convert_row pixels width pitch converted x_map y_map)
                         [0..<E1_OSG_HEIGHT] out), 0))
      | _ \<Rightarrow> (output, -1))"

definition e1_frame_sequence_drops :: "u32 \<Rightarrow> u32 \<Rightarrow> u32" where
  "e1_frame_sequence_drops previous current =
     (if previous = 0 then 0
      else (let delta = current - previous
            in if delta \<le> 1 \<or> delta \<ge> 0x80000000 then 0 else delta - 1))"

section \<open>Rows\<close>

lemma inj_on_shift: "inj_on (\<lambda>i. d + i) A" for d :: nat
  by (simp add: inj_on_def)

lemma row_loop:
  assumes "x < n" and "d + x < length out"
  shows "fold (\<lambda>i out. out[d + i := g i]) [0..<n] out ! (d + x) = g x"
  using fold_update_nth [of "\<lambda>i. d + i" "[0..<n]" x out g] assms by (simp add: inj_on_shift)

lemma row_loop_other:
  assumes "k < d \<or> d + n \<le> k"
  shows "fold (\<lambda>i out. out[d + i := g i]) [0..<n] out ! k = out ! k"
  using assms by (intro fold_update_other) auto

lemma u16_through_u32: "ucast (ucast w :: u32) = w" for w :: u16
  by (rule bit_word_eqI) (auto simp: bit_simps)

lemma converted_entry:
  fixes b :: u8
  shows "ucast (map (\<lambda>i. ucast (e1_palette_to_argb4444 palette (word_of_nat i)) :: u32) [0..<256] !
      unat b) = e1_palette_to_argb4444 palette b"
proof -
  have "unat b < 256" using unsigned_less [of b] by simp
  then show ?thesis by (simp add: u16_through_u32)
qed

lemma scale_maps:
  assumes "supported_source w h" and "length x0 = 640" and "length y0 = 360"
    and "e1_build_scale_maps w h x0 y0 = (xm, ym, code)"
  shows "code = 0" and "length xm = 640" and "length ym = 360"
    and "\<And>x. x < 640 \<Longrightarrow> unat (xm ! x) = x * w div 640"
    and "\<And>y. y < 360 \<Longrightarrow> unat (ym ! y) = y * h div 360"
proof -
  from assms have eqs: "xm = fold (\<lambda>x m. m[x := word_of_nat (x * w div 640)]) [0..<640] x0"
      "ym = fold (\<lambda>y m. m[y := word_of_nat (y * h div 360)]) [0..<360] y0" "code = 0"
    by (simp_all add: e1_build_scale_maps_def e1_consts)
  from eqs(3) show "code = 0" .
  from eqs assms(2) show "length xm = 640" by simp
  from eqs assms(3) show "length ym = 360" by simp
  have wh: "w \<le> 640" "h \<le> 300" using assms(1) by (auto simp: supported_source_def)
  have small: "unat (word_of_nat (i * n div m) :: u16) = i * n div m" if "i < m" "n \<le> 640" for i n m
  proof -
    have "i * n \<le> m * 640" using that by (intro mult_le_mono) simp_all
    then have "i * n div m \<le> m * 640 div m" by (rule div_le_mono)
    then have "i * n div m \<le> 640" using that by simp
    then show ?thesis by (simp add: unsigned_of_nat take_bit_nat_eq_self)
  qed
  show "unat (xm ! x) = x * w div 640" if "x < 640" for x
    using fold_update_nth [of "\<lambda>i. i" "[0..<640]" x x0 "\<lambda>x. word_of_nat (x * w div 640)"]
      assms(2) that small [OF that wh(1)] eqs(1) by simp
  show "unat (ym ! y) = y * h div 360" if "y < 360" for y
    using fold_update_nth [of "\<lambda>i. i" "[0..<360]" y y0 "\<lambda>y. word_of_nat (y * h div 360)"]
      assms(3) that small [of y 360 h] wh(2) eqs(2) by simp
qed

text \<open>The reference: nearest-neighbour scaling, pixel by pixel.\<close>

definition scaled_pixel :: "u8 list \<Rightarrow> u8 list \<Rightarrow> nat \<Rightarrow> nat \<Rightarrow> nat \<Rightarrow> nat \<Rightarrow> nat \<Rightarrow> u16" where
  "scaled_pixel pixels palette w h pitch x y =
     e1_palette_to_argb4444 palette (pixels ! (y * h div 360 * pitch + x * w div 640))"

lemma length_convert_row [simp]: "length (convert_row p w pitch c xm ym y out) = length out"
  by (simp add: convert_row_def copy_row_def e1_expand_i8_argb4444_def e1_scale_i8_argb4444_def Let_def)

lemma convert_row_other:
  "k < y * 640 \<Longrightarrow> convert_row p w pitch c xm ym y out ! k = out ! k"
  unfolding convert_row_def copy_row_def e1_expand_i8_argb4444_def e1_scale_i8_argb4444_def Let_def
    E1_OSG_WIDTH_def
  by (simp add: row_loop_other)

lemma convert_row_pixel:
  assumes sup: "supported_source w h" and len: "length out = 360 * 640" and x: "x < 640" and y: "y < 360"
    and xm: "\<And>x. x < 640 \<Longrightarrow> unat (xm ! x) = x * w div 640"
    and ym: "\<And>y. y < 360 \<Longrightarrow> unat (ym ! y) = y * h div 360"
    and c: "c = map (\<lambda>i. ucast (e1_palette_to_argb4444 palette (word_of_nat i))) [0..<256]"
    and above: "\<And>x. 0 < y \<Longrightarrow> x < 640 \<Longrightarrow>
      out ! ((y - 1) * 640 + x) = scaled_pixel pixels palette w h pitch x (y - 1)"
  shows "convert_row pixels w pitch c xm ym y out ! (y * 640 + x) = scaled_pixel pixels palette w h pitch x y"
proof -
  have idx: "y * 640 + x < length out" using grid_index_less [OF x y] len by simp
  have row: "unat (ym ! y) * pitch = y * h div 360 * pitch" using ym [OF y] by simp
  show ?thesis
  proof (cases "y > 0 \<and> ym ! y = ym ! (y - 1)")
    case True
    then have "y * h div 360 = (y - 1) * h div 360" using ym [OF y] ym [of "y - 1"] y by simp
    moreover have "y * 640 - 640 = (y - 1) * 640" using True by (simp add: diff_mult_distrib)
    moreover have "convert_row pixels w pitch c xm ym y out ! (y * 640 + x) = out ! (y * 640 - 640 + x)"
      using True row_loop [OF x idx, of "\<lambda>i. out ! (y * 640 - 640 + i)"]
      by (simp add: convert_row_def copy_row_def E1_OSG_WIDTH_def Let_def)
    ultimately show ?thesis using above [OF _ x] True by (simp add: scaled_pixel_def)
  next
    case False
    show ?thesis
    proof (cases "w = 640")
      case True
      with False have "convert_row pixels w pitch c xm ym y out ! (y * 640 + x) =
          ucast (c ! unat (pixels ! (unat (ym ! y) * pitch + x)))"
        using row_loop [OF x idx, of "\<lambda>i. ucast (c ! unat (pixels ! (unat (ym ! y) * pitch + i)))"]
        by (auto simp: convert_row_def e1_expand_i8_argb4444_def E1_OSG_WIDTH_def Let_def)
      then show ?thesis using True row unfolding c scaled_pixel_def by (simp only: converted_entry) simp
    next
      case w: False
      with False have "convert_row pixels w pitch c xm ym y out ! (y * 640 + x) =
          ucast (c ! unat (pixels ! (unat (ym ! y) * pitch + unat (xm ! x))))"
        using row_loop [OF x idx,
          of "\<lambda>i. ucast (c ! unat (pixels ! (unat (ym ! y) * pitch + unat (xm ! i))))"]
        by (auto simp: convert_row_def e1_scale_i8_argb4444_def E1_OSG_WIDTH_def Let_def)
      then show ?thesis using row xm [OF x] unfolding c scaled_pixel_def by (simp only: converted_entry)
    qed
  qed
qed

lemma convert_rows:
  assumes sup: "supported_source w h" and len: "length out = 360 * 640"
    and xm: "\<And>x. x < 640 \<Longrightarrow> unat (xm ! x) = x * w div 640"
    and ym: "\<And>y. y < 360 \<Longrightarrow> unat (ym ! y) = y * h div 360"
    and c: "c = map (\<lambda>i. ucast (e1_palette_to_argb4444 palette (word_of_nat i))) [0..<256]"
  shows "n \<le> 360 \<Longrightarrow> length (fold (convert_row pixels w pitch c xm ym) [0..<n] out) = 360 * 640 \<and>
    (\<forall>y<n. \<forall>x<640. fold (convert_row pixels w pitch c xm ym) [0..<n] out ! (y * 640 + x) =
       scaled_pixel pixels palette w h pitch x y)"
proof (induction n)
  case 0
  with len show ?case by simp
next
  case (Suc n)
  let ?o = "fold (convert_row pixels w pitch c xm ym) [0..<n] out"
  from Suc have ih: "length ?o = 360 * 640"
      "\<And>y x. y < n \<Longrightarrow> x < 640 \<Longrightarrow> ?o ! (y * 640 + x) = scaled_pixel pixels palette w h pitch x y"
    by simp_all
  have "convert_row pixels w pitch c xm ym n ?o ! (y * 640 + x) = scaled_pixel pixels palette w h pitch x y"
    if "y < Suc n" "x < 640" for y x
  proof (cases "y = n")
    case True
    have "n < 360" using Suc.prems by simp
    with convert_row_pixel [OF sup ih(1) that(2) _ xm ym c, where y = n and pitch = pitch and pixels = pixels] ih(2) True
    show ?thesis by simp
  next
    case False
    then have "y < n" using that by simp
    moreover from this have "y * 640 + x < n * 640" using grid_index_less [OF that(2)] by simp
    ultimately show ?thesis using ih(2) that by (simp add: convert_row_other)
  qed
  with ih(1) show ?case by simp
qed

text \<open>C31. The optimised conversion (palette converted once, repeated rows copied, rows of a 640
  pixel source expanded without the column map) computes exactly the reference: every pixel
  of the 640 by 360 output is the palette colour of the nearest source pixel, with every
  source index inside the source frame, for both supported sizes and every pitch.\<close>

theorem convert_indexed_reference:
  assumes "supported_source w h" and "w \<le> pitch" and "length x0 = 640" and "length y0 = 360"
    and "length out = 360 * 640" and "e1_build_scale_maps w h x0 y0 = (xm, ym, code)"
    and "x < 640" and "y < 360"
  shows "\<exists>out'. e1_convert_indexed_argb4444 (Some out) (Some pixels) w h pitch (Some palette)
      (Some xm) (Some ym) = (Some out', 0) \<and> length out' = 360 * 640 \<and>
    out' ! (y * 640 + x) = scaled_pixel pixels palette w h pitch x y \<and>
    y * h div 360 * pitch + x * w div 640 < h * pitch"
proof -
  note maps = scale_maps [OF assms(1,3,4,6)]
  let ?c = "map (\<lambda>i. ucast (e1_palette_to_argb4444 palette (word_of_nat i)) :: u32) [0..<256]"
  let ?o = "fold (convert_row pixels w pitch ?c xm ym) [0..<360] out"
  have rows: "length ?o = 360 * 640 \<and> ?o ! (y * 640 + x) = scaled_pixel pixels palette w h pitch x y"
    using convert_rows [OF assms(1,5) maps(4,5) refl, where n = 360 and pixels = pixels and pitch = pitch and palette = palette] assms(7,8) by simp
  have "0 < w" "0 < h" using assms(1) by (auto simp: supported_source_def)
  then have "x * w div 640 < w" and "y * h div 360 < h"
    using assms(7,8) by (simp_all add: div_less_iff_less_mult)
  then have "y * h div 360 * pitch + x * w div 640 < h * pitch"
    using assms(2) by (intro grid_index_less) simp_all
  moreover have "e1_convert_indexed_argb4444 (Some out) (Some pixels) w h pitch (Some palette)
      (Some xm) (Some ym) = (Some ?o, 0)"
    using assms(1,2) by (simp add: e1_convert_indexed_argb4444_def E1_OSG_HEIGHT_def Let_def)
  ultimately show ?thesis using rows by blast
qed

lemma convert_indexed_reference_witness:
  "case e1_build_scale_maps 426 200 (replicate 640 0) (replicate 360 0) of (xm, ym, code) \<Rightarrow>
     (\<exists>out'. e1_convert_indexed_argb4444 (Some (replicate 230400 0)) (Some (replicate 85200 7)) 426 200 426
       (Some (replicate 768 0xc0)) (Some xm) (Some ym) = (Some out', 0) \<and>
     out' ! (7 * 640 + 639) = scaled_pixel (replicate 85200 7) (replicate 768 0xc0) 426 200 426 639 7)"
proof -
  obtain xm ym code where m: "e1_build_scale_maps 426 200 (replicate 640 0) (replicate 360 0) =
      (xm, ym, code)"
    by (cases "e1_build_scale_maps 426 200 (replicate 640 0) (replicate 360 0)")
  have sup: "supported_source 426 200" by (simp add: supported_source_def)
  have "length (replicate 230400 (0 :: u16)) = 360 * 640" by simp
  from convert_indexed_reference [OF sup _ _ _ this m, of 426 639 7 "replicate 85200 7"
      "replicate 768 0xc0"] m
  show ?thesis by auto
qed

section \<open>NV12\<close>

lemma pack_alpha: "drop_bit 12 (pack_argb4444 r g b) = (0xf :: u16)"
proof (rule bit_word_eqI)
  fix n assume "n < LENGTH(16)"
  have "bit (0xf :: u16) n \<longleftrightarrow> n < 4" 
  proof -
    have "(0xf :: u16) = mask 4" by (simp add: mask_eq_exp_minus_1)
    then show ?thesis by (simp only: bit_mask_iff) auto
  qed
  moreover have "bit (0xf000 :: u16) (12 + n) \<longleftrightarrow> n < 4"
  proof -
    have "(0xf000 :: u16) = push_bit 12 (mask 4)" by (simp add: mask_eq_exp_minus_1)
    then show ?thesis using \<open>n < LENGTH(16)\<close> by (simp only: bit_push_bit_iff bit_mask_iff) auto
  qed
  ultimately show "bit (drop_bit 12 (pack_argb4444 r g b)) n = bit (0xf :: u16) n"
    by (auto simp: pack_argb4444_def bit_simps dest!: bit_imp_le_length)
qed

lemma clamp_value: "unat (e1_clamp_rgb v) = nat (max 0 (min 255 v))"
  by (auto simp: e1_clamp_rgb_def unsigned_of_int take_bit_int_eq_self)

text \<open>Neutral chroma gives a grey: all three channels are the same clamped luma.\<close>

lemma nv12_grey:
  "nv12_pixel luma 128 128 =
     (let g = e1_clamp_rgb ((298 * max 0 (int (unat luma) - 16) + 128) div 256)
      in pack_argb4444 g g g)"
  by (simp add: nv12_pixel_def Let_def max_def)

lemma nested_rows_nth:
  assumes "x < w" and "y < h" and "length out = h * w"
  shows "fold (\<lambda>y. fold (\<lambda>x out. out[y * w + x := g x y]) [0..<w]) [0..<h] out ! (y * w + x) = g x y"
proof -
  let ?f = "\<lambda>p. fst p * w + snd p" and ?ps = "List.product [0..<h] [0..<w]"
  have inj: "inj_on ?f (set ?ps)"
  proof (rule inj_onI)
    fix p q
    assume "p \<in> set ?ps" and "q \<in> set ?ps" and eq: "?f p = ?f q"
    then have "snd p < w" and "snd q < w" by auto
    from grid_index_inj [OF this eq] show "p = q" by (simp add: prod_eq_iff)
  qed
  have "(y, x) \<in> set ?ps" using assms by simp
  moreover have "?f (y, x) < length out" using assms grid_index_less by simp
  ultimately show ?thesis
    using fold_update_nth [OF inj, of "(y, x)" out "\<lambda>p. g (snd p) (fst p)"]
    by (simp only: fold_nested [of "\<lambda>y x out. out[y * w + x := g x y]"] fst_conv snd_conv)
qed

text \<open>The snapshot conversion writes, at every pixel of the 640 by 360 frame, the colour of
  its luma sample and of the chroma pair of its 2 by 2 block, always with full alpha; the
  indices it reads stay inside the two planes for every pitch of at least the width.\<close>

theorem nv12_pixels:
  assumes "640 \<le> lp" and "640 \<le> cp" and "length out = 360 * 640" and "x < 640" and "y < 360"
  shows "\<exists>out'. e1_convert_nv12_argb4444 (Some out) (Some luma) (Some chroma) 640 360 lp cp =
      (Some out', 0) \<and>
    out' ! (y * 640 + x) = nv12_pixel (luma ! (y * lp + x))
      (chroma ! (y div 2 * cp + x div 2 * 2)) (chroma ! (y div 2 * cp + x div 2 * 2 + 1)) \<and>
    drop_bit 12 (out' ! (y * 640 + x)) = 0xf \<and>
    y * lp + x < 360 * lp \<and> y div 2 * cp + x div 2 * 2 + 1 < 180 * cp"
proof -
  let ?g = "\<lambda>x y. nv12_pixel (luma ! (y * lp + x)) (chroma ! (y div 2 * cp + (x - x mod 2)))
      (chroma ! (y div 2 * cp + (x - x mod 2) + 1))"
  let ?o = "fold (\<lambda>y. fold (\<lambda>x out. out[y * 640 + x := ?g x y]) [0..<640]) [0..<360] out"
  have run: "e1_convert_nv12_argb4444 (Some out) (Some luma) (Some chroma) 640 360 lp cp = (Some ?o, 0)"
    using assms(1,2) unfolding e1_convert_nv12_argb4444_def E1_OSG_WIDTH_def E1_OSG_HEIGHT_def by simp
  have even: "x - x mod 2 = x div 2 * 2" by (simp add: minus_mod_eq_div_mult)
  have at: "?o ! (y * 640 + x) = ?g x y"
    using nested_rows_nth [OF assms(4,5,3), of ?g] .
  have alpha: "drop_bit 12 (?g x y) = 0xf" by (simp only: nv12_pixel_def Let_def pack_alpha)
  have "y * lp + x < 360 * lp" using assms by (intro grid_index_less) simp_all
  moreover have "y div 2 * cp + (x div 2 * 2 + 1) < 180 * cp"
  proof (rule grid_index_less)
    show "x div 2 * 2 + 1 < cp" using assms(2,4) by presburger
    show "y div 2 < 180" using assms(5) by linarith
  qed
  ultimately show ?thesis using run at alpha unfolding even by (intro exI [of _ ?o]) simp
qed

lemma nv12_pixels_witness:
  "\<exists>out'. e1_convert_nv12_argb4444 (Some (replicate 230400 0)) (Some (replicate 230400 0x90))
      (Some (replicate 115200 0x80)) 640 360 640 640 = (Some out', 0) \<and>
    drop_bit 12 (out' ! (3 * 640 + 5)) = 0xf"
  using nv12_pixels [of 640 640 "replicate 230400 0" 5 3 "replicate 230400 0x90" "replicate 115200 0x80"]
  by auto

section \<open>Skipped frames\<close>

lemma sequence_drops_value:
  assumes "previous \<noteq> 0" and "1 \<le> k" and "k < 2 ^ 31"
  shows "unat (e1_frame_sequence_drops previous (previous + word_of_nat k)) = k - 1"
proof -
  have k: "unat (word_of_nat k :: u32) = k"
    using assms(3) by (simp add: unsigned_of_nat take_bit_nat_eq_self)
  then have pos: "(word_of_nat k :: u32) \<noteq> 0" using assms(2) by auto
  show ?thesis
  proof (cases "k = 1")
    case True
    then show ?thesis by (simp add: e1_frame_sequence_drops_def)
  next
    case False
    then have "\<not> (word_of_nat k :: u32) \<le> 1" "\<not> (0x80000000 :: u32) \<le> word_of_nat k"
      using k assms by (simp_all add: word_le_nat_alt)
    then show ?thesis using assms(1) k pos
      by (simp add: e1_frame_sequence_drops_def Let_def unat_minus_one)
  qed
qed

end
