(* ===== verification/Frame_Buffer.thy ===== *)
theory Frame_Buffer
  imports Frame_Convert Seqlock
begin

text \<open>
  The frame buffer shared by the game and the camera process: its layout
  (\<open>src/common/e1-framebuffer.h\<close>), the game's writer (\<open>BeginFrameWrite\<close> and \<open>PublishFrame\<close> of
  \<open>src/platform/e1/i_video_e1.c\<close>) and the camera's reader (\<open>convert_doom_frame\<close> of
  \<open>src/camera/e1-doom-injected.c\<close>). The writer holds the sequence number of slot 0 odd while
  the game draws. As for the audio ring, the writer is also given store by store, the reader
  by the state of the buffer at each of its loads, and the buffer is an instance of the
  sequence lock.
\<close>

section \<open>Data\<close>

definition E1_FRAME_MAGIC :: u32 where [e1_consts]: "E1_FRAME_MAGIC = 0x4531444d"
definition E1_FRAME_VERSION :: u32 where [e1_consts]: "E1_FRAME_VERSION = 1"
definition E1_STREAM_DEFAULT_FRAME_RATE :: u32 where [e1_consts]: "E1_STREAM_DEFAULT_FRAME_RATE = 10"

record e1_frame_slot =
  fr_sequence :: u32
  fr_width :: u32
  fr_height :: u32
  fr_pitch :: u32
  fr_palette :: "u8 list"
  fr_pixels :: "u8 list"

record e1_framebuffer =
  fb_magic :: u32
  fb_version :: u32
  fb_structure_size :: u32
  active_slot :: u32
  frame_sequence :: u32
  fb_slot :: "e1_frame_slot list"

definition sizeof_frame_slot :: nat where
  "sizeof_frame_slot = 4 * 4 + E1_FRAME_PALETTE_BYTES + E1_FRAME_MAX_PIXELS"

definition sizeof_framebuffer :: u32 where
  "sizeof_framebuffer = word_of_nat (8 * 4 + 2 * sizeof_frame_slot)"

definition upd_frame :: "(e1_frame_slot \<Rightarrow> e1_frame_slot) \<Rightarrow> e1_framebuffer \<Rightarrow> e1_framebuffer" where
  "upd_frame f fb = fb\<lparr>fb_slot := (fb_slot fb)[0 := f (fb_slot fb ! 0)]\<rparr>"

text \<open>The buffer after \<open>InitFramePublisher\<close>: zeroed, with its header.\<close>

definition zero_frame_slot :: e1_frame_slot where
  "zero_frame_slot = \<lparr>fr_sequence = 0, fr_width = 0, fr_height = 0, fr_pitch = 0,
     fr_palette = replicate E1_FRAME_PALETTE_BYTES 0, fr_pixels = replicate E1_FRAME_MAX_PIXELS 0\<rparr>"

definition init_framebuffer :: e1_framebuffer where
  "init_framebuffer = \<lparr>fb_magic = E1_FRAME_MAGIC, fb_version = E1_FRAME_VERSION,
     fb_structure_size = sizeof_framebuffer, active_slot = 0, frame_sequence = 0,
     fb_slot = [zero_frame_slot, zero_frame_slot]\<rparr>"

section \<open>The writer\<close>

definition begin_frame_write :: "e1_framebuffer option \<Rightarrow> e1_framebuffer option" where
  "begin_frame_write fb = (case fb of None \<Rightarrow> None
     | Some fb \<Rightarrow> Some (upd_frame (\<lambda>s. s\<lparr>fr_sequence := (fr_sequence s AND NOT 1) + 1\<rparr>) fb))"

text \<open>\<open>PublishFrame\<close> up to the readiness marker, with the video geometry and the palette.\<close>

definition publish_video_frame ::
    "e1_framebuffer option \<Rightarrow> u32 \<Rightarrow> u32 \<Rightarrow> u32 \<Rightarrow> u8 list \<Rightarrow> e1_framebuffer option" where
  "publish_video_frame fb width height pitch palette_rgb = (case fb of None \<Rightarrow> None
     | Some fb \<Rightarrow>
        (let sequence = fr_sequence (fb_slot fb ! 0);
             (sequence, fb) =
               (if sequence AND 1 = 0 then
                  (let sequence = (sequence AND NOT 1) + 1
                   in (sequence, upd_frame (\<lambda>s. s\<lparr>fr_sequence := sequence\<rparr>) fb))
                else (sequence, fb));
             fb = upd_frame (\<lambda>s. s\<lparr>fr_width := width\<rparr>) fb;
             fb = upd_frame (\<lambda>s. s\<lparr>fr_height := height\<rparr>) fb;
             fb = upd_frame (\<lambda>s. s\<lparr>fr_pitch := pitch\<rparr>) fb;
             fb = upd_frame (\<lambda>s. s\<lparr>fr_palette := palette_rgb\<rparr>) fb;
             fb = upd_frame (\<lambda>s. s\<lparr>fr_sequence := sequence + 1\<rparr>) fb;
             fb = fb\<lparr>active_slot := 0\<rparr>
         in Some (fb\<lparr>frame_sequence := frame_sequence fb + 1\<rparr>)))"

text \<open>
  The writer store by store. While the number is odd the game draws and the publisher stores
  the geometry and the palette, in any order; then the number becomes even and the frame is
  counted. \<open>fw_frames\<close> records the slot as it was closed for each frame number.
\<close>

datatype frame_pc = FP_Open | FP_Closed | FP_Counted

record frame_world =
  fw_buffer :: e1_framebuffer
  fw_pc :: frame_pc
  fw_frames :: "u32 \<Rightarrow> e1_frame_slot option"

abbreviation fw_slot :: "frame_world \<Rightarrow> e1_frame_slot" where
  "fw_slot w \<equiv> fb_slot (fw_buffer w) ! 0"

inductive frame_step :: "frame_world \<Rightarrow> frame_world \<Rightarrow> bool" where
  begin_write: "fw_pc w = FP_Counted \<Longrightarrow>
    frame_step w (w\<lparr>fw_pc := FP_Open, fw_buffer := upd_frame
      (\<lambda>s. s\<lparr>fr_sequence := (fr_sequence s AND NOT 1) + 1\<rparr>) (fw_buffer w)\<rparr>)"
| draw: "fw_pc w = FP_Open \<Longrightarrow> frame_step w (w\<lparr>fw_buffer := upd_frame
      (\<lambda>s. s\<lparr>fr_pixels := (fr_pixels s)[i := v]\<rparr>) (fw_buffer w)\<rparr>)"
| set_palette: "fw_pc w = FP_Open \<Longrightarrow> frame_step w (w\<lparr>fw_buffer := upd_frame
      (\<lambda>s. s\<lparr>fr_palette := (fr_palette s)[i := v]\<rparr>) (fw_buffer w)\<rparr>)"
| set_width: "fw_pc w = FP_Open \<Longrightarrow> frame_step w (w\<lparr>fw_buffer := upd_frame
      (\<lambda>s. s\<lparr>fr_width := n\<rparr>) (fw_buffer w)\<rparr>)"
| set_height: "fw_pc w = FP_Open \<Longrightarrow> frame_step w (w\<lparr>fw_buffer := upd_frame
      (\<lambda>s. s\<lparr>fr_height := n\<rparr>) (fw_buffer w)\<rparr>)"
| set_pitch: "fw_pc w = FP_Open \<Longrightarrow> frame_step w (w\<lparr>fw_buffer := upd_frame
      (\<lambda>s. s\<lparr>fr_pitch := n\<rparr>) (fw_buffer w)\<rparr>)"
| close_frame: "fw_pc w = FP_Open \<Longrightarrow>
    frame_step w (w\<lparr>fw_pc := FP_Closed,
      fw_frames := (fw_frames w)(frame_sequence (fw_buffer w) + 1 \<mapsto> fw_slot w),
      fw_buffer := upd_frame (\<lambda>s. s\<lparr>fr_sequence := fr_sequence s + 1\<rparr>) (fw_buffer w)\<rparr>)"
| count_frame: "fw_pc w = FP_Closed \<Longrightarrow>
    frame_step w (w\<lparr>fw_pc := FP_Counted, fw_buffer := (fw_buffer w)\<lparr>active_slot := 0,
      frame_sequence := frame_sequence (fw_buffer w) + 1\<rparr>\<rparr>)"

text \<open>The geometry, palette and pixels of a slot.\<close>

definition frame_payload :: "e1_frame_slot \<Rightarrow> u32 \<times> u32 \<times> u32 \<times> u8 list \<times> u8 list" where
  "frame_payload s = (fr_width s, fr_height s, fr_pitch s, fr_palette s, fr_pixels s)"

definition frame_inv :: "frame_world \<Rightarrow> bool" where
  "frame_inv w \<longleftrightarrow> length (fb_slot (fw_buffer w)) = 2 \<and> active_slot (fw_buffer w) = 0 \<and>
     length (fr_palette (fw_slot w)) = E1_FRAME_PALETTE_BYTES \<and>
     length (fr_pixels (fw_slot w)) = E1_FRAME_MAX_PIXELS \<and>
     (case fw_pc w of
        FP_Open \<Rightarrow> odd (fr_sequence (fw_slot w))
      | FP_Closed \<Rightarrow> even (fr_sequence (fw_slot w)) \<and>
          (\<exists>s. fw_frames w (frame_sequence (fw_buffer w) + 1) = Some s \<and>
             frame_payload s = frame_payload (fw_slot w))
      | FP_Counted \<Rightarrow> even (fr_sequence (fw_slot w)) \<and>
          (frame_sequence (fw_buffer w) = 0 \<or>
           (\<exists>s. fw_frames w (frame_sequence (fw_buffer w)) = Some s \<and>
             frame_payload s = frame_payload (fw_slot w))))"

lemma upd_frame_simps [simp]:
  "length (fb_slot (upd_frame f fb)) = length (fb_slot fb)"
  "0 < length (fb_slot fb) \<Longrightarrow> fb_slot (upd_frame f fb) ! 0 = f (fb_slot fb ! 0)"
  "active_slot (upd_frame f fb) = active_slot fb"
  "frame_sequence (upd_frame f fb) = frame_sequence fb"
  "fb_magic (upd_frame f fb) = fb_magic fb"
  "fb_version (upd_frame f fb) = fb_version fb"
  "fb_structure_size (upd_frame f fb) = fb_structure_size fb"
  by (simp_all add: upd_frame_def)

lemma frame_inv_step: "frame_inv w \<Longrightarrow> frame_step w w' \<Longrightarrow> frame_inv w'"
proof -
  assume inv: "frame_inv w" and st: "frame_step w w'"
  then have two: "0 < length (fb_slot (fw_buffer w))" by (simp add: frame_inv_def)
  from st show ?thesis
  proof cases
    case begin_write
    with inv two seq_mark_is_odd [of "fr_sequence (fw_slot w)"] show ?thesis
      by (simp add: frame_inv_def del: bit.conj_disj_distrib)
  qed (use inv two in \<open>auto simp: frame_inv_def frame_payload_def\<close>)
qed

definition frame_move :: "frame_world \<Rightarrow> frame_world \<Rightarrow> bool" where
  "frame_move w w' \<longleftrightarrow> frame_inv w \<and> frame_step w w'"

lemma frame_move_shape:
  assumes "frame_move w w'"
  shows "(even (fr_sequence (fw_slot w)) \<longrightarrow> frame_payload (fw_slot w') = frame_payload (fw_slot w)) \<and>
    (fr_sequence (fw_slot w') = fr_sequence (fw_slot w) \<or>
     fr_sequence (fw_slot w') = fr_sequence (fw_slot w) + 1)"
proof -
  from assms have inv: "frame_inv w" and st: "frame_step w w'" by (simp_all add: frame_move_def)
  then have two: "0 < length (fb_slot (fw_buffer w))" by (simp add: frame_inv_def)
  from st show ?thesis
  proof cases
    case begin_write
    with inv have "even (fr_sequence (fw_slot w))" by (simp add: frame_inv_def)
    with begin_write two show ?thesis
      using seq_mark_even [of "fr_sequence (fw_slot w)"] by (simp add: frame_payload_def)
  qed (use inv two in \<open>auto simp: frame_inv_def frame_payload_def\<close>)
qed

interpretation frame_slot: seqlock
    "\<lambda>w. fr_sequence (fw_slot w)" "\<lambda>w. frame_payload (fw_slot w)" frame_move
  by unfold_locales (use frame_move_shape in \<open>blast+\<close>)

section \<open>The reader\<close>

text \<open>The part of the camera's \<open>struct media_state\<close> that \<open>convert_doom_frame\<close> uses.\<close>

record frame_source =
  source_open :: bool
  last_frame_sequence :: u32
  source_width :: u32
  source_height :: u32
  x_map :: "u16 list"
  y_map :: "u16 list"
  video_retries :: u32
  video_source_drops :: u32
  video_source_frames :: u32

text \<open>
  The buffer at each load of the reader, in program order: the frame number, the active slot,
  the sequence number; then the geometry (\<open>at_meta i\<close>, the i-th load of a width, height or
  pitch), the palette and the pixels, in any order; the sequence number, the active slot and
  the frame number again. A pixel the scaler needs twice is loaded once.
\<close>

record frame_view =
  at_count :: e1_framebuffer
  at_active :: e1_framebuffer
  at_seq :: e1_framebuffer
  at_meta :: "nat \<Rightarrow> e1_framebuffer"
  at_palette :: "nat \<Rightarrow> e1_framebuffer"
  at_pixel :: "nat \<Rightarrow> e1_framebuffer"
  at_seq_again :: e1_framebuffer
  at_active_again :: e1_framebuffer
  at_count_again :: e1_framebuffer

definition loaded_palette :: "frame_view \<Rightarrow> nat \<Rightarrow> u8 list" where
  "loaded_palette v k =
     map (\<lambda>i. fr_palette (fb_slot (at_palette v i) ! k) ! i) [0..<E1_FRAME_PALETTE_BYTES]"

definition loaded_pixels :: "frame_view \<Rightarrow> nat \<Rightarrow> u8 list" where
  "loaded_pixels v k =
     map (\<lambda>i. fr_pixels (fb_slot (at_pixel v i) ! k) ! i) [0..<E1_FRAME_MAX_PIXELS]"

definition convert_doom_frame ::
    "frame_source \<Rightarrow> frame_view \<Rightarrow> u16 list option \<Rightarrow> frame_source \<times> u16 list option \<times> int" where
  "convert_doom_frame state v output =
     (if \<not> source_open state \<or> output = None then (state, output, -1)
      else
        (let number = frame_sequence (at_count v)
         in if number = 0 \<or> number = last_frame_sequence state
            then (state\<lparr>video_retries := video_retries state + 1\<rparr>, output, 1)
            else
              (let slot_index = active_slot (at_active v) AND 1;
                   k = unat slot_index;
                   slot_sequence = fr_sequence (fb_slot (at_seq v) ! k);
                   meta = (\<lambda>i. fb_slot (at_meta v i) ! k)
               in if slot_sequence AND 1 \<noteq> 0
                  then (state\<lparr>video_retries := video_retries state + 1\<rparr>, output, 1)
                  else if fr_width (meta 0) \<noteq> source_width state \<or>
                     fr_height (meta 1) \<noteq> source_height state \<or>
                     fr_pitch (meta 2) < fr_width (meta 3) \<or>
                     unat (fr_pitch (meta 4)) * unat (fr_height (meta 5)) > E1_FRAME_MAX_PIXELS
                  then (state, output, -1)
                  else
                    (let (output, status) = e1_convert_indexed_argb4444 output
                           (Some (loaded_pixels v k)) (unat (fr_width (meta 6)))
                           (unat (fr_height (meta 7))) (unat (fr_pitch (meta 8)))
                           (Some (loaded_palette v k)) (Some (x_map state)) (Some (y_map state))
                     in if status \<noteq> 0 \<or> fr_sequence (fb_slot (at_seq_again v) ! k) \<noteq> slot_sequence \<or>
                           active_slot (at_active_again v) \<noteq> slot_index \<or>
                           frame_sequence (at_count_again v) \<noteq> number
                        then (if status = 0 then state\<lparr>video_retries := video_retries state + 1\<rparr>
                              else state, output, if status \<noteq> 0 then -1 else 1)
                        else (state\<lparr>video_source_drops := video_source_drops state +
                                      e1_frame_sequence_drops (last_frame_sequence state) number,
                                    last_frame_sequence := number,
                                    video_source_frames := video_source_frames state + 1\<rparr>,
                              output, 0)))))"

text \<open>A view taken along a run of the writer.\<close>

definition frame_view_taken :: "frame_view \<Rightarrow> (nat \<Rightarrow> frame_world) \<Rightarrow> nat \<Rightarrow> bool" where
  "frame_view_taken v s n \<longleftrightarrow> (\<exists>t0 t1 t2 tm tp tx t3 t4 t5.
     t0 \<le> t1 \<and> t1 \<le> t2 \<and> (\<forall>i. t2 \<le> tm i \<and> tm i \<le> t3) \<and> (\<forall>i. t2 \<le> tp i \<and> tp i \<le> t3) \<and>
     (\<forall>i. t2 \<le> tx i \<and> tx i \<le> t3) \<and> t2 \<le> t3 \<and> t3 \<le> t4 \<and> t4 \<le> t5 \<and> t5 \<le> n \<and>
     at_count v = fw_buffer (s t0) \<and> at_active v = fw_buffer (s t1) \<and> at_seq v = fw_buffer (s t2) \<and>
     (\<forall>i. at_meta v i = fw_buffer (s (tm i))) \<and> (\<forall>i. at_palette v i = fw_buffer (s (tp i))) \<and>
     (\<forall>i. at_pixel v i = fw_buffer (s (tx i))) \<and> at_seq_again v = fw_buffer (s t3) \<and>
     at_active_again v = fw_buffer (s t4) \<and> at_count_again v = fw_buffer (s t5))"

lemma frame_run_moves: "is_run frame_step s n \<Longrightarrow> frame_inv (s 0) \<Longrightarrow> is_run frame_move s n"
  using is_run_inv [of frame_step s n frame_inv] frame_inv_step
  by (simp add: is_run_def frame_move_def)

text \<open>The frame counter only counts up.\<close>

lemma count_advance:
  "is_run frame_move s n \<Longrightarrow> \<exists>k\<le>n. frame_sequence (fw_buffer (s n)) =
     frame_sequence (fw_buffer (s 0)) + word_of_nat k"
proof (induction n)
  case (Suc n)
  then obtain k where k: "k \<le> n" "frame_sequence (fw_buffer (s n)) =
      frame_sequence (fw_buffer (s 0)) + word_of_nat k" and "frame_step (s n) (s (Suc n))"
    by (auto simp: is_run_Suc frame_move_def)
  then have "frame_sequence (fw_buffer (s (Suc n))) = frame_sequence (fw_buffer (s n)) \<or>
      frame_sequence (fw_buffer (s (Suc n))) = frame_sequence (fw_buffer (s n)) + 1"
    by (elim frame_step.cases) simp_all
  then show ?case
  proof
    assume "frame_sequence (fw_buffer (s (Suc n))) = frame_sequence (fw_buffer (s n))"
    with k show ?thesis by (intro exI [of _ k]) simp
  next
    assume "frame_sequence (fw_buffer (s (Suc n))) = frame_sequence (fw_buffer (s n)) + 1"
    with k show ?thesis by (intro exI [of _ "Suc k"]) simp
  qed
qed (intro exI [of _ 0], simp)

lemma count_constant:
  assumes run: "is_run frame_move s n" and n: "n < 2 ^ 32" and "a \<le> b" "b \<le> c" "c \<le> n"
    and eq: "frame_sequence (fw_buffer (s c)) = frame_sequence (fw_buffer (s a))"
  shows "frame_sequence (fw_buffer (s b)) = frame_sequence (fw_buffer (s a))"
proof -
  have sub: "is_run frame_move (\<lambda>i. s (x + i)) m" if "x + m \<le> n" for x m
    using run that by (auto simp: is_run_def)
  from count_advance [OF sub [of a "b - a"]] assms obtain k where k: "k \<le> b - a"
      "frame_sequence (fw_buffer (s b)) = frame_sequence (fw_buffer (s a)) + word_of_nat k" by auto
  from count_advance [OF sub [of b "c - b"]] assms obtain l where l: "l \<le> c - b"
      "frame_sequence (fw_buffer (s c)) = frame_sequence (fw_buffer (s b)) + word_of_nat l" by auto
  have "(word_of_nat (k + l) :: u32) = 0" using k(2) l(2) eq by simp
  moreover have "k + l < 2 ^ 32" using k(1) l(1) assms by simp
  then have "unat (word_of_nat (k + l) :: u32) = k + l"
    by (simp add: unsigned_of_nat take_bit_nat_eq_self del: of_nat_add)
  ultimately have "k = 0" by (simp del: of_nat_add)
  with k(2) show ?thesis by simp
qed

lemma convert_accepted:
  assumes "convert_doom_frame st v out = (st', out', 0)"
  obtains number k where "number = frame_sequence (at_count v)" and "number \<noteq> 0"
    and "number \<noteq> last_frame_sequence st" and "k = unat (active_slot (at_active v) AND 1)"
    and "fr_sequence (fb_slot (at_seq v) ! k) AND 1 = 0"
    and "fr_width (fb_slot (at_meta v 0) ! k) = source_width st"
    and "fr_height (fb_slot (at_meta v 1) ! k) = source_height st"
    and "e1_convert_indexed_argb4444 out (Some (loaded_pixels v k))
      (unat (fr_width (fb_slot (at_meta v 6) ! k))) (unat (fr_height (fb_slot (at_meta v 7) ! k)))
      (unat (fr_pitch (fb_slot (at_meta v 8) ! k))) (Some (loaded_palette v k))
      (Some (x_map st)) (Some (y_map st)) = (out', 0)"
    and "fr_sequence (fb_slot (at_seq_again v) ! k) = fr_sequence (fb_slot (at_seq v) ! k)"
    and "frame_sequence (at_count_again v) = number"
    and "last_frame_sequence st' = number"
    and "video_source_drops st' = video_source_drops st +
      e1_frame_sequence_drops (last_frame_sequence st) number"
proof -
  let ?number = "frame_sequence (at_count v)" and ?k = "unat (active_slot (at_active v) AND 1)"
  let ?meta = "\<lambda>i. fb_slot (at_meta v i) ! ?k"
  obtain o' code where conv: "e1_convert_indexed_argb4444 out (Some (loaded_pixels v ?k))
      (unat (fr_width (?meta 6))) (unat (fr_height (?meta 7))) (unat (fr_pitch (?meta 8)))
      (Some (loaded_palette v ?k)) (Some (x_map st)) (Some (y_map st)) = (o', code)"
    by fastforce
  show thesis
    using assms conv unfolding convert_doom_frame_def Let_def
    by (intro that [OF refl _ _ refl]) (auto split: if_splits)
qed

text \<open>C2. No torn picture: in every execution of the game's single stores, with the camera's
  loads anywhere between them in program order, a conversion that is accepted is the
  conversion of one frame exactly as the game closed it: geometry, palette and every pixel
  come from the same closed frame, namely the one whose number was read or the one just
  closed that is about to get the next number; a number is never accepted twice in a row.
  (Fewer than 2^32 stores may happen during one conversion.)\<close>

theorem frame_read_untorn:
  assumes run: "is_run frame_step s n" and inv: "frame_inv (s 0)" and n: "n < 2 ^ 32"
    and view: "frame_view_taken v s n"
    and ok: "convert_doom_frame st v out = (st', out', 0)"
  shows "last_frame_sequence st' \<noteq> last_frame_sequence st \<and>
    (\<exists>t\<le>n. \<exists>number fr. fw_frames (s t) number = Some fr \<and>
       number \<in> {last_frame_sequence st', last_frame_sequence st' + 1} \<and>
       fr_width fr = source_width st \<and> fr_height fr = source_height st \<and>
       e1_convert_indexed_argb4444 out (Some (fr_pixels fr)) (unat (source_width st))
         (unat (source_height st)) (unat (fr_pitch fr)) (Some (fr_palette fr))
         (Some (x_map st)) (Some (y_map st)) = (out', 0))"
proof -
  from view obtain t0 t1 t2 tm tp tx t3 t4 t5 where
      t: "t0 \<le> t1" "t1 \<le> t2" "\<And>i. t2 \<le> tm i \<and> tm i \<le> t3" "\<And>i. t2 \<le> tp i \<and> tp i \<le> t3"
        "\<And>i. t2 \<le> tx i \<and> tx i \<le> t3" "t2 \<le> t3" "t3 \<le> t4" "t4 \<le> t5" "t5 \<le> n"
      and v: "at_count v = fw_buffer (s t0)" "at_active v = fw_buffer (s t1)"
        "at_seq v = fw_buffer (s t2)" "\<And>i. at_meta v i = fw_buffer (s (tm i))"
        "\<And>i. at_palette v i = fw_buffer (s (tp i))" "\<And>i. at_pixel v i = fw_buffer (s (tx i))"
        "at_seq_again v = fw_buffer (s t3)" "at_count_again v = fw_buffer (s t5)"
    unfolding frame_view_taken_def by blast
  have moves: "is_run frame_move s n" by (rule frame_run_moves [OF run inv])
  have inv_at: "frame_inv (s j)" if "j \<le> n" for j
    using is_run_inv [of frame_step s n frame_inv j] run inv frame_inv_step that by blast
  from ok obtain number k where acc: "number = frame_sequence (at_count v)" "number \<noteq> 0"
      "number \<noteq> last_frame_sequence st" "k = unat (active_slot (at_active v) AND 1)"
      "fr_sequence (fb_slot (at_seq v) ! k) AND 1 = 0"
      "fr_width (fb_slot (at_meta v 0) ! k) = source_width st"
      "fr_height (fb_slot (at_meta v 1) ! k) = source_height st"
      "e1_convert_indexed_argb4444 out (Some (loaded_pixels v k))
        (unat (fr_width (fb_slot (at_meta v 6) ! k))) (unat (fr_height (fb_slot (at_meta v 7) ! k)))
        (unat (fr_pitch (fb_slot (at_meta v 8) ! k))) (Some (loaded_palette v k))
        (Some (x_map st)) (Some (y_map st)) = (out', 0)"
      "fr_sequence (fb_slot (at_seq_again v) ! k) = fr_sequence (fb_slot (at_seq v) ! k)"
      "frame_sequence (at_count_again v) = number" "last_frame_sequence st' = number"
    by (rule convert_accepted)
  have k: "k = 0" using inv_at [of t1] acc(4) t v(2) by (simp add: frame_inv_def)
  have sub: "is_run frame_move (\<lambda>i. s (t2 + i)) (t3 - t2)"
    using moves t by (auto simp: is_run_def)
  have stable: "frame_payload (fw_slot (s j)) = frame_payload (fw_slot (s t2))"
    if "t2 \<le> j" "j \<le> t3" for j
    using frame_slot.stable [OF sub, of "j - t2"] that acc(5,9) n t k v
    by (simp add: seq_and_one)
  have at2: "frame_inv (s t2)" using inv_at t by simp
  have even: "even (fr_sequence (fw_slot (s t2)))" using acc(5) k v by (simp add: seq_and_one)
  have count: "frame_sequence (fw_buffer (s t2)) = number"
    using count_constant [OF moves n, of t0 t2 t5] t v acc(1,10) by simp
  obtain m fr where fr: "fw_frames (s t2) m = Some fr" "m \<in> {number, number + 1}"
      "frame_payload fr = frame_payload (fw_slot (s t2))"
    using at2 even count acc(2) by (cases "fw_pc (s t2)") (auto simp: frame_inv_def)
  have same: "frame_payload (fb_slot (at_meta v i) ! k) = frame_payload fr"
      "frame_payload (fb_slot (at_palette v i) ! k) = frame_payload fr"
      "frame_payload (fb_slot (at_pixel v i) ! k) = frame_payload fr" for i
    using stable [of "tm i"] stable [of "tp i"] stable [of "tx i"] t(3-5) fr(3) k v(4-6) by simp_all
  have lens: "length (fr_palette fr) = E1_FRAME_PALETTE_BYTES" "length (fr_pixels fr) = E1_FRAME_MAX_PIXELS"
    using at2 fr(3) by (simp_all add: frame_inv_def frame_payload_def)
  have pal: "loaded_palette v k = fr_palette fr"
    using same(2) lens(1) by (intro nth_equalityI) (simp_all add: loaded_palette_def frame_payload_def)
  have pix: "loaded_pixels v k = fr_pixels fr"
    using same(3) lens(2) by (intro nth_equalityI) (simp_all add: loaded_pixels_def frame_payload_def)
  have geo: "fr_width fr = source_width st" "fr_height fr = source_height st"
    using same(1) [of 0] same(1) [of 1] acc(6,7) by (simp_all add: frame_payload_def)
  have "fr_width (fb_slot (at_meta v 6) ! k) = source_width st"
      "fr_height (fb_slot (at_meta v 7) ! k) = source_height st"
      "fr_pitch (fb_slot (at_meta v 8) ! k) = fr_pitch fr"
    using same(1) [of 6] same(1) [of 7] same(1) [of 8] geo by (simp_all add: frame_payload_def)
  with acc(8) have "e1_convert_indexed_argb4444 out (Some (fr_pixels fr)) (unat (source_width st))
      (unat (source_height st)) (unat (fr_pitch fr)) (Some (fr_palette fr))
      (Some (x_map st)) (Some (y_map st)) = (out', 0)"
    by (simp add: pal pix)
  moreover have "t2 \<le> n" using t by simp
  ultimately show ?thesis using fr(1,2) geo acc(3,11) by blast
qed

definition steady_frame :: "e1_framebuffer \<Rightarrow> frame_view" where
  "steady_frame fb = \<lparr>at_count = fb, at_active = fb, at_seq = fb, at_meta = (\<lambda>i. fb),
     at_palette = (\<lambda>i. fb), at_pixel = (\<lambda>i. fb), at_seq_again = fb, at_active_again = fb,
     at_count_again = fb\<rparr>"

lemma steady_frame_taken: "frame_view_taken (steady_frame (fw_buffer (s 0))) s n"
  unfolding frame_view_taken_def steady_frame_def
  by (intro exI [of _ 0] exI [of _ "\<lambda>i. 0"]) simp

definition demo_slot :: e1_frame_slot where
  "demo_slot = zero_frame_slot\<lparr>fr_sequence := 2, fr_width := 640, fr_height := 300, fr_pitch := 640\<rparr>"

definition demo_world :: frame_world where
  "demo_world = \<lparr>fw_buffer = init_framebuffer\<lparr>frame_sequence := 1, fb_slot := [demo_slot, zero_frame_slot]\<rparr>,
     fw_pc = FP_Counted, fw_frames = [1 \<mapsto> demo_slot]\<rparr>"

definition demo_source :: frame_source where
  "demo_source = \<lparr>source_open = True, last_frame_sequence = 0, source_width = 640,
     source_height = 300, x_map = replicate 640 0, y_map = replicate 360 0, video_retries = 0,
     video_source_drops = 0, video_source_frames = 0\<rparr>"

lemma demo_inv: "frame_inv demo_world"
  by (simp add: frame_inv_def demo_world_def init_framebuffer_def demo_slot_def zero_frame_slot_def)

lemma demo_accepts:
  "\<exists>st' out'. convert_doom_frame demo_source (steady_frame (fw_buffer demo_world)) (Some out) =
     (st', Some out', 0)"
proof -
  obtain out' where "e1_convert_indexed_argb4444 (Some out) (Some px) 640 300 640 (Some pal) (Some xm)
      (Some ym) = (Some (out' px pal xm ym), 0)" for px pal xm ym
    using that by (simp add: e1_convert_indexed_argb4444_def supported_source_def Let_def)
  then show ?thesis
    by (simp add: convert_doom_frame_def demo_source_def steady_frame_def demo_world_def
        init_framebuffer_def demo_slot_def zero_frame_slot_def E1_FRAME_MAX_PIXELS_def
        E1_FRAME_MAX_WIDTH_def E1_FRAME_MAX_HEIGHT_def Let_def)
qed

lemma frame_read_untorn_witness:
  "\<exists>st' out'. convert_doom_frame demo_source (steady_frame (fw_buffer demo_world)) (Some []) =
     (st', Some out', 0) \<and> last_frame_sequence st' \<noteq> 0"
proof -
  obtain st' out' where ok: "convert_doom_frame demo_source (steady_frame (fw_buffer demo_world)) (Some []) =
      (st', Some out', 0)"
    using demo_accepts by blast
  let ?s = "\<lambda>i :: nat. demo_world"
  have "is_run frame_step ?s 0" by (simp add: is_run_def)
  moreover have "frame_view_taken (steady_frame (fw_buffer demo_world)) ?s 0"
    using steady_frame_taken [of ?s 0] by simp
  ultimately have "last_frame_sequence st' \<noteq> last_frame_sequence demo_source"
    using frame_read_untorn [of ?s 0] demo_inv ok by fastforce
  with ok show ?thesis by (simp add: demo_source_def)
qed

text \<open>The function that publishes is one way to run the stores.\<close>

lemma frame_step_star1: "frame_step w w' \<Longrightarrow> frame_step\<^sup>*\<^sup>* w' w'' \<Longrightarrow> frame_step\<^sup>*\<^sup>* w w''"
  by (rule converse_rtranclp_into_rtranclp)

lemma begin_is_step:
  "fw_pc w = FP_Counted \<Longrightarrow> \<exists>w'. frame_step w w' \<and> fw_pc w' = FP_Open \<and>
     Some (fw_buffer w') = begin_frame_write (Some (fw_buffer w))"
  using begin_write [of w] by (fastforce simp: begin_frame_write_def)

end
