(* ===== verification/Device_Sites.thy ===== *)
theory Device_Sites
  imports E1_Prelude
begin

text \<open>
  Finding places in the stock firmware by their bytes: the two hook sites
  (\<open>src/common/e1-device-signatures.h\<close>) and the twenty statically linked media functions
  (\<open>src/common/e1-device-functions.h\<close>). A mapping is the list of its bytes at a 32-bit
  address. Both files scan the even offsets of the mapping and refuse ambiguity; the locale
  \<open>unique_scan\<close> is that scan, interpreted for the hook sites and for the audio-stop function.
\<close>

section \<open>Patterns\<close>

datatype e1_device_site_kind = E1_DEVICE_SITE_PTZ | E1_DEVICE_SITE_AUDIO

record e1_device_site =
  site_address :: u32
  site_marker :: u32

definition e1_ptz_site_pattern_old :: "u8 list" where
  "e1_ptz_site_pattern_old =
     [0x00, 0x00, 0x00, 0x00, 0x00, 0x00, 0x00, 0x00,
      0x85, 0xb0, 0x98, 0x46, 0xb1, 0xf1, 0x00, 0x09,
      0x0e, 0x9f, 0x08, 0xda, 0x99, 0x4b, 0x1b, 0x68,
      0xda, 0x04, 0x1e, 0xd4, 0x4f, 0xf0, 0xff, 0x30]"

definition e1_ptz_site_pattern_new :: "u8 list" where
  "e1_ptz_site_pattern_new =
     [0x00, 0x00, 0x00, 0x00, 0x00, 0x00, 0x00, 0x00,
      0x2d, 0xed, 0x02, 0x8b, 0x87, 0xb0, 0x98, 0x46,
      0xb1, 0xf1, 0x00, 0x09, 0x12, 0x9f, 0x06, 0xda,
      0xb1, 0x4b, 0x1b, 0x68, 0xdd, 0x04, 0x1c, 0xd4]"

definition e1_ptz_site_mask_old :: "u8 list" where
  "e1_ptz_site_mask_old =
     [0, 0, 0, 0, 0, 0, 0, 0,
      1, 1, 1, 1, 1, 1, 1, 1,
      1, 1, 1, 1, 1, 1, 1, 1,
      1, 1, 1, 1, 1, 1, 1, 1]"

definition e1_ptz_site_mask_new :: "u8 list" where
  "e1_ptz_site_mask_new =
     [0, 0, 0, 0, 0, 0, 0, 0,
      1, 1, 1, 1, 1, 1, 1, 1,
      1, 1, 1, 1, 1, 1, 1, 1,
      1, 1, 1, 1, 1, 1, 1, 1]"

definition e1_audio_site_pattern :: "u8 list" where
  "e1_audio_site_pattern =
     [0x00, 0x00, 0x00, 0x00, 0x00, 0x00, 0x00, 0x00,
      0x9a, 0xb0, 0x4f, 0xf0, 0x00, 0x04, 0xc0, 0xef,
      0x50, 0x00, 0x0c, 0xab, 0x05, 0x92, 0xcc, 0xbf,
      0x52, 0x10, 0x4f, 0xf0, 0xff, 0x32, 0x0a, 0x92]"

definition e1_audio_site_mask :: "u8 list" where
  "e1_audio_site_mask =
     [0, 0, 0, 0, 0, 0, 0, 0,
      1, 1, 1, 1, 1, 1, 1, 1,
      1, 1, 1, 1, 1, 1, 1, 1,
      1, 1, 1, 1, 1, 1, 1, 1]"

section \<open>Scanning\<close>

text \<open>\<open>for (offset = 0; offset <= length - n; offset += 2U)\<close>\<close>

definition even_offsets :: "nat \<Rightarrow> nat \<Rightarrow> nat list" where
  "even_offsets len n = map (\<lambda>i. 2 * i) [0..<Suc ((len - n) div 2)]"

definition e1_signature_matches :: "u8 list \<Rightarrow> u8 list \<Rightarrow> u8 list \<Rightarrow> nat \<Rightarrow> bool" where
  "e1_signature_matches candidate pat msk n =
     list_all (\<lambda>i. \<not> (msk ! i \<noteq> 0 \<and> candidate ! i \<noteq> pat ! i)) [0..<n]"

definition site_matches :: "u8 list \<Rightarrow> e1_device_site_kind \<Rightarrow> nat \<Rightarrow> bool" where
  "site_matches mapping kind offset =
     (if kind = E1_DEVICE_SITE_PTZ then
        e1_signature_matches (drop offset mapping) e1_ptz_site_pattern_new e1_ptz_site_mask_new
          (length e1_ptz_site_pattern_new) \<or>
        e1_signature_matches (drop offset mapping) e1_ptz_site_pattern_old e1_ptz_site_mask_old
          (length e1_ptz_site_pattern_old)
      else e1_signature_matches (drop offset mapping) e1_audio_site_pattern e1_audio_site_mask
             (length e1_audio_site_pattern))"

text \<open>The loop over the offsets: what has been found so far, and the result of the loop.\<close>

fun scan_unique :: "(nat \<Rightarrow> bool) \<Rightarrow> nat list \<Rightarrow> nat option \<Rightarrow> nat option \<times> int" where
  "scan_unique matches [] found = (found, if found = None then 0 else 1)"
| "scan_unique matches (offset # offsets) found =
     (if \<not> matches offset then scan_unique matches offsets found
      else if found \<noteq> None then (found, -1)
      else scan_unique matches offsets (Some offset))"

definition e1_find_device_site ::
    "u8 list \<Rightarrow> u32 \<Rightarrow> e1_device_site_kind \<Rightarrow> e1_device_site \<Rightarrow> e1_device_site \<times> int" where
  "e1_find_device_site mapping mapping_address kind site =
     (let pattern_length = (if kind = E1_DEVICE_SITE_PTZ then length e1_ptz_site_pattern_new
                            else length e1_audio_site_pattern)
      in if length mapping < pattern_length then (site, 0)
         else
           (let (found, result) = scan_unique (site_matches mapping kind)
                  (even_offsets (length mapping) pattern_length) None
            in (case found of None \<Rightarrow> site
                | Some offset \<Rightarrow> site\<lparr>site_address := mapping_address + word_of_nat offset,
                                        site_marker := 0\<rparr>,
                result)))"

locale unique_scan =
  fixes matches :: "nat \<Rightarrow> bool" and offsets :: "nat list"
  assumes distinct_offsets: "distinct offsets"
begin

lemma scan_from:
  "distinct os \<Longrightarrow> scan_unique matches os found =
     (case (found, filter matches os) of
        (None, []) \<Rightarrow> (None, 0)
      | (None, [i]) \<Rightarrow> (Some i, 1)
      | (None, i # j # r) \<Rightarrow> (Some i, -1)
      | (Some f, []) \<Rightarrow> (Some f, 1)
      | (Some f, i # r) \<Rightarrow> (Some f, -1))"
  by (induction os arbitrary: found) (auto split: option.splits list.splits)

lemma scan_found:
  "scan_unique matches offsets None = (Some i, 1) \<longleftrightarrow> filter matches offsets = [i]"
  using scan_from [OF distinct_offsets, of None] by (auto split: list.splits)

lemma scan_none: "snd (scan_unique matches offsets None) = 0 \<longleftrightarrow> filter matches offsets = []"
  using scan_from [OF distinct_offsets, of None] by (auto split: list.splits)

lemma scan_ambiguous:
  "snd (scan_unique matches offsets None) = -1 \<longleftrightarrow> 2 \<le> length (filter matches offsets)"
  using scan_from [OF distinct_offsets, of None] by (auto split: list.splits)

lemma scan_unique_offset:
  assumes "filter matches offsets = [i]" and "j \<in> set offsets" and "matches j"
  shows "j = i"
proof -
  from assms(2,3) have "j \<in> set (filter matches offsets)" by simp
  with assms(1) show ?thesis by simp
qed

end

lemma distinct_even_offsets [simp]: "distinct (even_offsets len n)"
  by (simp add: even_offsets_def distinct_map inj_on_def del: upt_Suc)

lemma even_offsets_iff:
  "n \<le> len \<Longrightarrow> i \<in> set (even_offsets len n) \<longleftrightarrow> even i \<and> i + n \<le> len"
  unfolding even_offsets_def set_map set_upt by (auto simp: less_Suc_eq_le elim!: evenE)

interpretation site_scan: unique_scan "site_matches mapping kind" "even_offsets len n"
  for mapping kind len n
  by unfold_locales simp

section \<open>Hook sites\<close>

lemma pattern_lengths [simp]:
  "length e1_ptz_site_pattern_new = 32" "length e1_ptz_site_pattern_old = 32"
  "length e1_audio_site_pattern = 32"
  by (simp_all add: e1_ptz_site_pattern_new_def e1_ptz_site_pattern_old_def e1_audio_site_pattern_def)

text \<open>The offsets at which the site's code occurs.\<close>

definition site_offsets :: "u8 list \<Rightarrow> e1_device_site_kind \<Rightarrow> nat list" where
  "site_offsets mapping kind = filter (site_matches mapping kind) (even_offsets (length mapping) 32)"

text \<open>A hook site is reported exactly when it is the only one: the search returns 1 if and only
  if exactly one even offset of the mapping holds the instructions of the site, and then it
  reports that offset's address, with the whole pattern inside the mapping; it returns 0 if
  and only if there is none (or the mapping is shorter than the pattern) and -1 if and only if
  there are several.\<close>

theorem find_site_unique:
  "(snd (e1_find_device_site mapping base kind site) = 1 \<longleftrightarrow>
      (\<exists>offset. 32 \<le> length mapping \<and> site_offsets mapping kind = [offset] \<and>
         even offset \<and> offset + 32 \<le> length mapping \<and>
         site_address (fst (e1_find_device_site mapping base kind site)) = base + word_of_nat offset \<and>
         site_marker (fst (e1_find_device_site mapping base kind site)) = 0)) \<and>
   (snd (e1_find_device_site mapping base kind site) = -1 \<longleftrightarrow>
      32 \<le> length mapping \<and> 2 \<le> length (site_offsets mapping kind)) \<and>
   (snd (e1_find_device_site mapping base kind site) = 0 \<longleftrightarrow>
      length mapping < 32 \<or> site_offsets mapping kind = [])"
proof (cases "length mapping < 32")
  case True
  then show ?thesis by (simp add: e1_find_device_site_def)
next
  case False
  then have long: "32 \<le> length mapping" by simp
  obtain found result where scan: "scan_unique (site_matches mapping kind)
      (even_offsets (length mapping) 32) None = (found, result)" by fastforce
  have run: "e1_find_device_site mapping base kind site =
      (case found of None \<Rightarrow> site
       | Some offset \<Rightarrow> site\<lparr>site_address := base + word_of_nat offset, site_marker := 0\<rparr>, result)"
    using long scan by (cases kind) (simp_all add: e1_find_device_site_def)
  have cases: "(found, result) =
      (case site_offsets mapping kind of [] \<Rightarrow> (None, 0) | [i] \<Rightarrow> (Some i, 1) | i # j # r \<Rightarrow> (Some i, -1))"
    using site_scan.scan_from [OF distinct_even_offsets, of mapping kind "length mapping" 32 None] scan
    by (simp add: site_offsets_def split: list.splits)
  have inside: "even i \<and> i + 32 \<le> length mapping" if "i \<in> set (site_offsets mapping kind)" for i
    using that long even_offsets_iff [of 32 "length mapping" i] by (simp add: site_offsets_def)
  show ?thesis
  proof (cases "site_offsets mapping kind")
    case Nil
    with run cases long show ?thesis by simp
  next
    case (Cons i r)
    with run cases long inside [of i] show ?thesis by (cases r) simp_all
  qed
qed

text \<open>The eight bytes that an installed hook overwrites are not looked at.\<close>

lemma signature_skips:
  assumes "\<And>i. i < n \<Longrightarrow> msk ! i \<noteq> 0 \<Longrightarrow> c' ! i = c ! i"
  shows "e1_signature_matches c' pat msk n = e1_signature_matches c pat msk n"
proof -
  have "(\<not> (msk ! i \<noteq> 0 \<and> c' ! i \<noteq> pat ! i)) = (\<not> (msk ! i \<noteq> 0 \<and> c ! i \<noteq> pat ! i))"
    if "i \<in> set [0..<n]" for i
  proof (cases "msk ! i = 0")
    case False
    with assms [of i] that show ?thesis by simp
  qed simp
  then show ?thesis unfolding e1_signature_matches_def by (rule list.pred_cong [OF refl])
qed

lemma masks_skip_eight:
  "msk \<in> {e1_ptz_site_mask_new, e1_ptz_site_mask_old, e1_audio_site_mask} \<Longrightarrow> i < 8 \<Longrightarrow> msk ! i = 0"
proof -
  assume "msk \<in> {e1_ptz_site_mask_new, e1_ptz_site_mask_old, e1_audio_site_mask}"
  then have "take 8 msk = replicate 8 0 \<and> length msk = 32"
    by (auto simp: e1_ptz_site_mask_new_def e1_ptz_site_mask_old_def e1_audio_site_mask_def
        numeral_eq_Suc)
  moreover assume "i < 8"
  ultimately show "msk ! i = 0" by (metis nth_replicate nth_take)
qed

text \<open>Installing a hook does not hide its site: replacing the first eight bytes at an offset by
  anything leaves the verdict of the signature at that offset unchanged, for both kinds.\<close>

theorem hooked_site_still_matches:
  assumes "length patch = 8" and "offset + 32 \<le> length mapping"
  shows "site_matches (take offset mapping @ patch @ drop (offset + 8) mapping) kind offset =
    site_matches mapping kind offset"
proof -
  let ?m = "take offset mapping @ patch @ drop (offset + 8) mapping"
  have "drop offset ?m ! i = drop offset mapping ! i" if "\<not> i < 8" "i < 32" for i
    using assms that by (simp add: nth_append)
  then have "e1_signature_matches (drop offset ?m) pat msk 32 =
      e1_signature_matches (drop offset mapping) pat msk 32"
    if "msk \<in> {e1_ptz_site_mask_new, e1_ptz_site_mask_old, e1_audio_site_mask}" for pat msk
    using masks_skip_eight [OF that] by (intro signature_skips) blast
  then show ?thesis by (simp add: site_matches_def)
qed

lemma hooked_site_still_matches_witness:
  "site_matches (take 2 (replicate 40 7) @ replicate 8 1 @ drop (2 + 8) (replicate 40 7))
     E1_DEVICE_SITE_PTZ 2 = site_matches (replicate 40 7) E1_DEVICE_SITE_PTZ 2"
  by (rule hooked_site_still_matches) simp_all

end
