(* ===== verification/Device_Functions.thy ===== *)
theory Device_Functions
  imports Device_Sites
begin

text \<open>
  The resolver of \<open>src/common/e1-device-functions.h\<close>: twenty functions of the stock program
  are found by the twelve bytes their code begins with. Every signature must be unique but
  that of audio-stop, which must be unique between audio-start and audio-close; three chains of
  address comparisons then guard against a coincidental set of matches.
\<close>

section \<open>Data\<close>

definition E1_DEVICE_FUNCTION_SIGNATURE_BYTES :: nat where
  [e1_consts]: "E1_DEVICE_FUNCTION_SIGNATURE_BYTES = 12"

datatype e1_device_function_kind =
    E1_DEVICE_FUNCTION_MEM_ALLOC
  | E1_DEVICE_FUNCTION_MEM_FREE
  | E1_DEVICE_FUNCTION_VIDEOENC_OPEN
  | E1_DEVICE_FUNCTION_VIDEOENC_START
  | E1_DEVICE_FUNCTION_VIDEOENC_STOP
  | E1_DEVICE_FUNCTION_VIDEOENC_CLOSE
  | E1_DEVICE_FUNCTION_VIDEOENC_SET
  | E1_DEVICE_FUNCTION_VIDEOPROC_PULL
  | E1_DEVICE_FUNCTION_VIDEOPROC_RELEASE
  | E1_DEVICE_FUNCTION_MEM_MMAP
  | E1_DEVICE_FUNCTION_MEM_MUNMAP
  | E1_DEVICE_FUNCTION_AUDIOENC_OPEN
  | E1_DEVICE_FUNCTION_AUDIOENC_START
  | E1_DEVICE_FUNCTION_AUDIOENC_STOP
  | E1_DEVICE_FUNCTION_AUDIOENC_CLOSE
  | E1_DEVICE_FUNCTION_AUDIOENC_GET
  | E1_DEVICE_FUNCTION_AUDIOENC_SET
  | E1_DEVICE_FUNCTION_AUDIOENC_PUSH
  | E1_DEVICE_FUNCTION_AUDIOENC_PULL
  | E1_DEVICE_FUNCTION_AUDIOENC_RELEASE

fun signature_bytes :: "e1_device_function_kind \<Rightarrow> u8 list" where
  "signature_bytes E1_DEVICE_FUNCTION_MEM_ALLOC =
     [0xc0, 0xef, 0x50, 0x00, 0x2d, 0xe9, 0xf0, 0x4f, 0x97, 0xb0, 0xdf, 0xf8]"
| "signature_bytes E1_DEVICE_FUNCTION_MEM_FREE =
     [0x2d, 0xe9, 0xf0, 0x41, 0x04, 0x46, 0xdf, 0xf8, 0xdc, 0x80, 0x88, 0xb0]"
| "signature_bytes E1_DEVICE_FUNCTION_VIDEOENC_OPEN =
     [0x2d, 0xe9, 0xf0, 0x4f, 0x8b, 0xb0, 0xdf, 0xf8, 0x84, 0x67, 0x17, 0x46]"
| "signature_bytes E1_DEVICE_FUNCTION_VIDEOENC_START =
     [0x2d, 0xe9, 0xf0, 0x4f, 0xc5, 0xb2, 0xdf, 0xf8, 0x04, 0x45, 0xc9, 0xb0]"
| "signature_bytes E1_DEVICE_FUNCTION_VIDEOENC_STOP =
     [0x2d, 0xe9, 0xf0, 0x47, 0xc5, 0xb2, 0xdf, 0xf8, 0x00, 0x83, 0x86, 0xb0]"
| "signature_bytes E1_DEVICE_FUNCTION_VIDEOENC_CLOSE =
     [0x2d, 0xe9, 0xf0, 0x4f, 0x04, 0x46, 0xdf, 0xf8, 0x20, 0x54, 0x9f, 0xb0]"
| "signature_bytes E1_DEVICE_FUNCTION_VIDEOENC_SET =
     [0xc0, 0xef, 0x50, 0x00, 0x2d, 0xe9, 0xf0, 0x4f, 0xf5, 0xb0, 0xdf, 0xf8]"
| "signature_bytes E1_DEVICE_FUNCTION_VIDEOPROC_PULL =
     [0x2d, 0xe9, 0xf0, 0x4f, 0xbd, 0xb0, 0x52, 0x4e, 0x52, 0x4b, 0x7e, 0x44]"
| "signature_bytes E1_DEVICE_FUNCTION_VIDEOPROC_RELEASE =
     [0x2d, 0xe9, 0xf0, 0x47, 0xbc, 0xb0, 0x4a, 0x4e, 0x4a, 0x4b, 0x7e, 0x44]"
| "signature_bytes E1_DEVICE_FUNCTION_MEM_MMAP =
     [0x2d, 0xe9, 0xf0, 0x43, 0x85, 0xb0, 0x50, 0x4e, 0x50, 0x4b, 0x7e, 0x44]"
| "signature_bytes E1_DEVICE_FUNCTION_MEM_MUNMAP =
     [0x70, 0xb5, 0x84, 0xb0, 0x29, 0x4e, 0x2a, 0x4b, 0x7e, 0x44, 0xf3, 0x58]"
| "signature_bytes E1_DEVICE_FUNCTION_AUDIOENC_OPEN =
     [0x2d, 0xe9, 0xf0, 0x4f, 0x8d, 0xb0, 0xdf, 0xf8, 0x0c, 0x54, 0x0c, 0x46]"
| "signature_bytes E1_DEVICE_FUNCTION_AUDIOENC_START =
     [0x2d, 0xe9, 0xf0, 0x42, 0x04, 0x46, 0x70, 0x4e, 0x88, 0xb0, 0x70, 0x4b]"
| "signature_bytes E1_DEVICE_FUNCTION_AUDIOENC_STOP =
     [0x2d, 0xe9, 0xf0, 0x41, 0x04, 0x46, 0x51, 0x4d, 0x86, 0xb0, 0x51, 0x4b]"
| "signature_bytes E1_DEVICE_FUNCTION_AUDIOENC_CLOSE =
     [0xc0, 0xef, 0x50, 0x00, 0x2d, 0xe9, 0xf0, 0x4f, 0x99, 0xb0, 0xf3, 0x4c]"
| "signature_bytes E1_DEVICE_FUNCTION_AUDIOENC_GET =
     [0x2d, 0xe9, 0xf0, 0x47, 0x88, 0xb0, 0xdf, 0xf8, 0xa0, 0x83, 0x0c, 0x46]"
| "signature_bytes E1_DEVICE_FUNCTION_AUDIOENC_SET =
     [0xc0, 0xef, 0x50, 0x00, 0x2d, 0xe9, 0xf0, 0x4f, 0x95, 0xb0, 0xdf, 0xf8]"
| "signature_bytes E1_DEVICE_FUNCTION_AUDIOENC_PUSH =
     [0x2d, 0xe9, 0xf0, 0x4f, 0x0d, 0x46, 0x77, 0x4e, 0xbf, 0xb0, 0x77, 0x4a]"
| "signature_bytes E1_DEVICE_FUNCTION_AUDIOENC_PULL =
     [0x2d, 0xe9, 0xf0, 0x4e, 0x04, 0x46, 0x6c, 0x4e, 0xbe, 0xb0, 0x6c, 0x4b]"
| "signature_bytes E1_DEVICE_FUNCTION_AUDIOENC_RELEASE =
     [0x2d, 0xe9, 0xf0, 0x4f, 0x0e, 0x46, 0x53, 0x4d, 0xbd, 0xb0, 0x53, 0x4b]"

definition device_function_kinds :: "e1_device_function_kind list" where
  "device_function_kinds =
     [E1_DEVICE_FUNCTION_MEM_ALLOC,
      E1_DEVICE_FUNCTION_MEM_FREE,
      E1_DEVICE_FUNCTION_VIDEOENC_OPEN,
      E1_DEVICE_FUNCTION_VIDEOENC_START,
      E1_DEVICE_FUNCTION_VIDEOENC_STOP,
      E1_DEVICE_FUNCTION_VIDEOENC_CLOSE,
      E1_DEVICE_FUNCTION_VIDEOENC_SET,
      E1_DEVICE_FUNCTION_VIDEOPROC_PULL,
      E1_DEVICE_FUNCTION_VIDEOPROC_RELEASE,
      E1_DEVICE_FUNCTION_MEM_MMAP,
      E1_DEVICE_FUNCTION_MEM_MUNMAP,
      E1_DEVICE_FUNCTION_AUDIOENC_OPEN,
      E1_DEVICE_FUNCTION_AUDIOENC_START,
      E1_DEVICE_FUNCTION_AUDIOENC_STOP,
      E1_DEVICE_FUNCTION_AUDIOENC_CLOSE,
      E1_DEVICE_FUNCTION_AUDIOENC_GET,
      E1_DEVICE_FUNCTION_AUDIOENC_SET,
      E1_DEVICE_FUNCTION_AUDIOENC_PUSH,
      E1_DEVICE_FUNCTION_AUDIOENC_PULL,
      E1_DEVICE_FUNCTION_AUDIOENC_RELEASE]"

record e1_device_functions =
  fn_address :: "e1_device_function_kind \<Rightarrow> u32"

definition no_functions :: e1_device_functions where
  "no_functions = \<lparr>fn_address = (\<lambda>k. 0)\<rparr>"

definition memory_order :: "e1_device_function_kind list" where
  "memory_order = [E1_DEVICE_FUNCTION_MEM_MMAP, E1_DEVICE_FUNCTION_MEM_MUNMAP,
     E1_DEVICE_FUNCTION_MEM_ALLOC, E1_DEVICE_FUNCTION_MEM_FREE]"

definition video_order :: "e1_device_function_kind list" where
  "video_order = [E1_DEVICE_FUNCTION_VIDEOENC_OPEN, E1_DEVICE_FUNCTION_VIDEOENC_START,
     E1_DEVICE_FUNCTION_VIDEOENC_STOP, E1_DEVICE_FUNCTION_VIDEOENC_CLOSE,
     E1_DEVICE_FUNCTION_VIDEOENC_SET]"

definition audio_order :: "e1_device_function_kind list" where
  "audio_order = [E1_DEVICE_FUNCTION_AUDIOENC_OPEN, E1_DEVICE_FUNCTION_AUDIOENC_START,
     E1_DEVICE_FUNCTION_AUDIOENC_STOP, E1_DEVICE_FUNCTION_AUDIOENC_CLOSE,
     E1_DEVICE_FUNCTION_AUDIOENC_GET, E1_DEVICE_FUNCTION_AUDIOENC_SET,
     E1_DEVICE_FUNCTION_AUDIOENC_PUSH, E1_DEVICE_FUNCTION_AUDIOENC_PULL,
     E1_DEVICE_FUNCTION_AUDIOENC_RELEASE]"

section \<open>Operations\<close>

definition e1_device_function_range_ordered ::
    "e1_device_functions \<Rightarrow> e1_device_function_kind \<Rightarrow> e1_device_function_kind \<Rightarrow>
     e1_device_function_kind list \<Rightarrow> bool" where
  "e1_device_function_range_ordered functions first final order =
     (let address = fn_address functions
      in if address final \<le> address first \<or> address final - address first > 0x20000 then False
         else list_all (\<lambda>i. \<not> address (order ! i) \<le> address (order ! (i - 1))) [1..<length order])"

definition function_at :: "u8 list \<Rightarrow> e1_device_function_kind \<Rightarrow> nat \<Rightarrow> bool" where
  "function_at mapping kind offset \<longleftrightarrow>
     take E1_DEVICE_FUNCTION_SIGNATURE_BYTES (drop offset mapping) = signature_bytes kind"

text \<open>The scan for one signature: the number of matches, and the first one's address.\<close>

fun match_loop ::
    "u8 list \<Rightarrow> u32 \<Rightarrow> e1_device_function_kind \<Rightarrow> nat list \<Rightarrow> nat \<Rightarrow> e1_device_functions \<Rightarrow>
     nat \<times> e1_device_functions" where
  "match_loop mapping base kind [] matches functions = (matches, functions)"
| "match_loop mapping base kind (offset # offsets) matches functions =
     (if \<not> function_at mapping kind offset then match_loop mapping base kind offsets matches functions
      else
        (let matches = matches + 1;
             functions = (if kind \<noteq> E1_DEVICE_FUNCTION_AUDIOENC_STOP \<and> matches = 1
                          then functions\<lparr>fn_address :=
                            (fn_address functions)(kind := base + word_of_nat offset)\<rparr>
                          else functions)
         in match_loop mapping base kind offsets matches functions))"

text \<open>The loop over the kinds: the addresses, the number of audio-stop candidates, and whether
  it ran to its end.\<close>

fun kinds_loop ::
    "u8 list \<Rightarrow> u32 \<Rightarrow> e1_device_function_kind list \<Rightarrow> e1_device_functions \<Rightarrow> nat \<Rightarrow>
     e1_device_functions \<times> nat \<times> bool" where
  "kinds_loop mapping base [] functions stops = (functions, stops, True)"
| "kinds_loop mapping base (kind # kinds) functions stops =
     (let (matches, functions) = match_loop mapping base kind
            (even_offsets (length mapping) E1_DEVICE_FUNCTION_SIGNATURE_BYTES) 0 functions
      in if kind = E1_DEVICE_FUNCTION_AUDIOENC_STOP
         then kinds_loop mapping base kinds functions matches
         else if matches \<noteq> 1 then (functions, stops, False)
         else kinds_loop mapping base kinds functions stops)"

definition stop_candidate :: "u8 list \<Rightarrow> u32 \<Rightarrow> e1_device_functions \<Rightarrow> nat \<Rightarrow> bool" where
  "stop_candidate mapping base functions offset \<longleftrightarrow>
     function_at mapping E1_DEVICE_FUNCTION_AUDIOENC_STOP offset \<and>
     base + word_of_nat offset > fn_address functions E1_DEVICE_FUNCTION_AUDIOENC_START \<and>
     base + word_of_nat offset < fn_address functions E1_DEVICE_FUNCTION_AUDIOENC_CLOSE"

fun stop_loop ::
    "u8 list \<Rightarrow> u32 \<Rightarrow> e1_device_functions \<Rightarrow> nat list \<Rightarrow> u32 \<Rightarrow> u32 option" where
  "stop_loop mapping base functions [] audio_stop = Some audio_stop"
| "stop_loop mapping base functions (offset # offsets) audio_stop =
     (if stop_candidate mapping base functions offset then
        (if audio_stop \<noteq> 0 then None
         else stop_loop mapping base functions offsets (base + word_of_nat offset))
      else stop_loop mapping base functions offsets audio_stop)"

definition e1_resolve_device_functions :: "u8 list \<Rightarrow> u32 \<Rightarrow> e1_device_functions \<times> int" where
  "e1_resolve_device_functions mapping mapping_address =
     (if length mapping < E1_DEVICE_FUNCTION_SIGNATURE_BYTES \<or>
         mapping_address > - 1 - word_of_nat (length mapping)
      then (no_functions, 0)
      else
        (let (functions, stops, complete) =
               kinds_loop mapping mapping_address device_function_kinds no_functions 0
         in if \<not> complete \<or> stops = 0 then (functions, 0)
            else
              (case stop_loop mapping mapping_address functions
                      (even_offsets (length mapping) E1_DEVICE_FUNCTION_SIGNATURE_BYTES) 0 of
                 None \<Rightarrow> (functions, 0)
               | Some audio_stop \<Rightarrow>
                  if audio_stop = 0 then (functions, 0)
                  else
                    (let functions = functions\<lparr>fn_address := (fn_address functions)
                           (E1_DEVICE_FUNCTION_AUDIOENC_STOP := audio_stop)\<rparr>
                     in if \<not> e1_device_function_range_ordered functions
                             E1_DEVICE_FUNCTION_MEM_MMAP E1_DEVICE_FUNCTION_MEM_FREE memory_order \<or>
                           \<not> e1_device_function_range_ordered functions
                             E1_DEVICE_FUNCTION_VIDEOENC_OPEN E1_DEVICE_FUNCTION_VIDEOENC_SET
                             video_order \<or>
                           \<not> e1_device_function_range_ordered functions
                             E1_DEVICE_FUNCTION_AUDIOENC_OPEN E1_DEVICE_FUNCTION_AUDIOENC_RELEASE
                             audio_order
                        then (no_functions, 0) else (functions, 1)))))"

section \<open>Soundness\<close>

definition function_offsets :: "u8 list \<Rightarrow> e1_device_function_kind \<Rightarrow> nat list" where
  "function_offsets mapping kind =
     filter (function_at mapping kind) (even_offsets (length mapping) 12)"

lemma match_loop_count:
  "match_loop mapping base kind os n F =
     (n + length (filter (function_at mapping kind) os),
      if kind \<noteq> E1_DEVICE_FUNCTION_AUDIOENC_STOP \<and> n = 0 \<and> filter (function_at mapping kind) os \<noteq> []
      then F\<lparr>fn_address := (fn_address F)(kind := base +
             word_of_nat (hd (filter (function_at mapping kind) os)))\<rparr>
      else F)"
  by (induction os arbitrary: n F) (auto simp: Let_def)

lemma kinds_loop_other:
  "kind \<notin> set ks \<Longrightarrow> fn_address (fst (kinds_loop mapping base ks F n)) kind = fn_address F kind"
  by (induction ks arbitrary: F n) (auto simp: match_loop_count)

lemma kinds_loop_complete:
  assumes "kinds_loop mapping base ks F n = (F', n', True)" and "distinct ks"
    and "kind \<in> set ks" and "kind \<noteq> E1_DEVICE_FUNCTION_AUDIOENC_STOP"
  shows "\<exists>offset. function_offsets mapping kind = [offset] \<and>
    fn_address F' kind = base + word_of_nat offset"
  using assms
proof (induction ks arbitrary: F n)
  case (Cons k ks)
  let ?os = "function_offsets mapping k"
  have os: "filter (function_at mapping k) (even_offsets (length mapping) 12) = ?os"
    by (simp add: function_offsets_def)
  show ?case
  proof (cases "k = kind")
    case True
    with Cons.prems(4) have one: "length ?os = 1" and
        rest: "kinds_loop mapping base ks (F\<lparr>fn_address := (fn_address F)(k := base + word_of_nat (hd ?os))\<rparr>) n
          = (F', n', True)"
      using Cons.prems(1) os
      by (auto simp: match_loop_count E1_DEVICE_FUNCTION_SIGNATURE_BYTES_def split: if_splits)
    from one obtain offset where "?os = [offset]" by (auto simp: length_Suc_conv)
    moreover have "fn_address F' k = base + word_of_nat (hd ?os)"
      using kinds_loop_other [of k ks mapping base _ n] rest Cons.prems(2) by (metis distinct.simps(2)
          e1_device_functions.select_convs(1) e1_device_functions.surjective
          e1_device_functions.update_convs(1) fst_conv fun_upd_same)
    ultimately show ?thesis using True by simp
  next
    case False
    with Cons.prems(3) have "kind \<in> set ks" by simp
    moreover obtain F1 n1 where "kinds_loop mapping base ks F1 n1 = (F', n', True)"
      using Cons.prems(1) by (auto simp: match_loop_count Let_def split: if_splits)
    ultimately show ?thesis using Cons.IH Cons.prems(2,4) by simp
  qed
qed simp

text \<open>The audio-stop scan is the unique scan, with the address 0 standing for "none yet".\<close>

interpretation stop_scan: unique_scan "stop_candidate mapping base F" "even_offsets len n"
  for mapping base F len n
  by unfold_locales simp

lemma stop_loop_scan:
  assumes "(a = 0) = (found = None)" and "\<And>i. found = Some i \<Longrightarrow> a = base + word_of_nat i"
  shows "stop_loop mapping base F os a =
    (case scan_unique (stop_candidate mapping base F) os found of
       (found, result) \<Rightarrow> if result = -1 then None
         else Some (case found of None \<Rightarrow> 0 | Some i \<Rightarrow> base + word_of_nat i))"
  using assms
proof (induction os arbitrary: a found)
  case Nil
  show ?case
  proof (cases found)
    case None
    with Nil.prems(1) show ?thesis by simp
  next
    case (Some i)
    with Nil.prems(2) [OF Some] show ?thesis by simp
  qed
next
  case (Cons i os)
  show ?case
  proof (cases "stop_candidate mapping base F i")
    case False
    with Cons.IH [OF Cons.prems] show ?thesis by simp
  next
    case cand: True
    show ?thesis
    proof (cases "a = 0")
      case True
      then have none: "found = None" using Cons.prems(1) by simp
      have "base + word_of_nat i \<noteq> 0" using cand by (auto simp: stop_candidate_def)
      then have "stop_loop mapping base F os (base + word_of_nat i) =
          (case scan_unique (stop_candidate mapping base F) os (Some i) of
             (found, result) \<Rightarrow> if result = -1 then None
               else Some (case found of None \<Rightarrow> 0 | Some i \<Rightarrow> base + word_of_nat i))"
        by (intro Cons.IH) auto
      with True none cand show ?thesis by simp
    next
      case False
      then have "found \<noteq> None" using Cons.prems(1) by simp
      with False cand show ?thesis by auto
    qed
  qed
qed

text \<open>What a successful resolution means.\<close>

definition resolved_at :: "u8 list \<Rightarrow> u32 \<Rightarrow> e1_device_functions \<Rightarrow> e1_device_function_kind \<Rightarrow> nat \<Rightarrow> bool" where
  "resolved_at mapping base F kind offset \<longleftrightarrow> even offset \<and> offset + 12 \<le> length mapping \<and>
     function_at mapping kind offset \<and> unat (fn_address F kind) = unat base + offset"

lemma all_kinds: "kind \<in> set device_function_kinds"
  by (cases kind) (simp_all add: device_function_kinds_def)

lemma distinct_kinds: "distinct device_function_kinds"
  by (simp add: device_function_kinds_def)

lemma ordered_chain:
  assumes "e1_device_function_range_ordered F a b ks"
  shows "sorted_wrt (<) (map (fn_address F) ks)"
proof -
  have "fn_address F (ks ! i) < fn_address F (ks ! Suc i)" if "Suc i < length ks" for i
    using assms that by (auto simp: e1_device_function_range_ordered_def Let_def list_all_iff
        not_le split: if_splits dest: bspec [of _ _ "Suc i"])
  then show ?thesis by (simp add: sorted_wrt_iff_nth_Suc_transp)
qed

text \<open>C30. A successful resolution is right and unambiguous: every function but audio-stop was found
  at the only even offset of the mapping that holds its signature; audio-stop at the only such
  offset between audio-start and audio-close; every reported address is the offset's true
  address, with no 32-bit overflow; and the memory, video and audio functions lie in their
  expected ascending orders.\<close>

theorem resolve_sound:
  assumes "e1_resolve_device_functions mapping base = (F, 1)" and "length mapping < 2 ^ 32"
  shows "(\<forall>kind. \<exists>offset. resolved_at mapping base F kind offset \<and>
      (kind \<noteq> E1_DEVICE_FUNCTION_AUDIOENC_STOP \<longrightarrow> function_offsets mapping kind = [offset]) \<and>
      (kind = E1_DEVICE_FUNCTION_AUDIOENC_STOP \<longrightarrow>
         filter (stop_candidate mapping base F) (even_offsets (length mapping) 12) = [offset])) \<and>
    sorted_wrt (<) (map (fn_address F) memory_order) \<and>
    sorted_wrt (<) (map (fn_address F) video_order) \<and>
    sorted_wrt (<) (map (fn_address F) audio_order)"
proof -
  let ?offs = "even_offsets (length mapping) 12" and ?STOP = "E1_DEVICE_FUNCTION_AUDIOENC_STOP"
  from assms(1) have big: "12 \<le> length mapping" and nowrap: "\<not> base > - 1 - word_of_nat (length mapping)"
    by (auto simp: e1_resolve_device_functions_def E1_DEVICE_FUNCTION_SIGNATURE_BYTES_def split: if_splits)
  obtain F1 stops complete where k: "kinds_loop mapping base device_function_kinds no_functions 0 =
      (F1, stops, complete)"
    by (cases "kinds_loop mapping base device_function_kinds no_functions 0")
  obtain a where a: "stop_loop mapping base F1 ?offs 0 = Some a" "a \<noteq> 0" and complete: complete
    and F: "F = F1\<lparr>fn_address := (fn_address F1)(?STOP := a)\<rparr>"
    and ord: "e1_device_function_range_ordered F E1_DEVICE_FUNCTION_MEM_MMAP
        E1_DEVICE_FUNCTION_MEM_FREE memory_order"
      "e1_device_function_range_ordered F E1_DEVICE_FUNCTION_VIDEOENC_OPEN
        E1_DEVICE_FUNCTION_VIDEOENC_SET video_order"
      "e1_device_function_range_ordered F E1_DEVICE_FUNCTION_AUDIOENC_OPEN
        E1_DEVICE_FUNCTION_AUDIOENC_RELEASE audio_order"
    using assms(1) k unfolding e1_resolve_device_functions_def E1_DEVICE_FUNCTION_SIGNATURE_BYTES_def
    by (auto simp: Let_def split: if_splits option.splits)
  have len: "unat (word_of_nat (length mapping) :: u32) = length mapping"
    using assms(2) by (simp add: unsigned_of_nat take_bit_nat_eq_self)
  have "unat (- 1 - word_of_nat (length mapping) :: u32) =
      unat (- 1 :: u32) - unat (word_of_nat (length mapping) :: u32)"
    by (rule unat_sub) (rule word_order.extremum)
  also have "\<dots> = 2 ^ 32 - 1 - length mapping"
    unfolding len by (simp add: unsigned_minus_1_eq_mask mask_eq_exp_minus_1)
  finally have room: "unat base + length mapping < 2 ^ 32"
    using nowrap assms(2) by (simp add: word_less_nat_alt)
  have addr: "unat (base + word_of_nat i) = unat base + i" if "i \<le> length mapping" for i
    using room that by (simp add: unat_word_ariths unsigned_of_nat take_bit_nat_eq_self)
  have cand: "stop_candidate mapping base F1 = stop_candidate mapping base F"
    unfolding F by (rule ext) (simp add: stop_candidate_def)
  have inside: "even i \<and> i + 12 \<le> length mapping" if "i \<in> set ?offs" for i
    using that even_offsets_iff [OF big] by simp
  have "\<exists>offset. resolved_at mapping base F kind offset \<and>
      (kind \<noteq> ?STOP \<longrightarrow> function_offsets mapping kind = [offset]) \<and>
      (kind = ?STOP \<longrightarrow> filter (stop_candidate mapping base F) ?offs = [offset])" for kind
  proof (cases "kind = ?STOP")
    case False
    from k complete have k1: "kinds_loop mapping base device_function_kinds no_functions 0 =
        (F1, stops, True)" by simp
    from kinds_loop_complete [OF k1 distinct_kinds all_kinds False] obtain offset where
        o: "function_offsets mapping kind = [offset]" "fn_address F1 kind = base + word_of_nat offset"
      by blast
    then have "offset \<in> set (function_offsets mapping kind)" by simp
    then have "even offset \<and> offset + 12 \<le> length mapping \<and> function_at mapping kind offset"
      using inside by (simp add: function_offsets_def)
    with o False addr [of offset] F show ?thesis by (auto simp: resolved_at_def)
  next
    case True
    from a(1) stop_loop_scan [of 0 None base mapping F1 ?offs] obtain offset where
        "scan_unique (stop_candidate mapping base F1) ?offs None = (Some offset, 1)"
        and ao: "a = base + word_of_nat offset"
      using a(2) stop_scan.scan_from [OF distinct_even_offsets, of mapping base F1 "length mapping" 12 None]
      by (auto split: list.splits if_splits)
    then have one: "filter (stop_candidate mapping base F1) ?offs = [offset]"
      using stop_scan.scan_found by blast
    then have "offset \<in> set (filter (stop_candidate mapping base F1) ?offs)" by simp
    then have "stop_candidate mapping base F1 offset" "even offset \<and> offset + 12 \<le> length mapping"
      using inside by auto
    with True one ao addr [of offset] F cand show ?thesis
      by (auto simp: resolved_at_def stop_candidate_def)
  qed
  with ord show ?thesis by (blast intro: ordered_chain)
qed

text \<open>A mapping that holds the twenty functions in order.\<close>

definition demo_mapping :: "u8 list" where
  "demo_mapping = concat (map signature_bytes (memory_order @ video_order @ audio_order @
     [E1_DEVICE_FUNCTION_VIDEOPROC_PULL, E1_DEVICE_FUNCTION_VIDEOPROC_RELEASE]))"


text \<open>The same scan over the suffixes of the mapping, which compares no further than it must.\<close>

fun starts :: "'a list \<Rightarrow> 'a list \<Rightarrow> bool" where
  "starts [] xs \<longleftrightarrow> True"
| "starts (p # ps) [] \<longleftrightarrow> False"
| "starts (p # ps) (x # xs) \<longleftrightarrow> (if p = x then starts ps xs else False)"

fun suffix_scan :: "'a list \<Rightarrow> nat \<Rightarrow> 'a list \<Rightarrow> nat list" where
  "suffix_scan sig n (a # b # xs) =
     (if starts sig (a # b # xs) then n # suffix_scan sig (n + 2) xs else suffix_scan sig (n + 2) xs)"
| "suffix_scan sig n [a] = (if starts sig [a] then [n] else [])"
| "suffix_scan sig n [] = []"

lemma starts_iff: "starts ps xs \<longleftrightarrow> take (length ps) xs = ps"
  by (induction ps xs rule: starts.induct) auto

lemma suffix_scan_filter:
  "sig \<noteq> [] \<Longrightarrow> suffix_scan sig n m =
     map (\<lambda>i. n + 2 * i) (filter (\<lambda>i. starts sig (drop (2 * i) m)) [0..<Suc (length m div 2)])"
proof (induction sig n m rule: suffix_scan.induct)
  case (1 sig n a b xs)
  have up: "[0..<Suc (length (a # b # xs) div 2)] = 0 # map Suc [0..<Suc (length xs div 2)]"
  proof -
    have len: "length (a # b # xs) div 2 = Suc (length xs div 2)" by simp
    show ?thesis unfolding len map_Suc_upt by (rule upt_conv_Cons) simp
  qed
  show ?case
    using 1 unfolding up by (simp add: filter_map comp_def algebra_simps del: upt_Suc)
next
  case (2 sig n a)
  then show ?case by (cases sig) auto
next
  case (3 sig n)
  then show ?case by (cases sig) auto
qed

lemma length_signature [simp]: "length (signature_bytes kind) = 12"
  by (cases kind) simp_all

lemma function_offsets_scan:
  assumes "12 \<le> length mapping"
  shows "function_offsets mapping kind = suffix_scan (signature_bytes kind) 0 mapping"
proof -
  let ?sig = "signature_bytes kind"
  have "?sig \<noteq> []" using length_signature [of kind] by (metis list.size(3) zero_neq_numeral)
  note scan = suffix_scan_filter [OF this, of 0 mapping]
  have at: "function_at mapping kind (2 * i) \<longleftrightarrow> starts ?sig (drop (2 * i) mapping)" for i
    by (simp add: function_at_def starts_iff E1_DEVICE_FUNCTION_SIGNATURE_BYTES_def)
  let ?n = "(length mapping - 12) div 2" and ?m = "length mapping div 2"
  have split: "[0..<Suc ?m] = [0..<Suc ?n] @ [Suc ?n..<Suc ?m]"
  proof -
    have "Suc ?n \<le> Suc ?m" by (simp add: div_le_mono)
    then show ?thesis by (metis le0 upt_add_eq_append le_add_diff_inverse)
  qed
  have none: "\<not> starts ?sig (drop (2 * i) mapping)" if "i \<in> set [Suc ?n..<Suc ?m]" for i
  proof -
    have "length mapping - 2 * i < 12" using that assms by (auto simp: less_Suc_eq_le)
    then have "length (take 12 (drop (2 * i) mapping)) < 12" by simp
    then show ?thesis unfolding starts_iff length_signature
      using length_signature [of kind] by (metis less_irrefl)
  qed
  have "filter (\<lambda>i. starts ?sig (drop (2 * i) mapping)) [0..<Suc ?m] =
      filter (\<lambda>i. starts ?sig (drop (2 * i) mapping)) [0..<Suc ?n]"
    unfolding split using none by (simp add: filter_empty_conv del: upt_Suc)
  then show ?thesis
    unfolding scan function_offsets_def even_offsets_def
    by (simp add: filter_map comp_def at del: upt_Suc)
qed

lemma starts_map: "inj f \<Longrightarrow> starts (map f ps) (map f xs) = starts ps xs"
  by (induction ps xs rule: starts.induct) (auto simp: inj_eq)

lemma suffix_scan_map: "inj f \<Longrightarrow> suffix_scan (map f sig) n (map f m) = suffix_scan sig n m"
proof (induction sig n m rule: suffix_scan.induct)
  case (1 sig n a b xs)
  with starts_map [of f sig "a # b # xs"] show ?case by simp
next
  case (2 sig n a)
  with starts_map [of f sig "[a]"] show ?case by simp
qed simp

definition demo_bytes :: "nat list" where
  "demo_bytes = [
     45, 233, 240, 67, 133, 176, 80, 78, 80, 75, 126, 68,
     112, 181, 132, 176, 41, 78, 42, 75, 126, 68, 243, 88,
     192, 239, 80, 0, 45, 233, 240, 79, 151, 176, 223, 248,
     45, 233, 240, 65, 4, 70, 223, 248, 220, 128, 136, 176,
     45, 233, 240, 79, 139, 176, 223, 248, 132, 103, 23, 70,
     45, 233, 240, 79, 197, 178, 223, 248, 4, 69, 201, 176,
     45, 233, 240, 71, 197, 178, 223, 248, 0, 131, 134, 176,
     45, 233, 240, 79, 4, 70, 223, 248, 32, 84, 159, 176,
     192, 239, 80, 0, 45, 233, 240, 79, 245, 176, 223, 248,
     45, 233, 240, 79, 141, 176, 223, 248, 12, 84, 12, 70,
     45, 233, 240, 66, 4, 70, 112, 78, 136, 176, 112, 75,
     45, 233, 240, 65, 4, 70, 81, 77, 134, 176, 81, 75,
     192, 239, 80, 0, 45, 233, 240, 79, 153, 176, 243, 76,
     45, 233, 240, 71, 136, 176, 223, 248, 160, 131, 12, 70,
     192, 239, 80, 0, 45, 233, 240, 79, 149, 176, 223, 248,
     45, 233, 240, 79, 13, 70, 119, 78, 191, 176, 119, 74,
     45, 233, 240, 78, 4, 70, 108, 78, 190, 176, 108, 75,
     45, 233, 240, 79, 14, 70, 83, 77, 189, 176, 83, 75,
     45, 233, 240, 79, 189, 176, 82, 78, 82, 75, 126, 68,
     45, 233, 240, 71, 188, 176, 74, 78, 74, 75, 126, 68]"

lemma demo_bytes_mapping: "map unat demo_mapping = demo_bytes"
  unfolding demo_mapping_def memory_order_def video_order_def audio_order_def demo_bytes_def by simp

fun demo_offset :: "e1_device_function_kind \<Rightarrow> nat" where
  "demo_offset E1_DEVICE_FUNCTION_MEM_MMAP = 0"
| "demo_offset E1_DEVICE_FUNCTION_MEM_MUNMAP = 12"
| "demo_offset E1_DEVICE_FUNCTION_MEM_ALLOC = 24"
| "demo_offset E1_DEVICE_FUNCTION_MEM_FREE = 36"
| "demo_offset E1_DEVICE_FUNCTION_VIDEOENC_OPEN = 48"
| "demo_offset E1_DEVICE_FUNCTION_VIDEOENC_START = 60"
| "demo_offset E1_DEVICE_FUNCTION_VIDEOENC_STOP = 72"
| "demo_offset E1_DEVICE_FUNCTION_VIDEOENC_CLOSE = 84"
| "demo_offset E1_DEVICE_FUNCTION_VIDEOENC_SET = 96"
| "demo_offset E1_DEVICE_FUNCTION_AUDIOENC_OPEN = 108"
| "demo_offset E1_DEVICE_FUNCTION_AUDIOENC_START = 120"
| "demo_offset E1_DEVICE_FUNCTION_AUDIOENC_STOP = 132"
| "demo_offset E1_DEVICE_FUNCTION_AUDIOENC_CLOSE = 144"
| "demo_offset E1_DEVICE_FUNCTION_AUDIOENC_GET = 156"
| "demo_offset E1_DEVICE_FUNCTION_AUDIOENC_SET = 168"
| "demo_offset E1_DEVICE_FUNCTION_AUDIOENC_PUSH = 180"
| "demo_offset E1_DEVICE_FUNCTION_AUDIOENC_PULL = 192"
| "demo_offset E1_DEVICE_FUNCTION_AUDIOENC_RELEASE = 204"
| "demo_offset E1_DEVICE_FUNCTION_VIDEOPROC_PULL = 216"
| "demo_offset E1_DEVICE_FUNCTION_VIDEOPROC_RELEASE = 228"

lemma inj_byte: "inj (unat :: u8 \<Rightarrow> nat)"
  by (simp add: inj_def word_unat_eq_iff)

fun sig_nat :: "e1_device_function_kind \<Rightarrow> nat list" where
  "sig_nat E1_DEVICE_FUNCTION_MEM_MMAP = [45, 233, 240, 67, 133, 176, 80, 78, 80, 75, 126, 68]"
| "sig_nat E1_DEVICE_FUNCTION_MEM_MUNMAP = [112, 181, 132, 176, 41, 78, 42, 75, 126, 68, 243, 88]"
| "sig_nat E1_DEVICE_FUNCTION_MEM_ALLOC = [192, 239, 80, 0, 45, 233, 240, 79, 151, 176, 223, 248]"
| "sig_nat E1_DEVICE_FUNCTION_MEM_FREE = [45, 233, 240, 65, 4, 70, 223, 248, 220, 128, 136, 176]"
| "sig_nat E1_DEVICE_FUNCTION_VIDEOENC_OPEN = [45, 233, 240, 79, 139, 176, 223, 248, 132, 103, 23, 70]"
| "sig_nat E1_DEVICE_FUNCTION_VIDEOENC_START = [45, 233, 240, 79, 197, 178, 223, 248, 4, 69, 201, 176]"
| "sig_nat E1_DEVICE_FUNCTION_VIDEOENC_STOP = [45, 233, 240, 71, 197, 178, 223, 248, 0, 131, 134, 176]"
| "sig_nat E1_DEVICE_FUNCTION_VIDEOENC_CLOSE = [45, 233, 240, 79, 4, 70, 223, 248, 32, 84, 159, 176]"
| "sig_nat E1_DEVICE_FUNCTION_VIDEOENC_SET = [192, 239, 80, 0, 45, 233, 240, 79, 245, 176, 223, 248]"
| "sig_nat E1_DEVICE_FUNCTION_AUDIOENC_OPEN = [45, 233, 240, 79, 141, 176, 223, 248, 12, 84, 12, 70]"
| "sig_nat E1_DEVICE_FUNCTION_AUDIOENC_START = [45, 233, 240, 66, 4, 70, 112, 78, 136, 176, 112, 75]"
| "sig_nat E1_DEVICE_FUNCTION_AUDIOENC_STOP = [45, 233, 240, 65, 4, 70, 81, 77, 134, 176, 81, 75]"
| "sig_nat E1_DEVICE_FUNCTION_AUDIOENC_CLOSE = [192, 239, 80, 0, 45, 233, 240, 79, 153, 176, 243, 76]"
| "sig_nat E1_DEVICE_FUNCTION_AUDIOENC_GET = [45, 233, 240, 71, 136, 176, 223, 248, 160, 131, 12, 70]"
| "sig_nat E1_DEVICE_FUNCTION_AUDIOENC_SET = [192, 239, 80, 0, 45, 233, 240, 79, 149, 176, 223, 248]"
| "sig_nat E1_DEVICE_FUNCTION_AUDIOENC_PUSH = [45, 233, 240, 79, 13, 70, 119, 78, 191, 176, 119, 74]"
| "sig_nat E1_DEVICE_FUNCTION_AUDIOENC_PULL = [45, 233, 240, 78, 4, 70, 108, 78, 190, 176, 108, 75]"
| "sig_nat E1_DEVICE_FUNCTION_AUDIOENC_RELEASE = [45, 233, 240, 79, 14, 70, 83, 77, 189, 176, 83, 75]"
| "sig_nat E1_DEVICE_FUNCTION_VIDEOPROC_PULL = [45, 233, 240, 79, 189, 176, 82, 78, 82, 75, 126, 68]"
| "sig_nat E1_DEVICE_FUNCTION_VIDEOPROC_RELEASE = [45, 233, 240, 71, 188, 176, 74, 78, 74, 75, 126, 68]"

lemma sig_nat: "map unat (signature_bytes k) = sig_nat k"
  by (cases k) simp_all

text \<open>The signatures one after the other: a scan crosses them block by block.\<close>

definition demo_kinds :: "e1_device_function_kind list" where
  "demo_kinds = [E1_DEVICE_FUNCTION_MEM_MMAP,
     E1_DEVICE_FUNCTION_MEM_MUNMAP,
     E1_DEVICE_FUNCTION_MEM_ALLOC,
     E1_DEVICE_FUNCTION_MEM_FREE,
     E1_DEVICE_FUNCTION_VIDEOENC_OPEN,
     E1_DEVICE_FUNCTION_VIDEOENC_START,
     E1_DEVICE_FUNCTION_VIDEOENC_STOP,
     E1_DEVICE_FUNCTION_VIDEOENC_CLOSE,
     E1_DEVICE_FUNCTION_VIDEOENC_SET,
     E1_DEVICE_FUNCTION_AUDIOENC_OPEN,
     E1_DEVICE_FUNCTION_AUDIOENC_START,
     E1_DEVICE_FUNCTION_AUDIOENC_STOP,
     E1_DEVICE_FUNCTION_AUDIOENC_CLOSE,
     E1_DEVICE_FUNCTION_AUDIOENC_GET,
     E1_DEVICE_FUNCTION_AUDIOENC_SET,
     E1_DEVICE_FUNCTION_AUDIOENC_PUSH,
     E1_DEVICE_FUNCTION_AUDIOENC_PULL,
     E1_DEVICE_FUNCTION_AUDIOENC_RELEASE,
     E1_DEVICE_FUNCTION_VIDEOPROC_PULL,
     E1_DEVICE_FUNCTION_VIDEOPROC_RELEASE]"

lemma demo_concat: "demo_bytes = concat (map sig_nat demo_kinds)"
  by (simp add: demo_bytes_def demo_kinds_def)

lemma block_scan:
  "suffix_scan (sig_nat k) n (sig_nat b @ rest) =
     (if k = b then [n] else []) @ suffix_scan (sig_nat k) (n + 12) rest"
  by (cases k; cases b; simp add: add.commute del: add_2_eq_Suc')

lemma demo_scan: "suffix_scan (map unat (signature_bytes kind)) 0 demo_bytes = [demo_offset kind]"
  unfolding sig_nat demo_concat demo_kinds_def list.map concat.simps block_scan
  by (cases kind) simp_all

lemma length_demo: "length demo_mapping = 240"
  by (simp add: demo_mapping_def memory_order_def video_order_def audio_order_def)

lemma demo_offsets: "function_offsets demo_mapping kind = [demo_offset kind]"
  using function_offsets_scan [of demo_mapping kind] demo_scan [of kind]
    suffix_scan_map [OF inj_byte, of "signature_bytes kind" 0 demo_mapping]
  by (simp add: length_demo demo_bytes_mapping)

lemma kinds_loop_unique:
  "(\<And>k. length (function_offsets mapping k) = 1) \<Longrightarrow>
   \<exists>F'. kinds_loop mapping base ks F n =
     (F', if E1_DEVICE_FUNCTION_AUDIOENC_STOP \<in> set ks then 1 else n, True)"
proof (induction ks arbitrary: F n)
  case (Cons k ks)
  have one: "length (filter (function_at mapping k) (even_offsets (length mapping) 12)) = 1"
    using Cons.prems [of k] by (simp add: function_offsets_def)
  show ?case
  proof (cases "k = E1_DEVICE_FUNCTION_AUDIOENC_STOP")
    case True
    with one Cons.IH [OF Cons.prems, of F 1] show ?thesis
      by (auto simp: match_loop_count E1_DEVICE_FUNCTION_SIGNATURE_BYTES_def split: if_splits)
  next
    case False
    obtain m F1 where ml: "match_loop mapping base k (even_offsets (length mapping) 12) 0 F = (m, F1)"
      by fastforce
    with one have "m = 1" by (simp add: match_loop_count)
    with False ml Cons.IH [OF Cons.prems, of F1 n] show ?thesis
      by (auto simp: E1_DEVICE_FUNCTION_SIGNATURE_BYTES_def)
  qed
qed simp

lemma demo_resolves: "\<exists>F. e1_resolve_device_functions demo_mapping 0x10000 = (F, 1)"
proof -
  let ?base = "0x10000 :: u32" and ?STOP = "E1_DEVICE_FUNCTION_AUDIOENC_STOP"
  obtain F1 where k: "kinds_loop demo_mapping ?base device_function_kinds no_functions 0 = (F1, 1, True)"
    using kinds_loop_unique [of demo_mapping ?base device_function_kinds no_functions 0] demo_offsets
      all_kinds by auto
  have addr: "fn_address F1 kind = ?base + word_of_nat (demo_offset kind)" if "kind \<noteq> ?STOP" for kind
    using kinds_loop_complete [OF k distinct_kinds all_kinds that] demo_offsets by auto
  have only: "function_at demo_mapping ?STOP i \<longleftrightarrow> i = 132" if "i \<in> set (even_offsets 240 12)" for i
  proof -
    have "i \<in> set (filter (function_at demo_mapping ?STOP) (even_offsets 240 12)) \<longleftrightarrow> i = 132"
      using demo_offsets [of ?STOP] by (simp add: function_offsets_def length_demo)
    with that show ?thesis by simp
  qed
  have "(132 :: nat) \<in> set (even_offsets 240 12)" by (subst even_offsets_iff) simp_all
  then have "stop_candidate demo_mapping ?base F1 132"
    using only by (simp add: stop_candidate_def addr)
  then have "filter (stop_candidate demo_mapping ?base F1) (even_offsets 240 12) =
      filter (function_at demo_mapping ?STOP) (even_offsets 240 12)"
    using only by (intro filter_cong) (auto simp: stop_candidate_def)
  also have "\<dots> = [132]" using demo_offsets [of ?STOP] by (simp add: function_offsets_def length_demo)
  finally have "scan_unique (stop_candidate demo_mapping ?base F1) (even_offsets 240 12) None = (Some 132, 1)"
    using stop_scan.scan_found by blast
  then have "stop_loop demo_mapping ?base F1 (even_offsets 240 12) 0 = Some (?base + 132)"
    using stop_loop_scan [of 0 None ?base demo_mapping F1 "even_offsets 240 12"] by simp
  with k show ?thesis
    by (simp add: e1_resolve_device_functions_def E1_DEVICE_FUNCTION_SIGNATURE_BYTES_def length_demo
        Let_def e1_device_function_range_ordered_def memory_order_def video_order_def audio_order_def
        addr upt_rec)
qed

lemma resolve_sound_witness:
  "\<exists>F. e1_resolve_device_functions demo_mapping 0x10000 = (F, 1) \<and>
     sorted_wrt (<) (map (fn_address F) audio_order)"
proof -
  obtain F where run: "e1_resolve_device_functions demo_mapping 0x10000 = (F, 1)"
    using demo_resolves by blast
  have "length demo_mapping < 2 ^ 32" by (simp add: length_demo)
  from resolve_sound [OF run this] run show ?thesis by blast
qed

end
