(* ===== verification/Opl_Noise.thy ===== *)
theory Opl_Noise
  imports E1_Prelude
begin

text \<open>
  The noise generator shortcut of \<open>src/common/e1-opl2-noise.h\<close> (its C version): the state after
  eighteen clocks of the emulator's 23-bit feedback shift register, computed at once. The
  single clock, which belongs to the emulator, is stated here as the header describes it: the
  register shifts right and bit 22 receives bit 0 xor bit 14.
\<close>

definition e1_opl2_noise_advance_18 :: "u32 \<Rightarrow> u32" where
  "e1_opl2_noise_advance_18 noise =
     (let feedback_low = (noise XOR drop_bit 14 noise) AND 0x1ff;
          feedback_high = feedback_low XOR (drop_bit 9 noise AND 0x1ff)
      in drop_bit 18 noise OR push_bit 5 (feedback_low OR push_bit 9 feedback_high))"

definition noise_clock :: "u32 \<Rightarrow> u32" where
  "noise_clock noise = drop_bit 1 noise OR push_bit 22 ((noise XOR drop_bit 14 noise) AND 1)"

text \<open>The sequence of bits the register shows: bit \<open>i\<close> of the state after \<open>k\<close> clocks is bit
  \<open>i + k\<close> of it.\<close>

function noise_bit :: "u32 \<Rightarrow> nat \<Rightarrow> bool" where
  "noise_bit x i = (if i < 23 then bit x i else noise_bit x (i - 23) \<noteq> noise_bit x (i - 9))"
  by auto
termination by (relation "measure snd") auto

declare noise_bit.simps [simp del]

lemma high_bits: "take_bit 23 x = x \<Longrightarrow> 23 \<le> j \<Longrightarrow> \<not> bit x j" for x :: u32
  by (metis bit_take_bit_iff not_less)

lemma small_if: "(\<And>n. 23 \<le> n \<Longrightarrow> \<not> bit x n) \<Longrightarrow> take_bit 23 x = x" for x :: u32
  by (rule bit_word_eqI) (metis bit_take_bit_iff not_less)

lemma clock_bits:
  "bit (noise_clock x) n \<longleftrightarrow> bit x (Suc n) \<or> n = 22 \<and> (bit x 0 \<noteq> bit x 14)"
  unfolding noise_clock_def
  by (simp only: bit_or_iff bit_drop_bit_eq bit_push_bit_iff bit_and_iff bit_xor_iff bit_1_iff
      comp_apply) auto

lemma clock_bit:
  assumes "take_bit 23 x = x" and "i < 23"
  shows "bit (noise_clock x) i = (if i = 22 then bit x 0 \<noteq> bit x 14 else bit x (Suc i))"
  using high_bits [OF assms(1), of 23] by (auto simp: clock_bits)

lemma clock_small: "take_bit 23 x = x \<Longrightarrow> take_bit 23 (noise_clock x) = noise_clock x"
  by (rule small_if) (simp add: clock_bits high_bits)

lemma clocks_bit:
  assumes "take_bit 23 x = x"
  shows "take_bit 23 ((noise_clock ^^ k) x) = (noise_clock ^^ k) x \<and>
    (\<forall>i<23. bit ((noise_clock ^^ k) x) i = noise_bit x (i + k))"
proof (induction k)
  case 0
  with assms show ?case by (simp add: noise_bit.simps)
next
  case (Suc k)
  let ?y = "(noise_clock ^^ k) x"
  have "bit (noise_clock ?y) i = noise_bit x (i + Suc k)" if "i < 23" for i
  proof (cases "i = 22")
    case True
    have "noise_bit x (23 + k) = (noise_bit x k \<noteq> noise_bit x (14 + k))"
      by (subst noise_bit.simps) simp
    with True Suc show ?thesis using clock_bit [of ?y 22] by simp
  next
    case False
    with Suc that show ?thesis using clock_bit [of ?y i] by simp
  qed
  with Suc clock_small show ?case by simp
qed

lemma mask9: "(0x1ff :: u32) = mask 9"
  by (simp add: mask_eq_exp_minus_1)

lemma advance_bits:
  "bit (e1_opl2_noise_advance_18 x) n \<longleftrightarrow> bit x (18 + n) \<or>
     (5 \<le> n \<and> n < 14 \<and> (bit x (n - 5) \<noteq> bit x (n + 9))) \<or>
     (14 \<le> n \<and> n < 23 \<and> ((bit x (n - 14) \<noteq> bit x n) \<noteq> bit x (n - 5)))"
proof (cases "n < 32")
  case True
  note bits = bit_or_iff bit_drop_bit_eq bit_push_bit_iff bit_and_iff bit_xor_iff bit_mask_iff
  consider "n < 5" | "5 \<le> n" "n < 14" | "14 \<le> n" "n < 23" | "23 \<le> n" by linarith
  then show ?thesis
  proof cases
    case 1
    with True show ?thesis
      unfolding e1_opl2_noise_advance_18_def Let_def mask9 by (simp add: bits add.commute)
  next
    case 2
    then have "n - 5 < 9" "n - 5 < LENGTH(32)" "\<not> 14 \<le> n" by simp_all
    with True 2 show ?thesis
      unfolding e1_opl2_noise_advance_18_def Let_def mask9 by (simp add: bits add.commute)
  next
    case 3
    then have "n - 14 < 9" "n - 14 < LENGTH(32)" "\<not> n - 5 < 9" "n - 5 < LENGTH(32)" by simp_all
    with True 3 show ?thesis
      unfolding e1_opl2_noise_advance_18_def Let_def mask9 by (simp add: bits add.commute)
  next
    case 4
    then have "\<not> n - 14 < 9" "\<not> n - 5 < 9" by simp_all
    with True 4 show ?thesis
      unfolding e1_opl2_noise_advance_18_def Let_def mask9 by (simp add: bits add.commute)
  qed
next
  case False
  then show ?thesis by (auto dest: bit_imp_le_length)
qed

lemma low_bit: "i < 23 \<Longrightarrow> noise_bit x i = bit x i"
  by (simp add: noise_bit.simps)

lemma advance_bit:
  assumes "take_bit 23 x = x" and "i < 23"
  shows "bit (e1_opl2_noise_advance_18 x) i = noise_bit x (i + 18)"
proof -
  note high = high_bits [OF assms(1)]
  consider "i < 5" | "5 \<le> i" "i < 14" | "14 \<le> i" by linarith
  then show ?thesis
  proof cases
    case 1
    then show ?thesis
      by (subst noise_bit.simps) (simp add: advance_bits add.commute)
  next
    case 2
    then have "noise_bit x (i + 18) = (noise_bit x (i - 5) \<noteq> noise_bit x (i + 9))"
      using 2 by (subst noise_bit.simps) (simp add: add.commute)
    moreover have "noise_bit x (i - 5) = bit x (i - 5)" "noise_bit x (i + 9) = bit x (i + 9)"
      using 2 low_bit [of "i - 5" x] low_bit [of "i + 9" x] by auto
    ultimately have "noise_bit x (i + 18) = (bit x (i - 5) \<noteq> bit x (i + 9))" by simp
    with 2 high [of "18 + i"] show ?thesis by (simp add: advance_bits)
  next
    case 3
    then have "noise_bit x (i + 18) = (noise_bit x (i - 5) \<noteq> noise_bit x (i + 9))"
      by (subst noise_bit.simps) (simp add: add.commute)
    also have "\<dots> = (bit x (i - 5) \<noteq> (bit x (i - 14) \<noteq> bit x i))"
    proof -
      have "noise_bit x (i + 9) = (noise_bit x (i - 14) \<noteq> noise_bit x i)"
        using 3 by (subst noise_bit.simps) simp
      with 3 assms(2) low_bit [of "i - 5" x] low_bit [of "i - 14" x] low_bit [of i x]
      show ?thesis by simp
    qed
    finally show ?thesis using 3 assms(2) high [of "18 + i"] by (auto simp: advance_bits)
  qed
qed

text \<open>The shortcut is exact: for every 23-bit state it yields the state after eighteen single
  clocks of the register.\<close>

theorem noise_advance_18_exact:
  assumes "unat noise < 2 ^ 23"
  shows "e1_opl2_noise_advance_18 noise = (noise_clock ^^ 18) noise"
proof -
  have small: "take_bit 23 noise = noise"
    using assms by (simp add: word_unat_eq_iff unsigned_take_bit_eq take_bit_nat_eq_self)
  have "take_bit 23 (e1_opl2_noise_advance_18 noise) = e1_opl2_noise_advance_18 noise"
    using high_bits [OF small] by (intro small_if) (simp add: advance_bits)
  moreover have "bit (take_bit 23 (e1_opl2_noise_advance_18 noise)) n =
      bit (take_bit 23 ((noise_clock ^^ 18) noise)) n" for n
    using advance_bit [OF small, of n] conjunct2 [OF clocks_bit [OF small, of 18]]
    by (cases "n < 23") (simp_all add: bit_take_bit_iff)
  then have "take_bit 23 (e1_opl2_noise_advance_18 noise) = take_bit 23 ((noise_clock ^^ 18) noise)"
    by (intro bit_word_eqI) blast
  ultimately show ?thesis using clocks_bit [OF small, of 18] by simp
qed

lemma noise_advance_18_exact_witness:
  "e1_opl2_noise_advance_18 0x123456 = (noise_clock ^^ 18) 0x123456"
  by (rule noise_advance_18_exact) simp

end
