(* ===== verification/C_Text.thy ===== *)
theory C_Text
  imports E1_Prelude
begin

text \<open>
  Characters, C strings and the number parsers of the C library that the code calls: the digit
  loop of \<open>atoi\<close>, and \<open>strtoul\<close> with an explicit base or base zero. \<open>unsigned long\<close> has 32 bits
  on the target.
\<close>

section \<open>Characters and strings\<close>

definition chr :: "char \<Rightarrow> int" where
  "chr c = of_char c"

definition c_string :: "string \<Rightarrow> string" where
  "c_string s = takeWhile (\<lambda>c. c \<noteq> CHR 0x00) s"

definition isspace :: "char \<Rightarrow> bool" where
  "isspace c \<longleftrightarrow> c \<in> {CHR '' '', CHR 0x09, CHR 0x0A, CHR 0x0B, CHR 0x0C, CHR 0x0D}"

definition digit :: "char \<Rightarrow> bool" where
  "digit c \<longleftrightarrow> chr CHR ''0'' \<le> chr c \<and> chr c \<le> chr CHR ''9''"

text \<open>The number \<open>atoi\<close> reads from the front of a string that has no sign and no blanks.\<close>

fun atoi_from :: "int \<Rightarrow> string \<Rightarrow> int" where
  "atoi_from n [] = n"
| "atoi_from n (c # cs) =
     (if chr CHR ''0'' \<le> chr c \<and> chr c \<le> chr CHR ''9''
      then atoi_from (n * 10 + (chr c - chr CHR ''0'')) cs else n)"

section \<open>\<open>strtoul\<close>\<close>

text \<open>The value of an alphanumeric character as a digit; 36 for any other character.\<close>

definition digit_value :: "char \<Rightarrow> nat" where
  "digit_value c =
     (if digit c then nat (chr c - chr CHR ''0'')
      else if chr CHR ''a'' \<le> chr c \<and> chr c \<le> chr CHR ''z'' then nat (chr c - chr CHR ''a'') + 10
      else if chr CHR ''A'' \<le> chr c \<and> chr c \<le> chr CHR ''Z'' then nat (chr c - chr CHR ''A'') + 10
      else 36)"

fun digits_from :: "nat \<Rightarrow> nat \<Rightarrow> string \<Rightarrow> nat" where
  "digits_from base n [] = n"
| "digits_from base n (c # cs) = digits_from base (n * base + digit_value c) cs"

text \<open>The base that is meant, and where the digits start. A prefix \<open>0x\<close> counts only before a
  hexadecimal digit.\<close>

definition number_base :: "nat \<Rightarrow> string \<Rightarrow> nat \<times> string" where
  "number_base base s =
     (if base \<noteq> 0 then (base, s)
      else if take 1 s = ''0'' \<and> 2 < length s \<and> s ! 1 \<in> {CHR ''x'', CHR ''X''} \<and>
        digit_value (s ! 2) < 16 then (16, drop 2 s)
      else if take 1 s = ''0'' then (8, s) else (10, s))"

text \<open>The value, the unread rest and whether \<open>errno\<close> reports a range error; \<open>None\<close> when no digit
  is read (\<open>end == text\<close>).\<close>

definition strtoul :: "nat \<Rightarrow> string \<Rightarrow> (nat \<times> string \<times> bool) option" where
  "strtoul base text =
     (let s = dropWhile isspace text;
          neg = (take 1 s = ''-'');
          s = (if take 1 s = ''-'' \<or> take 1 s = ''+'' then drop 1 s else s);
          (b, s) = number_base base s;
          ds = takeWhile (\<lambda>c. digit_value c < b) s;
          n = digits_from b 0 ds
      in if ds = [] then None
         else if n \<ge> 2 ^ 32 then Some (2 ^ 32 - 1, drop (length ds) s, True)
         else Some (if neg then (2 ^ 32 - n) mod 2 ^ 32 else n, drop (length ds) s, False))"

lemma strtoul_range: "strtoul base text = Some (n, rest, err) \<Longrightarrow> n < 2 ^ 32"
  by (auto simp: strtoul_def Let_def split: prod.splits if_splits)

section \<open>Printing numbers\<close>

definition digit_char :: "nat \<Rightarrow> char" where
  "digit_char d = ''0123456789abcdef'' ! d"

text \<open>The conversions \<open>%ld\<close> of a number that is not negative, \<open>%#x\<close> and \<open>%02x\<close>.\<close>

fun print_base :: "nat \<Rightarrow> nat \<Rightarrow> string" where
  "print_base base n =
     (if base < 2 \<or> n < base then [digit_char (n mod 16)]
      else print_base base (n div base) @ [digit_char (n mod base)])"

declare print_base.simps [simp del]

definition print_ld :: "nat \<Rightarrow> string" where "print_ld n = print_base 10 n"

definition print_hex :: "u32 \<Rightarrow> string" where
  "print_hex w = (if w = 0 then ''0'' else ''0x'' @ print_base 16 (unat w))"

definition print_02x :: "u8 \<Rightarrow> string" where
  "print_02x b = [digit_char (unat b div 16), digit_char (unat b mod 16)]"

end
