(* ===== verification/Byte_Codec.thy ===== *)
theory Byte_Codec
  imports E1_Prelude
begin

text \<open>
  Little-endian 32-bit fields: how the datagrams of \<open>src/common/e1-key-event.h\<close> and
  \<open>e1-ptz-event.h\<close> lie in memory on the target, and \<open>read_u32_le\<close> of
  \<open>src/platform/e1/i_sound_e1.c\<close>.
\<close>

definition read_u32_le :: "u8 list \<Rightarrow> nat \<Rightarrow> u32" where
  "read_u32_le bs i = ucast (bs ! i) OR push_bit 8 (ucast (bs ! (i + 1))) OR
     push_bit 16 (ucast (bs ! (i + 2))) OR push_bit 24 (ucast (bs ! (i + 3)))"

definition u32_bytes :: "u32 \<Rightarrow> u8 list" where
  "u32_bytes w = [ucast w, ucast (drop_bit 8 w), ucast (drop_bit 16 w), ucast (drop_bit 24 w)]"

lemma length_u32_bytes [simp]: "length (u32_bytes w) = 4"
  by (simp add: u32_bytes_def)

lemma bytes_join:
  "ucast (ucast w :: u8) OR push_bit 8 (ucast (ucast (drop_bit 8 w) :: u8)) OR
   push_bit 16 (ucast (ucast (drop_bit 16 w) :: u8)) OR
   push_bit 24 (ucast (ucast (drop_bit 24 w) :: u8)) = w" for w :: u32
proof (rule bit_word_eqI)
  fix n assume "n < LENGTH(32)"
  then have "n < 32" by simp
  consider "n < 8" | "8 \<le> n" "n < 16" | "16 \<le> n" "n < 24" | "24 \<le> n" by linarith
  then show "bit (ucast (ucast w :: u8) OR push_bit 8 (ucast (ucast (drop_bit 8 w) :: u8)) OR
      push_bit 16 (ucast (ucast (drop_bit 16 w) :: u8)) OR
      push_bit 24 (ucast (ucast (drop_bit 24 w) :: u8)) :: u32) n = bit w n"
    using \<open>n < 32\<close> by cases (auto simp: bit_simps)
qed

lemma read_u32_bytes: "i = length xs \<Longrightarrow> read_u32_le (xs @ u32_bytes w @ ys) i = w"
  unfolding read_u32_le_def
  by (simp add: nth_append u32_bytes_def bytes_join)

lemma read_u32_append: "i + 3 < length xs \<Longrightarrow> read_u32_le (xs @ ys) i = read_u32_le xs i"
  by (simp add: read_u32_le_def nth_append)

end
