(* ===== verification/Patch_Site.thy ===== *)
theory Patch_Site
  imports C_Text Device_Sites Byte_Codec
begin

text \<open>
  The patch primitive of \<open>src/camera/e1-ptz-patch-supervisor.c\<close>: stopping and releasing the
  threads of the target process, reading and writing its memory through \<open>ptrace\<close>, and
  \<open>inspect_or_modify\<close>, which inspects, installs or restores the eight bytes of a hook site.

  The target's memory is a function from addresses to bytes; a \<open>long\<close> has four bytes, so a
  \<open>PTRACE_POKEDATA\<close> stores four of them at once. Which calls into the kernel fail is an
  argument: for the thread walk the directory listings with the outcome of each call per
  thread, for the memory the set of byte offsets at which a peek or poke succeeds. While all
  threads are stopped nothing else writes the target's memory.
\<close>

section \<open>Numbers on the command line and in \<open>/proc\<close>\<close>

definition parse_pid :: "string \<Rightarrow> nat option" where
  "parse_pid t =
     (case strtoul 10 t of None \<Rightarrow> None
      | Some (v, rest, err) \<Rightarrow> if err \<or> rest \<noteq> [] \<or> v = 0 \<or> v > 4194304 then None else Some v)"

definition parse_tid_name :: "string \<Rightarrow> nat option" where
  "parse_tid_name t =
     (case strtoul 10 t of None \<Rightarrow> None
      | Some (v, rest, err) \<Rightarrow> if err \<or> rest \<noteq> [] \<or> v = 0 \<or> v > 4194304 then None else Some v)"

definition parse_u32 :: "string \<Rightarrow> u32 option" where
  "parse_u32 t =
     (case strtoul 0 t of None \<Rightarrow> None
      | Some (v, rest, err) \<Rightarrow> if err \<or> rest \<noteq> [] \<or> v > 2 ^ 32 - 1 then None
                              else Some (word_of_nat v))"

section \<open>Mappings of the target\<close>

text \<open>A line of \<open>/proc/<pid>/maps\<close>: the fields \<open>sscanf\<close> reads, when it reads all three, and the
  whole text.\<close>

record maps_line =
  map_fields :: "(nat \<times> nat \<times> string) option"
  line_text :: string

fun contains :: "string \<Rightarrow> string \<Rightarrow> bool" where
  "contains [] needle \<longleftrightarrow> needle = []"
| "contains (c # cs) needle \<longleftrightarrow> take (length needle) (c # cs) = needle \<or> contains cs needle"

definition perm_at :: "string \<Rightarrow> nat \<Rightarrow> char \<Rightarrow> bool" where
  "perm_at perms i c \<longleftrightarrow> i < length perms \<and> perms ! i = c"

definition maps_line_covers :: "u32 \<Rightarrow> string \<Rightarrow> maps_line \<Rightarrow> bool" where
  "maps_line_covers address path l \<longleftrightarrow>
     (case map_fields l of None \<Rightarrow> False
      | Some (start, end_address, perms) \<Rightarrow>
          unat address \<ge> start \<and> unat address + 8 \<le> end_address \<and>
          perm_at perms 0 CHR ''r'' \<and> perm_at perms 2 CHR ''x'' \<and> contains (line_text l) path)"

definition address_is_executable :: "maps_line list option \<Rightarrow> u32 \<Rightarrow> string \<Rightarrow> bool" where
  "address_is_executable maps address path =
     (case maps of None \<Rightarrow> False | Some ls \<Rightarrow> list_ex (maps_line_covers address path) ls)"

section \<open>Stopping every thread\<close>

definition MAX_THREADS :: nat where [e1_consts]: "MAX_THREADS = 128"
definition attach_passes :: nat where [e1_consts]: "attach_passes = 16"

datatype call_result = Call_Ok | Call_Esrch | Call_Failed
datatype stop_result = Stop_Ok | Stop_Exited | Stop_Failed

text \<open>The loop of \<open>wait_stopped\<close>: what \<open>waitpid\<close> reports each time before the deadline.\<close>

datatype wait_report = Wait_Stopped | Wait_Other_Status | Wait_Nothing | Wait_Interrupted
  | Wait_No_Child | Wait_Error

fun wait_stopped :: "wait_report list \<Rightarrow> stop_result" where
  "wait_stopped [] = Stop_Failed"
| "wait_stopped (Wait_Stopped # ws) = Stop_Ok"
| "wait_stopped (Wait_Other_Status # ws) = Stop_Exited"
| "wait_stopped (Wait_Nothing # ws) = wait_stopped ws"
| "wait_stopped (Wait_Interrupted # ws) = wait_stopped ws"
| "wait_stopped (Wait_No_Child # ws) = Stop_Exited"
| "wait_stopped (Wait_Error # ws) = Stop_Failed"

text \<open>A directory entry of \<open>/proc/<pid>/task\<close> and what the calls on its thread return.\<close>

record task_entry =
  task_name :: string
  seize :: call_result
  interrupt :: call_result
  waits :: "wait_report list"

record thread_entry =
  tid :: nat
  stopped :: bool

fun thread_index :: "thread_entry list \<Rightarrow> nat \<Rightarrow> nat option" where
  "thread_index [] t = None"
| "thread_index (e # es) t = (if tid e = t then Some 0 else map_option Suc (thread_index es t))"

text \<open>One pass over the directory: the threads, and how many were added, or \<open>None\<close> when the
  pass fails.\<close>

fun walk_tasks :: "task_entry list \<Rightarrow> thread_entry list \<Rightarrow> nat \<Rightarrow> thread_entry list \<times> nat option" where
  "walk_tasks [] threads added = (threads, Some added)"
| "walk_tasks (e # es) threads added =
     (case parse_tid_name (task_name e) of
        None \<Rightarrow> walk_tasks es threads added
      | Some t \<Rightarrow>
          if thread_index threads t \<noteq> None then walk_tasks es threads added
          else if length threads \<ge> MAX_THREADS then (threads, None)
          else (case seize e of
              Call_Esrch \<Rightarrow> walk_tasks es threads added
            | Call_Failed \<Rightarrow> (threads, None)
            | Call_Ok \<Rightarrow>
                (case interrupt e of
                   Call_Esrch \<Rightarrow> walk_tasks es threads added
                 | Call_Failed \<Rightarrow> (threads @ [\<lparr>tid = t, stopped = False\<rparr>], None)
                 | Call_Ok \<Rightarrow>
                     (case wait_stopped (waits e) of
                        Stop_Exited \<Rightarrow> walk_tasks es threads added
                      | Stop_Failed \<Rightarrow> (threads @ [\<lparr>tid = t, stopped = False\<rparr>], None)
                      | Stop_Ok \<Rightarrow>
                          walk_tasks es (threads @ [\<lparr>tid = t, stopped = True\<rparr>]) (added + 1)))))"

text \<open>A listing is \<open>None\<close> when the directory cannot be opened; the flag is \<open>closedir\<close>'s.\<close>

fun attach_loop ::
    "nat \<Rightarrow> (task_entry list option \<times> bool) list \<Rightarrow> thread_entry list \<Rightarrow> thread_entry list \<times> bool"
where
  "attach_loop pid [] threads = (threads, False)"
| "attach_loop pid ((None, closed) # passes) threads = (threads, False)"
| "attach_loop pid ((Some es, closed) # passes) threads =
     (case walk_tasks es threads 0 of
        (threads, None) \<Rightarrow> (threads, False)
      | (threads, Some added) \<Rightarrow>
          if \<not> closed then (threads, False)
          else if added = 0 then (threads, thread_index threads pid \<noteq> None)
          else attach_loop pid passes threads)"

definition attach_all_threads ::
    "nat \<Rightarrow> (task_entry list option \<times> bool) list \<Rightarrow> thread_entry list \<times> bool" where
  "attach_all_threads pid passes = attach_loop pid (take attach_passes passes) []"

text \<open>What the calls that release a thread return, by thread.\<close>

record detach_world =
  d_interrupt :: "nat \<Rightarrow> call_result"
  d_waits :: "nat \<Rightarrow> wait_report list"
  d_detach :: "nat \<Rightarrow> call_result"

definition detach_thread :: "detach_world \<Rightarrow> thread_entry \<Rightarrow> thread_entry \<times> bool" where
  "detach_thread d e =
     (let t = tid e;
          now_stopped = stopped e \<or> (d_interrupt d t = Call_Ok \<and> wait_stopped (d_waits d t) = Stop_Ok);
          lost = \<not> now_stopped \<and>
            (d_interrupt d t = Call_Failed \<or>
             (d_interrupt d t = Call_Ok \<and> wait_stopped (d_waits d t) = Stop_Failed))
      in if lost then (e, False)
         else (e\<lparr>stopped := False\<rparr>, \<not> (now_stopped \<and> d_detach d t = Call_Failed)))"

definition detach_all_threads :: "detach_world \<Rightarrow> thread_entry list \<Rightarrow> thread_entry list \<times> bool" where
  "detach_all_threads d threads =
     foldr (\<lambda>e (es, ok). let (e', ok') = detach_thread d e in (e' # es, ok \<and> ok')) threads ([], True)"

section \<open>The memory of the target\<close>

type_synonym memory = "u32 \<Rightarrow> u8"

definition bytes_at :: "memory \<Rightarrow> u32 \<Rightarrow> nat \<Rightarrow> u8 list" where
  "bytes_at mem a n = map (\<lambda>i. mem (a + word_of_nat i)) [0..<n]"

definition store_bytes :: "memory \<Rightarrow> u32 \<Rightarrow> u8 list \<Rightarrow> memory" where
  "store_bytes mem a bs = (\<lambda>x. if unat (x - a) < length bs then bs ! unat (x - a) else mem x)"

definition sizeof_long :: nat where "sizeof_long = 4"

text \<open>\<open>read_remote\<close>: word by word, until a peek fails.\<close>

function read_remote :: "(nat \<Rightarrow> bool) \<Rightarrow> memory \<Rightarrow> u32 \<Rightarrow> nat \<Rightarrow> nat \<Rightarrow> u8 list option" where
  "read_remote peek_ok mem address amount offset =
     (if \<not> offset < amount then Some []
      else if \<not> peek_ok offset then None
      else let n = min sizeof_long (amount - offset)
           in map_option (\<lambda>bs. bytes_at mem (address + word_of_nat offset) n @ bs)
                (read_remote peek_ok mem address amount (offset + n)))"
  by auto
termination
  by (relation "measure (\<lambda>(_, _, _, amount, offset). amount - offset)")
    (auto simp: sizeof_long_def)

text \<open>\<open>write_remote\<close>: a poke stores a whole word; at the end of a length that is no multiple of
  four the word is peeked first, so that the bytes past the end are stored back unchanged.\<close>

function write_remote ::
    "(nat \<Rightarrow> bool) \<Rightarrow> (nat \<Rightarrow> bool) \<Rightarrow> memory \<Rightarrow> u32 \<Rightarrow> u8 list \<Rightarrow> nat \<Rightarrow> memory \<times> bool" where
  "write_remote peek_ok poke_ok mem address bytes offset =
     (if \<not> offset < length bytes then (mem, True)
      else let n = min sizeof_long (length bytes - offset);
               a = address + word_of_nat offset;
               word = take n (drop offset bytes) @ drop n (bytes_at mem a sizeof_long)
           in if n < sizeof_long \<and> \<not> peek_ok offset then (mem, False)
              else if \<not> poke_ok offset then (mem, False)
              else write_remote peek_ok poke_ok (store_bytes mem a word) address bytes (offset + n))"
  by auto
termination
  by (relation "measure (\<lambda>(_, _, _, _, bytes, offset). length bytes - offset)")
    (auto simp: sizeof_long_def)

declare read_remote.simps [simp del] write_remote.simps [simp del]

section \<open>The patch\<close>

record patch_spec =
  target_path :: string
  mapping_path :: string
  original :: "u8 list"
  patch :: "u8 list"

definition DUMMY_TARGET :: string where "DUMMY_TARGET = ''/mnt/tmp/e1-doom/e1-ptz-patch-dummy''"
definition DEVICE_TARGET :: string where "DEVICE_TARGET = ''/mnt/app/device''"
definition DEVICE_LIBRARY :: string where
  "DEVICE_LIBRARY = ''/mnt/tmp/e1-doom/e1-doom-injected.so''"

definition original_bytes :: "u8 list" where
  "original_bytes = [0x11, 0x20, 0x70, 0x47, 0x00, 0xbf, 0x00, 0xbf]"
definition patched_bytes :: "u8 list" where
  "patched_bytes = [0x22, 0x20, 0x70, 0x47, 0x00, 0xbf, 0x00, 0xbf]"
definition device_original_bytes :: "u8 list" where
  "device_original_bytes = [0x2d, 0xe9, 0xf0, 0x4f, 0x04, 0x46, 0x15, 0x46]"
definition device_audio_original_bytes :: "u8 list" where
  "device_audio_original_bytes = [0x10, 0xb5, 0x00, 0xf5, 0xcc, 0x20, 0x00, 0x2a]"

definition dummy_spec :: patch_spec where
  "dummy_spec = \<lparr>target_path = DUMMY_TARGET, mapping_path = DUMMY_TARGET,
     original = original_bytes, patch = patched_bytes\<rparr>"

text \<open>The patch is a Thumb jump, \<open>ldr.w pc, [pc]\<close>, with the hook's address behind it.\<close>

definition jump_prefix :: "u8 list" where "jump_prefix = [0xdf, 0xf8, 0x00, 0xf0]"

definition device_spec :: "u32 \<Rightarrow> patch_spec" where
  "device_spec hook_address = \<lparr>target_path = DEVICE_TARGET, mapping_path = DEVICE_TARGET,
     original = device_original_bytes, patch = jump_prefix @ u32_bytes hook_address\<rparr>"

definition device_audio_spec :: "u32 \<Rightarrow> patch_spec" where
  "device_audio_spec hook_address = \<lparr>target_path = DEVICE_TARGET, mapping_path = DEVICE_TARGET,
     original = device_audio_original_bytes, patch = jump_prefix @ u32_bytes hook_address\<rparr>"

definition is_safe_partial_patch :: "patch_spec \<Rightarrow> u8 list \<Rightarrow> bool" where
  "is_safe_partial_patch spec current =
     list_all (\<lambda>offset.
         take 4 (drop offset current) = take 4 (drop offset (original spec)) \<or>
         take 4 (drop offset current) = take 4 (drop offset (patch spec))) [0, 4]"

text \<open>What the outside does during one call: the executable, the mappings, the live read, the
  threads, and the offsets at which each run of peeks and pokes succeeds.\<close>

record modify_world =
  exe_path :: "string option"
  maps_file :: "maps_line list option"
  live_read_ok :: bool
  task_passes :: "(task_entry list option \<times> bool) list"
  detach_calls :: detach_world
  peek_current :: "nat \<Rightarrow> bool"
  poke_new :: "nat \<Rightarrow> bool"
  peek_verify :: "nat \<Rightarrow> bool"
  poke_rollback :: "nat \<Rightarrow> bool"

definition verify_executable :: "string option \<Rightarrow> string \<Rightarrow> bool" where
  "verify_executable link expected \<longleftrightarrow> link = Some expected"

definition install_stopped :: "modify_world \<Rightarrow> u32 \<Rightarrow> patch_spec \<Rightarrow> memory \<Rightarrow> memory \<times> int" where
  "install_stopped w address spec mem =
     (if bytes_at mem address 8 \<noteq> original spec then (mem, -1)
      else let (mem1, written) = write_remote (peek_verify w) (poke_new w) mem address (patch spec) 0
           in if written \<and> read_remote (peek_verify w) mem1 address 8 0 = Some (patch spec)
              then (mem1, 0)
              else (fst (write_remote (peek_verify w) (poke_rollback w) mem1 address
                           (original spec) 0), -1))"

definition restore_stopped :: "modify_world \<Rightarrow> u32 \<Rightarrow> patch_spec \<Rightarrow> memory \<Rightarrow> memory \<times> int" where
  "restore_stopped w address spec mem =
     (if \<not> is_safe_partial_patch spec (bytes_at mem address 8) then (mem, -1)
      else let (mem1, written) = write_remote (peek_verify w) (poke_new w) mem address (original spec) 0
           in if written \<and> read_remote (peek_verify w) mem1 address 8 0 = Some (original spec)
              then (mem1, 0) else (mem1, -1))"

text \<open>Operation 0 inspects the original bytes, 2 the patch, 1 installs and any other restores.\<close>

definition inspect_or_modify ::
    "modify_world \<Rightarrow> nat \<Rightarrow> u32 \<Rightarrow> int \<Rightarrow> patch_spec \<Rightarrow> memory \<Rightarrow> memory \<times> int" where
  "inspect_or_modify w pid address operation spec mem =
     (if \<not> verify_executable (exe_path w) (target_path spec) \<or> address AND 3 \<noteq> 0 \<or>
         \<not> address_is_executable (maps_file w) address (mapping_path spec) then (mem, -1)
      else if operation = 0 \<or> operation = 2 then
        (if \<not> live_read_ok w then (mem, -1)
         else (mem, if bytes_at mem address 8 = (if operation = 0 then original spec else patch spec)
                    then 0 else -1))
      else let (threads, attached) = attach_all_threads pid (task_passes w)
           in if \<not> attached then (mem, -1)
              else let (mem, result) =
                     (case read_remote (peek_current w) mem address 8 0 of
                        None \<Rightarrow> (mem, -1)
                      | Some _ \<Rightarrow> if operation = 1 then install_stopped w address spec mem
                                  else restore_stopped w address spec mem)
                   in (mem, if snd (detach_all_threads (detach_calls w) threads) then result else -1))"

section \<open>Eight bytes at a site\<close>

lemma bytes_at_nth: "bytes_at mem a n = map (\<lambda>i. mem (a + word_of_nat i)) [0..<n]"
  by (rule bytes_at_def)

lemma length_bytes_at [simp]: "length (bytes_at mem a n) = n"
  by (simp add: bytes_at_def)

lemma read_eight:
  "read_remote ok mem a 8 0 = (if ok 0 \<and> ok 4 then Some (bytes_at mem a 8) else None)"
proof -
  have "bytes_at mem a 8 = bytes_at mem (a + word_of_nat 0) 4 @ bytes_at mem (a + word_of_nat 4) 4"
    by (simp add: bytes_at_def eval_nat_numeral add.assoc)
  then show ?thesis
    by (simp add: read_remote.simps [of _ _ _ _ 0] read_remote.simps [of _ _ _ _ 4]
        read_remote.simps [of _ _ _ _ 8] sizeof_long_def)
qed

lemma store_two:
  assumes "length bs = 8"
  shows "store_bytes (store_bytes mem a (take 4 bs)) (a + 4) (drop 4 bs) = store_bytes mem a bs"
proof
  fix x
  have "unat (x - (a + 4)) < 4 \<longleftrightarrow> 4 \<le> unat (x - a) \<and> unat (x - a) < 8"
    and "4 \<le> unat (x - a) \<Longrightarrow> unat (x - (a + 4)) = unat (x - a) - 4"
  proof -
    have eq: "x - (a + 4) = (x - a) - 4" by simp
    show sub: "unat (x - (a + 4)) = unat (x - a) - 4" if "4 \<le> unat (x - a)"
    proof -
      from that have "(4 :: u32) \<le> x - a" by (simp add: word_le_nat_alt)
      then show ?thesis unfolding eq by (simp add: unat_sub)
    qed
    show "unat (x - (a + 4)) < 4 \<longleftrightarrow> 4 \<le> unat (x - a) \<and> unat (x - a) < 8"
    proof (cases "4 \<le> unat (x - a)")
      case True
      with sub show ?thesis by auto
    next
      case False
      then have "x - a < 4" by (simp add: word_less_nat_alt)
      from unat_elapsed_wrapped [OF this] have "unat (x - (a + 4)) = 2 ^ 32 - (4 - unat (x - a))"
        unfolding eq by simp
      with False show ?thesis by simp
    qed
  qed
  then show "store_bytes (store_bytes mem a (take 4 bs)) (a + 4) (drop 4 bs) x =
      store_bytes mem a bs x"
    using assms by (auto simp: store_bytes_def)
qed

lemma write_eight:
  assumes "length bs = 8"
  shows "write_remote peek poke mem a bs 0 =
    (if \<not> poke 0 then (mem, False)
     else if \<not> poke 4 then (store_bytes mem a (take 4 bs), False)
     else (store_bytes mem a bs, True))"
  using assms store_two [OF assms, of mem a]
  by (simp add: write_remote.simps [of _ _ _ _ _ 0] write_remote.simps [of _ _ _ _ _ 4]
      write_remote.simps [of _ _ _ _ _ 8] sizeof_long_def Let_def)

lemma store_bytes_at:
  assumes "length bs \<le> n" and "n \<le> 8"
  shows "bytes_at (store_bytes mem a bs) a n = bs @ drop (length bs) (bytes_at mem a n)"
proof (rule nth_equalityI)
  fix i assume "i < length (bytes_at (store_bytes mem a bs) a n)"
  then have "i < n" by simp
  then have "unat (word_of_nat i :: u32) = i" using assms by (simp add: unat_of_nat take_bit_nat_eq_self)
  then show "bytes_at (store_bytes mem a bs) a n ! i = (bs @ drop (length bs) (bytes_at mem a n)) ! i"
    using \<open>i < n\<close> assms by (simp add: bytes_at_def store_bytes_def nth_append)
qed (use assms in simp)

lemma store_elsewhere: "length bs \<le> 8 \<Longrightarrow> 8 \<le> unat (x - a) \<Longrightarrow> store_bytes mem a bs x = mem x"
  by (simp add: store_bytes_def)

text \<open>Two memories that agree outside the site.\<close>

definition same_elsewhere :: "u32 \<Rightarrow> memory \<Rightarrow> memory \<Rightarrow> bool" where
  "same_elsewhere a mem mem' \<longleftrightarrow> (\<forall>x. 8 \<le> unat (x - a) \<longrightarrow> mem' x = mem x)"

lemma same_elsewhere_refl [simp]: "same_elsewhere a mem mem"
  by (simp add: same_elsewhere_def)

lemma same_elsewhere_store:
  "same_elsewhere a mem mem' \<Longrightarrow> length bs \<le> 8 \<Longrightarrow> same_elsewhere a mem (store_bytes mem' a bs)"
  by (simp add: same_elsewhere_def store_elsewhere)

lemma same_memory:
  assumes "same_elsewhere a mem mem'" and "bytes_at mem' a 8 = bytes_at mem a 8"
  shows "mem' = mem"
proof
  fix x
  show "mem' x = mem x"
  proof (cases "unat (x - a) < 8")
    case True
    then have "bytes_at m a 8 ! unat (x - a) = m x" for m by (simp add: bytes_at_def)
    with assms(2) show ?thesis by metis
  next
    case False
    with assms(1) show ?thesis by (simp add: same_elsewhere_def)
  qed
qed

section \<open>The contract of one call\<close>

definition wf_spec :: "patch_spec \<Rightarrow> bool" where
  "wf_spec spec \<longleftrightarrow> length (original spec) = 8 \<and> length (patch spec) = 8"

text \<open>Each word of the site is the original's or the patch's.\<close>

definition restorable :: "patch_spec \<Rightarrow> u32 \<Rightarrow> memory \<Rightarrow> bool" where
  "restorable spec a mem \<longleftrightarrow> is_safe_partial_patch spec (bytes_at mem a 8)"

lemma restorable_words:
  "restorable spec a mem \<longleftrightarrow>
     take 4 (bytes_at mem a 8) \<in> {take 4 (original spec), take 4 (patch spec)} \<and>
     take 4 (drop 4 (bytes_at mem a 8)) \<in> {take 4 (drop 4 (original spec)), take 4 (drop 4 (patch spec))}"
  by (simp add: restorable_def is_safe_partial_patch_def)

lemma restorable_whole:
  "bytes_at mem a 8 = original spec \<or> bytes_at mem a 8 = patch spec \<Longrightarrow> restorable spec a mem"
  by (elim disjE) (simp_all only: restorable_words insert_iff simp_thms)

lemma write_keeps:
  assumes "wf_spec spec" and bs: "bs = original spec \<or> bs = patch spec"
    and safe: "restorable spec a mem" and w: "write_remote peek poke mem a bs 0 = (mem', ok)"
  shows "restorable spec a mem'" and "same_elsewhere a mem mem'"
    and "ok \<Longrightarrow> bytes_at mem' a 8 = bs"
    and "ok \<longleftrightarrow> poke 0 \<and> poke 4"
proof -
  from assms(1) bs have len: "length bs = 8" by (auto simp: wf_spec_def)
  from w consider "mem' = mem" "\<not> ok" "\<not> (poke 0 \<and> poke 4)"
    | "mem' = store_bytes mem a (take 4 bs)" "\<not> ok" "\<not> (poke 0 \<and> poke 4)"
    | "mem' = store_bytes mem a bs" "ok" "poke 0 \<and> poke 4"
    unfolding write_eight [OF len] by (auto split: if_splits)
  then have "restorable spec a mem' \<and> same_elsewhere a mem mem' \<and>
      (ok \<longrightarrow> bytes_at mem' a 8 = bs) \<and> (ok \<longleftrightarrow> poke 0 \<and> poke 4)"
  proof cases
    case 2
    have "bytes_at mem' a 8 = take 4 bs @ drop 4 (bytes_at mem a 8)"
      unfolding 2 using len by (subst store_bytes_at) simp_all
    then have "take 4 (bytes_at mem' a 8) = take 4 bs"
      and "take 4 (drop 4 (bytes_at mem' a 8)) = take 4 (drop 4 (bytes_at mem a 8))"
      using len by simp_all
    with safe bs have "restorable spec a mem'" by (auto simp: restorable_words)
    with 2 len show ?thesis by (simp add: same_elsewhere_store)
  next
    case 3
    then have "bytes_at mem' a 8 = bs" using len by (simp add: store_bytes_at)
    with 3 len bs show ?thesis
      using restorable_whole [of mem' a spec] by (auto simp: same_elsewhere_store)
  qed (use safe in simp)
  then show "restorable spec a mem'" "same_elsewhere a mem mem'" "ok \<Longrightarrow> bytes_at mem' a 8 = bs"
    "ok \<longleftrightarrow> poke 0 \<and> poke 4" by blast+
qed

lemma same_elsewhere_trans:
  "same_elsewhere a m1 m2 \<Longrightarrow> same_elsewhere a m2 m3 \<Longrightarrow> same_elsewhere a m1 m3"
  by (simp add: same_elsewhere_def)

lemma install_spec:
  assumes wf: "wf_spec spec" and run: "install_stopped w a spec mem = (mem', result)"
  shows "same_elsewhere a mem mem'" and "restorable spec a mem \<Longrightarrow> restorable spec a mem'"
    and "result = 0 \<Longrightarrow> bytes_at mem a 8 = original spec \<and> bytes_at mem' a 8 = patch spec"
    and "bytes_at mem a 8 \<noteq> original spec \<Longrightarrow> mem' = mem \<and> result = -1"
    and "result = 0 \<or> result = -1"
proof -
  have "same_elsewhere a mem mem' \<and> (restorable spec a mem \<longrightarrow> restorable spec a mem') \<and>
      (result = 0 \<longrightarrow> bytes_at mem a 8 = original spec \<and> bytes_at mem' a 8 = patch spec) \<and>
      (bytes_at mem a 8 \<noteq> original spec \<longrightarrow> mem' = mem \<and> result = -1) \<and>
      (result = 0 \<or> result = -1)"
  proof (cases "bytes_at mem a 8 = original spec")
    case False
    with run show ?thesis by (simp add: install_stopped_def)
  next
    case True
    then have safe: "restorable spec a mem" by (simp add: restorable_whole)
    obtain m1 written where w1: "write_remote (peek_verify w) (poke_new w) mem a (patch spec) 0 =
        (m1, written)" by force
    note k1 = write_keeps [OF wf disjI2 [OF refl] safe w1]
    obtain m2 done2 where w2: "write_remote (peek_verify w) (poke_rollback w) m1 a (original spec) 0 =
        (m2, done2)" by force
    note k2 = write_keeps [OF wf disjI1 [OF refl] k1(1) w2]
    have "(mem', result) = (if written \<and> read_remote (peek_verify w) m1 a 8 0 = Some (patch spec)
        then (m1, 0) else (m2, -1))"
    proof -
      have "fst (write_remote (peek_verify w) (poke_rollback w) m1 a (original spec) 0) = m2"
        using w2 by simp
      with run True show ?thesis by (auto simp: install_stopped_def w1 split: if_splits)
    qed
    then show ?thesis using True k1 k2 same_elsewhere_trans [OF k1(2) k2(2)]
      by (auto split: if_splits)
  qed
  then show "same_elsewhere a mem mem'" "restorable spec a mem \<Longrightarrow> restorable spec a mem'"
    "result = 0 \<Longrightarrow> bytes_at mem a 8 = original spec \<and> bytes_at mem' a 8 = patch spec"
    "bytes_at mem a 8 \<noteq> original spec \<Longrightarrow> mem' = mem \<and> result = -1"
    "result = 0 \<or> result = -1" by blast+
qed

lemma restore_spec:
  assumes wf: "wf_spec spec" and run: "restore_stopped w a spec mem = (mem', result)"
  shows "same_elsewhere a mem mem'" and "restorable spec a mem \<Longrightarrow> restorable spec a mem'"
    and "result = 0 \<Longrightarrow> restorable spec a mem \<and> bytes_at mem' a 8 = original spec"
    and "\<not> restorable spec a mem \<Longrightarrow> mem' = mem \<and> result = -1"
    and "result = 0 \<or> result = -1"
    and "restorable spec a mem \<Longrightarrow> poke_new w 0 \<and> poke_new w 4 \<and> peek_verify w 0 \<and> peek_verify w 4 \<Longrightarrow>
      result = 0"
proof -
  have "same_elsewhere a mem mem' \<and> (restorable spec a mem \<longrightarrow> restorable spec a mem') \<and>
      (result = 0 \<longrightarrow> restorable spec a mem \<and> bytes_at mem' a 8 = original spec) \<and>
      (\<not> restorable spec a mem \<longrightarrow> mem' = mem \<and> result = -1) \<and> (result = 0 \<or> result = -1) \<and>
      (restorable spec a mem \<longrightarrow> poke_new w 0 \<and> poke_new w 4 \<and> peek_verify w 0 \<and> peek_verify w 4 \<longrightarrow>
        result = 0)"
  proof (cases "restorable spec a mem")
    case False
    with run show ?thesis by (simp add: restore_stopped_def restorable_def)
  next
    case True
    obtain m1 written where w1: "write_remote (peek_verify w) (poke_new w) mem a (original spec) 0 =
        (m1, written)" by force
    note k1 = write_keeps [OF wf disjI1 [OF refl] True w1]
    have "(mem', result) = (if written \<and> read_remote (peek_verify w) m1 a 8 0 = Some (original spec)
        then (m1, 0) else (m1, -1))"
      using run True by (simp add: restore_stopped_def restorable_def w1)
    then show ?thesis using True k1 by (auto simp: read_eight split: if_splits)
  qed
  then show "same_elsewhere a mem mem'" "restorable spec a mem \<Longrightarrow> restorable spec a mem'"
    "result = 0 \<Longrightarrow> restorable spec a mem \<and> bytes_at mem' a 8 = original spec"
    "\<not> restorable spec a mem \<Longrightarrow> mem' = mem \<and> result = -1" "result = 0 \<or> result = -1"
    "restorable spec a mem \<Longrightarrow> poke_new w 0 \<and> poke_new w 4 \<and> peek_verify w 0 \<and> peek_verify w 4 \<Longrightarrow>
      result = 0" by blast+
qed

text \<open>The guards every operation passes first.\<close>

definition valid_target :: "modify_world \<Rightarrow> u32 \<Rightarrow> patch_spec \<Rightarrow> bool" where
  "valid_target w a spec \<longleftrightarrow> verify_executable (exe_path w) (target_path spec) \<and> a AND 3 = 0 \<and>
     address_is_executable (maps_file w) a (mapping_path spec)"

text \<open>The states a call can leave: nothing done, or what the stopped phase did, the result turned
  into an error when the threads cannot be released.\<close>

lemma modify_cases:
  assumes "inspect_or_modify w pid a operation spec mem = (mem', result)"
  obtains (untouched) "mem' = mem" "result = 0 \<longrightarrow> operation = 0 \<or> operation = 2"
  | (installed) r where "operation = 1" "install_stopped w a spec mem = (mem', r)"
      "result = r \<or> result = -1"
  | (restored) r where "operation \<notin> {0, 1, 2}" "restore_stopped w a spec mem = (mem', r)"
      "result = r \<or> result = -1"
proof -
  have "mem' = mem \<and> (result = 0 \<longrightarrow> operation = 0 \<or> operation = 2) \<or>
      operation = 1 \<and> (\<exists>r. install_stopped w a spec mem = (mem', r) \<and> (result = r \<or> result = -1)) \<or>
      operation \<notin> {0, 1, 2} \<and>
        (\<exists>r. restore_stopped w a spec mem = (mem', r) \<and> (result = r \<or> result = -1))"
    using assms by (auto simp: inspect_or_modify_def Let_def split: if_splits option.splits prod.splits)
  then show ?thesis using that by blast
qed

lemma modify_contract:
  assumes wf: "wf_spec spec" and run: "inspect_or_modify w pid a operation spec mem = (mem', result)"
  shows "same_elsewhere a mem mem'" and "restorable spec a mem \<Longrightarrow> restorable spec a mem'"
    and "result = 0 \<Longrightarrow> operation \<notin> {0, 1, 2} \<Longrightarrow> bytes_at mem' a 8 = original spec"
    and "result = 0 \<Longrightarrow> operation = 1 \<Longrightarrow>
      bytes_at mem a 8 = original spec \<and> bytes_at mem' a 8 = patch spec"
proof -
  have "same_elsewhere a mem mem' \<and> (restorable spec a mem \<longrightarrow> restorable spec a mem') \<and>
      (result = 0 \<longrightarrow> operation \<notin> {0, 1, 2} \<longrightarrow> bytes_at mem' a 8 = original spec) \<and>
      (result = 0 \<longrightarrow> operation = 1 \<longrightarrow>
        bytes_at mem a 8 = original spec \<and> bytes_at mem' a 8 = patch spec)"
    using run
  proof (cases rule: modify_cases)
    case (installed r)
    note i = install_spec [OF wf installed(2)]
    from installed(3) have "result = 0 \<longrightarrow> r = 0" by auto
    with i(1,2,3) installed(1) show ?thesis by simp
  next
    case (restored r)
    note i = restore_spec [OF wf restored(2)]
    from restored(3) have "result = 0 \<longrightarrow> r = 0" by auto
    with i(1,2,3) restored(1) show ?thesis by simp
  qed auto
  then show "same_elsewhere a mem mem'" "restorable spec a mem \<Longrightarrow> restorable spec a mem'"
    "result = 0 \<Longrightarrow> operation \<notin> {0, 1, 2} \<Longrightarrow> bytes_at mem' a 8 = original spec"
    "result = 0 \<Longrightarrow> operation = 1 \<Longrightarrow>
      bytes_at mem a 8 = original spec \<and> bytes_at mem' a 8 = patch spec" by blast+
qed

section \<open>Any sequence of calls\<close>

type_synonym patch_call = "modify_world \<times> nat \<times> int"

definition patch_step :: "u32 \<Rightarrow> patch_spec \<Rightarrow> patch_call \<Rightarrow> memory \<Rightarrow> memory" where
  "patch_step a spec c mem =
     fst (inspect_or_modify (fst c) (fst (snd c)) a (snd (snd c)) spec mem)"

definition patch_inv :: "u32 \<Rightarrow> patch_spec \<Rightarrow> memory \<Rightarrow> memory \<Rightarrow> bool" where
  "patch_inv a spec mem0 mem \<longleftrightarrow> wf_spec spec \<and> same_elsewhere a mem0 mem \<and> restorable spec a mem"

interpretation site: event_machine "patch_step a spec" "patch_inv a spec mem0"
proof
  fix mem and c :: patch_call
  assume inv: "patch_inv a spec mem0 mem"
  obtain mem' r where run: "inspect_or_modify (fst c) (fst (snd c)) a (snd (snd c)) spec mem = (mem', r)"
    by force
  from inv have wf: "wf_spec spec" by (simp add: patch_inv_def)
  from modify_contract(1,2) [OF wf run] inv same_elsewhere_trans [of a mem0 mem mem']
  show "patch_inv a spec mem0 (patch_step a spec c mem)"
    by (simp add: patch_inv_def patch_step_def run)
qed

text \<open>A call in which nothing fails: valid target, all threads stopped and released, every peek and
  poke succeeds.\<close>

definition undisturbed :: "modify_world \<Rightarrow> nat \<Rightarrow> u32 \<Rightarrow> patch_spec \<Rightarrow> bool" where
  "undisturbed w pid a spec \<longleftrightarrow> valid_target w a spec \<and>
     snd (attach_all_threads pid (task_passes w)) \<and>
     snd (detach_all_threads (detach_calls w) (fst (attach_all_threads pid (task_passes w)))) \<and>
     peek_current w 0 \<and> peek_current w 4 \<and> poke_new w 0 \<and> poke_new w 4 \<and>
     peek_verify w 0 \<and> peek_verify w 4"

lemma undisturbed_restore:
  assumes wf: "wf_spec spec" and u: "undisturbed w pid a spec" and safe: "restorable spec a mem"
  shows "snd (inspect_or_modify w pid a (-1) spec mem) = 0"
proof -
  obtain m r where rs: "restore_stopped w a spec mem = (m, r)" by force
  with restore_spec(6) [OF wf rs safe] u have "r = 0" by (simp add: undisturbed_def)
  obtain th where at: "attach_all_threads pid (task_passes w) = (th, True)"
    using u by (cases "attach_all_threads pid (task_passes w)") (simp add: undisturbed_def)
  from u have "peek_current w 0" "peek_current w 4" and d: "snd (detach_all_threads (detach_calls w) th)"
    and guards: "verify_executable (exe_path w) (target_path spec)" "a AND 3 = 0"
      "address_is_executable (maps_file w) a (mapping_path spec)"
    by (simp_all add: undisturbed_def valid_target_def at)
  then show ?thesis
    by (simp add: inspect_or_modify_def at rs \<open>r = 0\<close> read_eight)
qed

lemma undisturbed_install:
  assumes wf: "wf_spec spec" and u: "undisturbed w pid a spec" and site: "bytes_at mem a 8 = original spec"
  shows "snd (inspect_or_modify w pid a 1 spec mem) = 0"
proof -
  obtain m ok where w1: "write_remote (peek_verify w) (poke_new w) mem a (patch spec) 0 = (m, ok)"
    by force
  note k = write_keeps [OF wf disjI2 [OF refl] restorable_whole [OF disjI1 [OF site]] w1]
  from k(3,4) u have "ok" and "bytes_at m a 8 = patch spec" by (simp_all add: undisturbed_def)
  with w1 u site have i: "install_stopped w a spec mem = (m, 0)"
    by (simp add: install_stopped_def read_eight undisturbed_def)
  obtain th where at: "attach_all_threads pid (task_passes w) = (th, True)"
    using u by (cases "attach_all_threads pid (task_passes w)") (simp add: undisturbed_def)
  with u i show ?thesis
    by (simp add: inspect_or_modify_def undisturbed_def valid_target_def read_eight)
qed

lemma undisturbed_inspect:
  "undisturbed w pid a spec \<Longrightarrow> live_read_ok w \<Longrightarrow> bytes_at mem a 8 = original spec \<Longrightarrow>
   snd (inspect_or_modify w pid a 0 spec mem) = 0"
  by (simp add: inspect_or_modify_def undisturbed_def valid_target_def)

text \<open>C9. A hook site can always be put back. Start from the site's original bytes and make any
  calls of the supervisor, with whatever kernel calls failing in them and at whatever word: only
  the eight bytes of the site ever differ from the initial memory, a restore in which nothing
  fails returns 0, and it leaves the whole memory of the target exactly as it was.\<close>

theorem patch_always_undoable:
  assumes "wf_spec spec" and "bytes_at mem0 a 8 = original spec"
    and mem: "mem = fold (patch_step a spec) calls mem0"
    and "undisturbed w pid a spec"
  shows "same_elsewhere a mem0 mem \<and> inspect_or_modify w pid a (-1) spec mem = (mem0, 0)"
proof -
  have "patch_inv a spec mem0 mem0"
    using assms(1,2) by (simp add: patch_inv_def restorable_whole)
  from site.run_inv [OF this, of calls] have inv: "patch_inv a spec mem0 mem" by (simp add: mem)
  then have safe: "restorable spec a mem" and same: "same_elsewhere a mem0 mem"
    by (simp_all add: patch_inv_def)
  obtain m r where run: "inspect_or_modify w pid a (-1) spec mem = (m, r)" by force
  with undisturbed_restore [OF assms(1,4) safe] have "r = 0" by simp
  with modify_contract(1,3) [OF assms(1) run]
  have "bytes_at m a 8 = original spec" and "same_elsewhere a mem m" by simp_all
  with same_memory [OF same_elsewhere_trans [OF same]] assms(2) have "m = mem0" by simp
  with run \<open>r = 0\<close> same show ?thesis by simp
qed

text \<open>C24. What the result of a call means: a call changes nothing outside the eight bytes; installing
  returns 0 only when the site held the original bytes and now holds the patch; restoring returns 0
  only when the site now holds the original bytes; inspecting never writes; and a site that is not
  a mixture of the two is refused and left alone.\<close>

theorem patch_call_contract:
  assumes "wf_spec spec" and "inspect_or_modify w pid a operation spec mem = (mem', result)"
  shows "same_elsewhere a mem mem' \<and> (result = 0 \<or> result = -1) \<and>
    (operation = 1 \<longrightarrow> result = 0 \<longrightarrow> bytes_at mem a 8 = original spec \<and> bytes_at mem' a 8 = patch spec) \<and>
    (operation \<notin> {0, 1, 2} \<longrightarrow> result = 0 \<longrightarrow> bytes_at mem' a 8 = original spec) \<and>
    (operation = 0 \<or> operation = 2 \<longrightarrow> mem' = mem) \<and>
    (\<not> restorable spec a mem \<longrightarrow> mem' = mem)"
proof -
  from assms(2) have "(result = 0 \<or> result = -1) \<and> (operation = 0 \<or> operation = 2 \<longrightarrow> mem' = mem)"
    using install_spec(5) [OF assms(1)] restore_spec(5) [OF assms(1)]
    by (auto simp: inspect_or_modify_def Let_def split: if_splits option.splits prod.splits)
  moreover have "mem' = mem" if "\<not> restorable spec a mem"
    using assms(2)
  proof (cases rule: modify_cases)
    case (installed r)
    with that restorable_whole install_spec(4) [OF assms(1) installed(2)] show ?thesis by blast
  next
    case (restored r)
    with that restore_spec(4) [OF assms(1) restored(2)] show ?thesis by blast
  qed simp
  ultimately show ?thesis using modify_contract [OF assms] by blast
qed

section \<open>All threads are stopped\<close>

definition attach_ok :: "thread_entry list \<Rightarrow> bool" where
  "attach_ok threads \<longleftrightarrow> distinct (map tid threads) \<and> (\<forall>e \<in> set threads. stopped e) \<and>
     length threads \<le> MAX_THREADS"

text \<open>The entry is not a thread, or its thread is stopped, or it went away while being stopped.\<close>

definition accounted :: "thread_entry list \<Rightarrow> task_entry \<Rightarrow> bool" where
  "accounted threads e \<longleftrightarrow> (case parse_tid_name (task_name e) of None \<Rightarrow> True
     | Some t \<Rightarrow> t \<in> set (map tid threads) \<or> seize e = Call_Esrch \<or> interrupt e = Call_Esrch \<or>
         wait_stopped (waits e) = Stop_Exited)"

lemma thread_index_iff: "thread_index threads t \<noteq> None \<longleftrightarrow> t \<in> set (map tid threads)"
  by (induction threads) auto

lemma walk_ok:
  assumes "attach_ok threads" and "walk_tasks es threads added = (threads', Some n)"
  shows "attach_ok threads' \<and> set (map tid threads) \<subseteq> set (map tid threads') \<and>
    (\<forall>e \<in> set es. accounted threads' e) \<and> added \<le> n \<and> (n = added \<longrightarrow> threads' = threads)"
  using assms
proof (induction es arbitrary: threads added)
  case (Cons e es)
  let ?goal = "\<lambda>th k. attach_ok threads' \<and> set (map tid th) \<subseteq> set (map tid threads') \<and>
    (\<forall>e \<in> set es. accounted threads' e) \<and> k \<le> n \<and> (n = k \<longrightarrow> threads' = th)"
  have skip: ?case
    if "walk_tasks es threads added = (threads', Some n)" and "?goal threads added \<Longrightarrow> accounted threads' e"
    using Cons.IH [OF Cons.prems(1) that(1)] that(2) by simp
  show ?case
  proof (cases "parse_tid_name (task_name e)")
    case None
    with Cons.prems(2) show ?thesis by (intro skip) (simp_all add: accounted_def)
  next
    case (Some t)
    show ?thesis
    proof (cases "thread_index threads t = None")
      case False
      then have "t \<in> set (map tid threads)" using thread_index_iff by blast
      with False Some Cons.prems(2) show ?thesis by (intro skip) (auto simp: accounted_def)
    next
      case new: True
      then have out: "t \<notin> set (map tid threads)" using thread_index_iff by blast
      have room: "length threads < MAX_THREADS" using Cons.prems(2) Some new by (simp split: if_splits)
      let ?th = "threads @ [\<lparr>tid = t, stopped = True\<rparr>]"
      from Cons.prems(2) Some new room
      consider "walk_tasks es threads added = (threads', Some n)"
          "seize e = Call_Esrch \<or> interrupt e = Call_Esrch \<or> wait_stopped (waits e) = Stop_Exited"
        | "walk_tasks es ?th (added + 1) = (threads', Some n)"
        by (cases "seize e"; cases "interrupt e"; cases "wait_stopped (waits e)") simp_all
      then show ?thesis
      proof cases
        case 1
        with Some show ?thesis by (intro skip) (simp_all add: accounted_def)
      next
        case 2
        have "attach_ok ?th" using Cons.prems(1) out room by (simp add: attach_ok_def)
        from Cons.IH [OF this 2] Some show ?thesis by (simp add: accounted_def)
      qed
    qed
  qed
qed simp

lemma attach_loop_ok:
  assumes "attach_ok threads" and "attach_loop pid passes threads = (threads', True)"
  shows "attach_ok threads' \<and> pid \<in> set (map tid threads') \<and>
    (\<exists>es closed. (Some es, closed) \<in> set passes \<and> (\<forall>e \<in> set es. accounted threads' e))"
  using assms
proof (induction pid passes threads rule: attach_loop.induct)
  case (3 pid es closed passes threads)
  then obtain th n where w: "walk_tasks es threads 0 = (th, Some n)" and "closed"
    by (auto split: prod.splits option.splits if_splits)
  note ok = walk_ok [OF 3(2) w]
  show ?case
  proof (cases "n = 0")
    case True
    with 3(3) w \<open>closed\<close> have "threads' = th" and "thread_index th pid \<noteq> None" by auto
    with ok thread_index_iff [of th pid] show ?thesis by auto
  next
    case False
    with 3(3) w \<open>closed\<close> have "attach_loop pid passes th = (threads', True)" by simp
    with 3(1) [OF w [symmetric] refl] ok False \<open>closed\<close> show ?thesis by auto
  qed
qed simp_all


text \<open>A process with one thread, listed twice.\<close>

definition one_task :: task_entry where
  "one_task = \<lparr>task_name = ''7'', seize = Call_Ok, interrupt = Call_Ok, waits = [Wait_Stopped]\<rparr>"

lemma one_task_parse: "parse_tid_name ''7'' = Some 7"
  by (simp add: parse_tid_name_def strtoul_def number_base_def isspace_def digit_value_def
      digit_def chr_def)

lemma one_task_attached:
  "attach_all_threads 7 [(Some [one_task], True), (Some [one_task], True)] =
     ([\<lparr>tid = 7, stopped = True\<rparr>], True)"
  by (simp add: attach_all_threads_def attach_passes_def one_task_def one_task_parse MAX_THREADS_def)


section \<open>A target to try it on\<close>

lemma specs_wf [simp]: "wf_spec dummy_spec" "wf_spec (device_spec h)" "wf_spec (device_audio_spec h)"
  by (simp_all add: wf_spec_def dummy_spec_def device_spec_def device_audio_spec_def
      original_bytes_def patched_bytes_def device_original_bytes_def device_audio_original_bytes_def
      jump_prefix_def)

definition demo_memory :: memory where
  "demo_memory = store_bytes (\<lambda>_. 0) 0x1000 original_bytes"

definition demo_world :: modify_world where
  "demo_world = \<lparr>exe_path = Some DUMMY_TARGET,
     maps_file = Some [\<lparr>map_fields = Some (0x1000, 0x2000, ''r-xp''), line_text = DUMMY_TARGET\<rparr>],
     live_read_ok = True,
     task_passes = [(Some [one_task], True), (Some [one_task], True)],
     detach_calls = \<lparr>d_interrupt = \<lambda>_. Call_Ok, d_waits = \<lambda>_. [Wait_Stopped], d_detach = \<lambda>_. Call_Ok\<rparr>,
     peek_current = \<lambda>_. True, poke_new = \<lambda>_. True, peek_verify = \<lambda>_. True,
     poke_rollback = \<lambda>_. True\<rparr>"

lemma contains_self [simp]: "contains s s"
  by (cases s) simp_all

lemma demo_undisturbed: "undisturbed demo_world 7 0x1000 dummy_spec"
proof -
  have "list_ex (maps_line_covers 0x1000 DUMMY_TARGET)
      [\<lparr>map_fields = Some (0x1000, 0x2000, ''r-xp''), line_text = DUMMY_TARGET\<rparr>]"
    by (simp add: maps_line_covers_def perm_at_def)
  then show ?thesis
    by (simp add: undisturbed_def valid_target_def verify_executable_def demo_world_def
        dummy_spec_def one_task_attached detach_all_threads_def detach_thread_def
        address_is_executable_def Let_def)
qed

lemma demo_site: "bytes_at demo_memory 0x1000 8 = original dummy_spec"
proof -
  have "length original_bytes = 8" by (simp add: original_bytes_def)
  then show ?thesis by (simp add: demo_memory_def dummy_spec_def store_bytes_at)
qed

text \<open>The install that fails half way: the second word of the patch and the rollback are refused.\<close>

definition broken_world :: modify_world where
  "broken_world = demo_world\<lparr>poke_new := (\<lambda>n. n = 0), poke_rollback := (\<lambda>_. False)\<rparr>"

lemma patch_always_undoable_witness:
  "inspect_or_modify demo_world 7 0x1000 (-1) dummy_spec
     (fold (patch_step 0x1000 dummy_spec) [(broken_world, 7, 1)] demo_memory) = (demo_memory, 0)"
  by (rule patch_always_undoable [OF specs_wf(1) demo_site refl demo_undisturbed, THEN conjunct2])

lemma patch_call_contract_witness:
  "bytes_at (fst (inspect_or_modify demo_world 7 0x1000 (-1) dummy_spec demo_memory)) 0x1000 8 =
     original_bytes"
proof -
  obtain mem r where run: "inspect_or_modify demo_world 7 0x1000 (-1) dummy_spec demo_memory = (mem, r)"
    by force
  have "restorable dummy_spec 0x1000 demo_memory" by (rule restorable_whole) (simp add: demo_site)
  from undisturbed_restore [OF specs_wf(1) demo_undisturbed this] run have "r = 0" by simp
  with patch_call_contract [OF specs_wf(1) run] run show ?thesis by (simp add: dummy_spec_def)
qed

text \<open>
  The one result that does not tell what happened: an install that is written and verified, after
  which the threads cannot all be released, returns -1 with the patch in place.
\<close>

definition stuck_world :: modify_world where
  "stuck_world = demo_world\<lparr>detach_calls :=
     \<lparr>d_interrupt = \<lambda>_. Call_Ok, d_waits = \<lambda>_. [Wait_Stopped], d_detach = \<lambda>_. Call_Failed\<rparr>\<rparr>"

text \<open>C37. A failed install can leave the patch installed: when the target is valid, every thread
  stops, every peek and poke succeeds and only the release of a thread fails, installing over the
  original bytes returns -1 although the site now holds the whole patch.\<close>

theorem install_fails_with_patch:
  assumes wf: "wf_spec spec" and site: "bytes_at mem a 8 = original spec"
    and target: "valid_target w a spec" and "attach_all_threads pid (task_passes w) = (threads, True)"
    and detach: "\<not> snd (detach_all_threads (detach_calls w) threads)"
    and io: "peek_current w 0" "peek_current w 4" "poke_new w 0" "poke_new w 4"
      "peek_verify w 0" "peek_verify w 4"
  shows "snd (inspect_or_modify w pid a 1 spec mem) = -1 \<and>
    bytes_at (fst (inspect_or_modify w pid a 1 spec mem)) a 8 = patch spec"
proof -
  have safe: "restorable spec a mem" using site by (simp add: restorable_whole)
  obtain m ok where w1: "write_remote (peek_verify w) (poke_new w) mem a (patch spec) 0 = (m, ok)"
    by force
  note k = write_keeps [OF wf disjI2 [OF refl] safe w1]
  from k(3,4) io have "ok" and "bytes_at m a 8 = patch spec" by simp_all
  with w1 io site have "install_stopped w a spec mem = (m, 0)"
    by (simp add: install_stopped_def read_eight)
  with target detach io assms(4) \<open>bytes_at m a 8 = patch spec\<close> show ?thesis
    by (simp add: inspect_or_modify_def valid_target_def read_eight)
qed

lemma install_fails_with_patch_witness:
  "snd (inspect_or_modify stuck_world 7 0x1000 1 dummy_spec demo_memory) = -1 \<and>
   bytes_at (fst (inspect_or_modify stuck_world 7 0x1000 1 dummy_spec demo_memory)) 0x1000 8 =
     patched_bytes"
proof -
  have target: "valid_target stuck_world 0x1000 dummy_spec"
    using demo_undisturbed by (simp add: undisturbed_def valid_target_def stuck_world_def)
  have att: "attach_all_threads 7 (task_passes stuck_world) = ([\<lparr>tid = 7, stopped = True\<rparr>], True)"
    by (simp add: stuck_world_def demo_world_def one_task_attached)
  have det: "\<not> snd (detach_all_threads (detach_calls stuck_world) [\<lparr>tid = 7, stopped = True\<rparr>])"
    by (simp add: detach_all_threads_def detach_thread_def stuck_world_def)
  from install_fails_with_patch [OF specs_wf(1) demo_site target att det] show ?thesis
    by (simp add: stuck_world_def demo_world_def dummy_spec_def)
qed

end
