(* ===== verification/Patch_Supervisor.thy ===== *)
theory Patch_Supervisor
  imports Patch_Site
begin

text \<open>
  The gates of \<open>src/camera/e1-ptz-patch-supervisor.c\<close>: finding the hook site in the device
  process, waiting for the release marker and for the owner of the patch, installing the patch
  while the owner lives, restoring it, and the marker files by which the parts of the system see
  what state the patch is in.

  The state is the target's memory, the files of the state directory with their text, and the
  signals sent. Everything from outside is in a world record: the outcome of each file write,
  what \<open>waitpid\<close> and the polls see each time until they stop, and for each call of
  \<open>inspect_or_modify\<close> its own \<open>modify_world\<close>. Output to the terminal is not modelled.
\<close>

section \<open>The state and its files\<close>

datatype signal = SIGTERM | SIGKILL

record sup_state =
  target_memory :: memory
  state_files :: "string \<rightharpoonup> string"
  signals :: "(nat \<times> signal) list"

text \<open>\<open>write_state\<close>: done, not opened, or opened but not completely written. The contents are
  given without the line break that ends them.\<close>

datatype write_outcome = Write_Done | Write_Not_Opened | Write_Incomplete

definition write_state ::
    "write_outcome \<Rightarrow> string \<Rightarrow> string \<Rightarrow> sup_state \<Rightarrow> sup_state \<times> bool" where
  "write_state outcome name contents s =
     (case outcome of
        Write_Done \<Rightarrow> (s\<lparr>state_files := (state_files s)(name \<mapsto> contents)\<rparr>, True)
      | Write_Not_Opened \<Rightarrow> (s, False)
      | Write_Incomplete \<Rightarrow> (s\<lparr>state_files := (state_files s)(name \<mapsto> [])\<rparr>, False))"

text \<open>\<open>unlink\<close> of a state file; a file that is not there is no error for the code.\<close>

definition unlink_state :: "bool \<Rightarrow> string \<Rightarrow> sup_state \<Rightarrow> sup_state" where
  "unlink_state ok name s =
     (if ok then s\<lparr>state_files := (state_files s)(name := None)\<rparr> else s)"

definition modify ::
    "modify_world \<Rightarrow> nat \<Rightarrow> u32 \<Rightarrow> int \<Rightarrow> patch_spec \<Rightarrow> sup_state \<Rightarrow> sup_state \<times> int" where
  "modify w pid a operation spec s =
     (let (mem, result) = inspect_or_modify w pid a operation spec (target_memory s)
      in (s\<lparr>target_memory := mem\<rparr>, result))"

section \<open>Waiting\<close>

text \<open>\<open>wait_for_go\<close>: at each poll whether a stop is requested and whether the marker exists; the
  list ends at the deadline.\<close>

fun wait_for_go :: "(bool \<times> bool) list \<Rightarrow> bool" where
  "wait_for_go [] = False"
| "wait_for_go ((stop, marker) # polls) = (\<not> stop \<and> (marker \<or> wait_for_go polls))"

fun wait_for_marker :: "bool list \<Rightarrow> bool" where
  "wait_for_marker [] = False"
| "wait_for_marker (marker # polls) = (marker \<or> wait_for_marker polls)"

text \<open>\<open>wait_for_owner\<close>: what \<open>waitpid\<close> reports each time; the first list ends when a stop is
  requested, the second after the grace period.\<close>

datatype owner_report = Owner_Exited | Owner_Running | Owner_Interrupted | Owner_No_Child
  | Owner_Error

fun owner_gone :: "owner_report list \<Rightarrow> bool option" where
  "owner_gone [] = None"
| "owner_gone (Owner_Exited # rs) = Some True"
| "owner_gone (Owner_No_Child # rs) = Some False"
| "owner_gone (Owner_Error # rs) = Some False"
| "owner_gone (r # rs) = owner_gone rs"

definition wait_for_owner ::
    "owner_report list \<Rightarrow> owner_report list \<Rightarrow> nat \<Rightarrow> sup_state \<Rightarrow> sup_state \<times> bool" where
  "wait_for_owner polls grace owner s =
     (case owner_gone polls of
        Some ok \<Rightarrow> (s, ok)
      | None \<Rightarrow>
          (let s = s\<lparr>signals := signals s @ [(owner, SIGTERM)]\<rparr>
           in if list_ex (\<lambda>r. r = Owner_Exited \<or> r = Owner_No_Child) (take 50 grace) then (s, True)
              else (s\<lparr>signals := signals s @ [(owner, SIGKILL)]\<rparr>, True)))"

text \<open>The executables that may own the patch.\<close>

definition doom_owner_targets :: "string list" where
  "doom_owner_targets =
     [''/mnt/sda/e1-doom-dev/e1-doom'', ''/mnt/tmp/e1-doom/root/bin/e1-doom'',
      ''/mnt/sda/e1-doom-flat/bin/e1-doom'', ''/mnt/sda/e1-doom-dev/e1-doom-controller'',
      ''/mnt/tmp/e1-doom/root/bin/e1-doom-controller'',
      ''/mnt/sda/e1-doom-flat/bin/e1-doom-controller'']"

definition verify_doom_owner :: "string option \<Rightarrow> bool" where
  "verify_doom_owner link \<longleftrightarrow> (\<exists>t \<in> set doom_owner_targets. link = Some t)"

text \<open>\<open>wait_for_doom_owner\<close>: the owner's executable link at each look.\<close>

record doom_owner_world =
  do_polls :: "string option list"
  do_at_stop :: "string option"
  do_term :: "string option list"
  do_kill :: "string option list"

definition wait_for_doom_owner :: "doom_owner_world \<Rightarrow> nat \<Rightarrow> sup_state \<Rightarrow> sup_state \<times> bool" where
  "wait_for_doom_owner w owner s =
     (if list_ex (\<lambda>l. \<not> verify_doom_owner l) (do_polls w) then (s, True)
      else if \<not> verify_doom_owner (do_at_stop w) then (s, True)
      else let s = s\<lparr>signals := signals s @ [(owner, SIGTERM)]\<rparr>
           in if list_ex (\<lambda>l. \<not> verify_doom_owner l) (take 50 (do_term w)) then (s, True)
              else let s = s\<lparr>signals := signals s @ [(owner, SIGKILL)]\<rparr>
                   in (s, list_ex (\<lambda>l. \<not> verify_doom_owner l) (take 100 (do_kill w))))"

section \<open>Finding the hook site\<close>

text \<open>The device's mappings with the bytes \<open>pread\<close> returns for each, and whether both files of
  \<open>/proc\<close> opened.\<close>

record resolve_world =
  rs_exe :: "string option"
  rs_maps :: "(maps_line \<times> u8 list option) list option"
  rs_memory :: bool

definition candidate_mapping :: "maps_line \<Rightarrow> (nat \<times> nat) option" where
  "candidate_mapping l =
     (case map_fields l of None \<Rightarrow> None
      | Some (start, end_address, perms) \<Rightarrow>
          if \<not> perm_at perms 0 CHR ''r'' \<or> \<not> perm_at perms 2 CHR ''x'' \<or>
             \<not> contains (line_text l) DEVICE_TARGET \<or> end_address \<le> start \<or>
             end_address - start > 32 * 1024 * 1024 then None
          else Some (start, end_address - start))"

definition blank_site :: e1_device_site where
  "blank_site = \<lparr>site_address = 0, site_marker = 0\<rparr>"

fun resolve_loop ::
    "e1_device_site_kind \<Rightarrow> (maps_line \<times> u8 list option) list \<Rightarrow> e1_device_site option \<Rightarrow>
     e1_device_site option option" where
  "resolve_loop kind [] resolved = Some resolved"
| "resolve_loop kind ((l, bytes) # ls) resolved =
     (case candidate_mapping l of
        None \<Rightarrow> resolve_loop kind ls resolved
      | Some (start, amount) \<Rightarrow>
          (case bytes of
             None \<Rightarrow> None
           | Some bs \<Rightarrow>
               if length bs \<noteq> amount then None
               else let (candidate, found) =
                      e1_find_device_site bs (word_of_nat start) kind blank_site
                    in if found < 0 \<or> (found = 1 \<and> resolved \<noteq> None) then None
                       else if found = 1 then resolve_loop kind ls (Some candidate)
                       else resolve_loop kind ls resolved))"

definition resolve_device_site :: "resolve_world \<Rightarrow> e1_device_site_kind \<Rightarrow> u32 option" where
  "resolve_device_site w kind =
     (if \<not> verify_executable (rs_exe w) DEVICE_TARGET then None
      else case rs_maps w of
          None \<Rightarrow> None
        | Some ls \<Rightarrow>
            if \<not> rs_memory w then None
            else (case resolve_loop kind ls None of
                Some (Some site) \<Rightarrow>
                  if site_address site AND 3 \<noteq> 0 then None else Some (site_address site)
              | _ \<Rightarrow> None))"

text \<open>The addresses at which the site's instructions occur in the device's executable mappings.\<close>

definition mapped_sites :: "e1_device_site_kind \<Rightarrow> maps_line \<times> u8 list option \<Rightarrow> u32 list" where
  "mapped_sites kind m =
     (case (candidate_mapping (fst m), snd m) of
        (Some (start, _), Some bs) \<Rightarrow>
          if length bs < 32 then []
          else map (\<lambda>i. word_of_nat start + word_of_nat i) (site_offsets bs kind)
      | _ \<Rightarrow> [])"

lemma find_site_cases:
  assumes "32 \<le> length bs"
  shows "e1_find_device_site bs base kind site =
    (case site_offsets bs kind of
       [] \<Rightarrow> (site, 0)
     | [i] \<Rightarrow> (site\<lparr>site_address := base + word_of_nat i, site_marker := 0\<rparr>, 1)
     | i # j # r \<Rightarrow> (site\<lparr>site_address := base + word_of_nat i, site_marker := 0\<rparr>, -1))"
proof -
  obtain found result where scan: "scan_unique (site_matches bs kind)
      (even_offsets (length bs) 32) None = (found, result)" by fastforce
  have run: "e1_find_device_site bs base kind site =
      (case found of None \<Rightarrow> site
       | Some offset \<Rightarrow> site\<lparr>site_address := base + word_of_nat offset, site_marker := 0\<rparr>, result)"
    using assms scan by (cases kind) (simp_all add: e1_find_device_site_def)
  have hits: "(found, result) =
      (case site_offsets bs kind of [] \<Rightarrow> (None, 0) | [i] \<Rightarrow> (Some i, 1) | i # j # r \<Rightarrow> (Some i, -1))"
    using site_scan.scan_from [OF distinct_even_offsets, of bs kind "length bs" 32 None] scan
    by (simp add: site_offsets_def split: list.splits)
  show ?thesis
  proof (cases "site_offsets bs kind")
    case Nil
    with run hits show ?thesis by simp
  next
    case (Cons i r)
    with run hits show ?thesis by (cases r) simp_all
  qed
qed

lemma find_site_short: "length bs < 32 \<Longrightarrow> e1_find_device_site bs base kind site = (site, 0)"
  unfolding e1_find_device_site_def by (cases kind) simp_all

lemma resolve_loop_sites:
  "resolve_loop kind ls resolved = Some (Some site) \<Longrightarrow>
   (case resolved of None \<Rightarrow> [] | Some r \<Rightarrow> [site_address r]) @ concat (map (mapped_sites kind) ls) =
     [site_address site]"
proof (induction ls arbitrary: resolved)
  case (Cons m ls)
  obtain l bytes where m: "m = (l, bytes)" by fastforce
  note run = Cons.prems [unfolded m resolve_loop.simps]
  show ?case
  proof (cases "candidate_mapping l")
    case None
    from run have "resolve_loop kind ls resolved = Some (Some site)" by (simp only: None option.case)
    from Cons.IH [OF this] None m show ?thesis by (simp add: mapped_sites_def)
  next
    case (Some c)
    obtain start amount where c: "candidate_mapping l = Some (start, amount)"
      using Some by (cases c) simp
    from run obtain bs where bs: "bytes = Some bs"
      by (cases bytes) (simp_all only: c option.case prod.case, simp)
    show ?thesis
    proof (cases "length bs < 32")
      case True
      from run have "resolve_loop kind ls resolved = Some (Some site)"
        by (simp add: c bs find_site_short [OF True] split: if_splits)
      from Cons.IH [OF this] c bs True m show ?thesis by (simp add: mapped_sites_def)
    next
      case False
      then have find: "e1_find_device_site bs (word_of_nat start) kind blank_site =
          (case site_offsets bs kind of
             [] \<Rightarrow> (blank_site, 0)
           | [i] \<Rightarrow> (blank_site\<lparr>site_address := word_of_nat start + word_of_nat i, site_marker := 0\<rparr>, 1)
           | i # j # r \<Rightarrow> (blank_site\<lparr>site_address := word_of_nat start + word_of_nat i,
                site_marker := 0\<rparr>, -1))"
        by (intro find_site_cases) simp
      have sites: "mapped_sites kind m =
          map (\<lambda>i. word_of_nat start + word_of_nat i) (site_offsets bs kind)"
        using False c bs m by (simp add: mapped_sites_def)
      show ?thesis
      proof (cases "site_offsets bs kind")
        case Nil
        from run have "resolve_loop kind ls resolved = Some (Some site)"
          by (simp add: c bs find Nil split: if_splits)
        from Cons.IH [OF this] sites Nil show ?thesis by simp
      next
        case sites_Cons: (Cons i r)
        from run have "r = []" by (cases r) (simp_all add: c bs find sites_Cons split: if_splits)
        with run have "resolved = None" and "resolve_loop kind ls
            (Some (blank_site\<lparr>site_address := word_of_nat start + word_of_nat i, site_marker := 0\<rparr>)) =
            Some (Some site)"
          by (simp_all add: c bs find sites_Cons split: if_splits)
        from Cons.IH [OF this(2)] this(1) sites sites_Cons \<open>r = []\<close> show ?thesis by simp
      qed
    qed
  qed
qed (auto split: option.split)


section \<open>The gates\<close>

text \<open>The two device gates that log differ in the site and in the names and texts of their files.\<close>

record gate_names =
  g_kind :: e1_device_site_kind
  g_spec :: "u32 \<Rightarrow> patch_spec"
  g_ready :: "string \<times> string"
  g_owner_pid :: string
  g_used :: "string \<times> string"
  g_marker :: string
  g_mode :: string
  g_original_text :: string
  g_active :: "string \<times> string"
  g_patch_restored :: string
  g_restored :: string
  g_recovery :: string
  g_label :: string

definition device_log_names :: gate_names where
  "device_log_names = \<lparr>g_kind = E1_DEVICE_SITE_PTZ, g_spec = device_spec,
     g_ready = (''ptz-supervisor.ready'', ''device-log-ready''),
     g_owner_pid = ''ptz-owner.pid'', g_used = (''ptz.patch.used'', ''device-log''),
     g_marker = ''ptz.patch.active'', g_mode = ''device-log'',
     g_original_text = ''2de9f04f04461546'',
     g_active = (''ptz-supervisor.active'', ''device-log''),
     g_patch_restored = ''ptz.patch.restored'', g_restored = ''ptz.restored'',
     g_recovery = ''ptz.recovery.failed'', g_label = ''device''\<rparr>"

definition device_audio_log_names :: gate_names where
  "device_audio_log_names = \<lparr>g_kind = E1_DEVICE_SITE_AUDIO, g_spec = device_audio_spec,
     g_ready = (''audio-supervisor.ready'', ''device-audio-ready''),
     g_owner_pid = ''audio-owner.pid'', g_used = (''audio.patch.used'', ''device-audio''),
     g_marker = ''audio.patch.active'', g_mode = ''device-audio'',
     g_original_text = ''10b500f5cc20002a'',
     g_active = (''audio-supervisor.active'', ''device-audio''),
     g_patch_restored = ''audio.patch.restored'', g_restored = ''audio.restored'',
     g_recovery = ''audio.recovery.failed'', g_label = ''device-audio''\<rparr>"

definition device_doom_names :: gate_names where
  "device_doom_names = device_log_names\<lparr>
     g_ready := (''ptz-supervisor.ready'', ''device-doom-ready''),
     g_used := (''ptz.patch.used'', ''device-doom''), g_mode := ''device-doom'',
     g_active := (''ptz-supervisor.active'', ''device-doom'')\<rparr>"

text \<open>The line of the marker file, up to its line break.\<close>

definition marker_text :: "gate_names \<Rightarrow> nat \<Rightarrow> u32 \<Rightarrow> u32 \<Rightarrow> string" where
  "marker_text g target address hook =
     ''version=1 mode='' @ g_mode g @ '' target='' @ print_ld target @ '' address='' @
     print_hex address @ '' length=8 original='' @ g_original_text g @ '' patch=dff800f0'' @
     concat (map print_02x (u32_bytes hook))"

record gate_world =
  w_resolve :: resolve_world
  w_hook_maps :: "maps_line list option"
  w_inspect :: modify_world
  w_ready :: write_outcome
  w_go :: "(bool \<times> bool) list"
  w_fork :: "nat option"
  w_owner_pid :: write_outcome
  w_owner_kind :: write_outcome
  w_used :: write_outcome
  w_marker :: write_outcome
  w_install :: modify_world
  w_active :: write_outcome
  w_owner_polls :: "owner_report list"
  w_owner_grace :: "owner_report list"
  w_restore :: modify_world
  w_patch_restored :: write_outcome
  w_quiesced :: "bool list"
  w_unlink_marker :: bool
  w_unlink_active :: bool
  w_restored :: write_outcome
  w_recover :: modify_world
  w_patch_recovered :: write_outcome
  w_recover_quiesced :: "bool list"
  w_recovered :: write_outcome
  w_recovery_note :: write_outcome
  w_quiesced_now :: bool
  w_unlink_last :: bool
  w_unlink_ready :: bool

text \<open>The local variables at \<open>done:\<close>: \<open>patch_installed\<close>, \<open>marker_written\<close>, \<open>result\<close> and the
  \<open>owner\<close> that is still to be killed.\<close>

record gate_end =
  installed :: bool
  marked :: bool
  gate_result :: int
  pending_owner :: "nat option"

definition gate_at_done :: "bool \<Rightarrow> bool \<Rightarrow> int \<Rightarrow> nat option \<Rightarrow> gate_end" where
  "gate_at_done i m r owner =
     \<lparr>installed = i, marked = m, gate_result = r, pending_owner = owner\<rparr>"

definition thumb_hook_ok :: "gate_world \<Rightarrow> u32 \<Rightarrow> bool" where
  "thumb_hook_ok w hook \<longleftrightarrow> hook AND 1 \<noteq> 0 \<and>
     address_is_executable (w_hook_maps w) (hook AND NOT 1) DEVICE_LIBRARY"

text \<open>From the end of the owner to \<open>result = 0\<close>: restore, publish that the bytes are back, wait until
  the hook is quiescent, and only then remove the marker.\<close>

definition restore_and_publish ::
    "gate_names \<Rightarrow> gate_world \<Rightarrow> nat \<Rightarrow> u32 \<Rightarrow> patch_spec \<Rightarrow> sup_state \<Rightarrow> sup_state \<times> gate_end" where
  "restore_and_publish g w target a spec s =
     (let (s, r) = modify (w_restore w) target a (-1) spec s
      in if r \<noteq> 0 then (s, gate_at_done True True 1 None)
         else let (s, ok) = write_state (w_patch_restored w) (g_patch_restored g) ''bytes-verified'' s
              in if \<not> ok \<or> \<not> wait_for_marker (w_quiesced w) \<or> \<not> w_unlink_marker w
                 then (s, gate_at_done False True 1 None)
                 else let s = unlink_state True (g_marker g) s;
                          s = unlink_state (w_unlink_active w) (fst (g_active g)) s;
                          (s, ok) = write_state (w_restored w) (g_restored g)
                            ''device-bytes-and-hook-quiesced'' s
                      in (s, gate_at_done False False (if ok then 0 else 1) None))"

text \<open>The statements after \<open>done:\<close>, the owner's part apart: a second attempt to restore, and the
  files that say how it ended.\<close>

definition gate_recover ::
    "gate_names \<Rightarrow> gate_world \<Rightarrow> nat \<Rightarrow> u32 \<Rightarrow> patch_spec \<Rightarrow> sup_state \<Rightarrow> gate_end \<Rightarrow> sup_state \<times> gate_end"
where
  "gate_recover g w target a spec s e =
     (if \<not> installed e then (s, e)
      else let (s, r) = modify (w_recover w) target a (-1) spec s
           in if r \<noteq> 0 then (s, e)
              else let e = e\<lparr>installed := False\<rparr>;
                       s = fst (write_state (w_patch_recovered w) (g_patch_restored g)
                             ''bytes-verified-after-error'' s)
                   in if \<not> wait_for_marker (w_recover_quiesced w) then (s, e)
                      else let s = unlink_state (w_unlink_marker w) (g_marker g) s;
                               s = unlink_state (w_unlink_active w) (fst (g_active g)) s
                           in (fst (write_state (w_recovered w) (g_restored g)
                                 ''device-restored-after-error'' s),
                               e\<lparr>marked := False\<rparr>))"

definition gate_finish :: "gate_names \<Rightarrow> gate_world \<Rightarrow> sup_state \<Rightarrow> gate_end \<Rightarrow> sup_state" where
  "gate_finish g w s e =
     (let s = (if gate_result e \<noteq> 0
               then fst (write_state (w_recovery_note w) (g_recovery g)
                      (g_label g @ (if installed e then ''-patch-still-installed''
                                    else ''-supervisor-error'')) s)
               else s);
          s = (if \<not> installed e \<and> marked e \<and> w_quiesced_now w
               then unlink_state (w_unlink_last w) (g_marker g) s else s)
      in unlink_state (w_unlink_ready w) (fst (g_ready g)) s)"

definition gate_cleanup ::
    "gate_names \<Rightarrow> gate_world \<Rightarrow> nat \<Rightarrow> u32 \<Rightarrow> patch_spec \<Rightarrow> sup_state \<Rightarrow> gate_end \<Rightarrow> sup_state \<times> int" where
  "gate_cleanup g w target a spec s e =
     (let (s, e) = gate_recover g w target a spec s e in (gate_finish g w s e, gate_result e))"

text \<open>From the marker to the owner's end; what happens while the patch is active is the argument
  \<open>owner_phase\<close>, which says whether the owner ended in order. Until then \<open>owner\<close> is to be killed.\<close>

definition install_and_hold ::
    "gate_names \<Rightarrow> gate_world \<Rightarrow> nat \<Rightarrow> u32 \<Rightarrow> u32 \<Rightarrow> patch_spec \<Rightarrow> string \<Rightarrow> nat option \<Rightarrow>
     (sup_state \<Rightarrow> sup_state \<times> bool) \<Rightarrow> sup_state \<Rightarrow> sup_state \<times> gate_end" where
  "install_and_hold g w target hook a spec suffix owner owner_phase s =
     (let (s, ok) = write_state (w_marker w) (g_marker g) (marker_text g target a hook @ suffix) s
      in if \<not> ok then (s, gate_at_done False False 1 owner)
         else let (s, r) = modify (w_install w) target a 1 spec s
              in if r \<noteq> 0 then (s, gate_at_done False True 1 owner)
                 else let (s, ok) = write_state (w_active w) (fst (g_active g)) (snd (g_active g)) s
                      in if \<not> ok then (s, gate_at_done True True 1 owner)
                         else let (s, ok) = owner_phase s
                              in if \<not> ok then (s, gate_at_done True True 1 None)
                                 else restore_and_publish g w target a spec s)"

text \<open>\<open>supervise_device_log\<close> and \<open>supervise_device_audio_log\<close>, from the resolved site to
  \<open>done:\<close>.\<close>

definition supervise_log_main ::
    "gate_names \<Rightarrow> gate_world \<Rightarrow> nat \<Rightarrow> u32 \<Rightarrow> u32 \<Rightarrow> sup_state \<Rightarrow> sup_state \<times> gate_end" where
  "supervise_log_main g w target hook a s =
     (let failed = gate_at_done False False 1; spec = g_spec g hook
      in if \<not> thumb_hook_ok w hook then (s, failed None)
         else let (s, r) = modify (w_inspect w) target a 0 spec s
              in if r \<noteq> 0 then (s, failed None)
                 else let (s, ok) = write_state (w_ready w) (fst (g_ready g)) (snd (g_ready g)) s
                      in if \<not> ok \<or> \<not> wait_for_go (w_go w) then (s, failed None)
                         else (case w_fork w of
                             None \<Rightarrow> (s, failed None)
                           | Some owner \<Rightarrow>
                               (let (s, ok) = write_state (w_owner_pid w) (g_owner_pid g)
                                      (print_ld owner) s
                                in if \<not> ok then (s, failed (Some owner))
                                   else let (s, ok) = write_state (w_used w) (fst (g_used g))
                                          (snd (g_used g)) s
                                        in if \<not> ok then (s, failed (Some owner))
                                           else install_and_hold g w target hook a spec [] (Some owner)
                                                  (\<lambda>s. (fst (wait_for_owner (w_owner_polls w)
                                                               (w_owner_grace w) owner s), True)) s)))"

definition kill_owner :: "gate_end \<Rightarrow> sup_state \<Rightarrow> sup_state" where
  "kill_owner e s =
     (case pending_owner e of None \<Rightarrow> s
      | Some owner \<Rightarrow> s\<lparr>signals := signals s @ [(owner, SIGKILL)]\<rparr>)"

text \<open>An unresolved site leads to \<open>done:\<close> with nothing installed, so its address is never used.\<close>

definition supervise_log :: "gate_names \<Rightarrow> gate_world \<Rightarrow> nat \<Rightarrow> u32 \<Rightarrow> sup_state \<Rightarrow> sup_state \<times> int" where
  "supervise_log g w target hook s =
     (case resolve_device_site (w_resolve w) (g_kind g) of
        None \<Rightarrow> gate_cleanup g w target 0 (g_spec g hook) s (gate_at_done False False 1 None)
      | Some a \<Rightarrow>
          (let (s, e) = supervise_log_main g w target hook a s
           in gate_cleanup g w target a (g_spec g hook) (kill_owner e s) e))"

definition supervise_device_log :: "gate_world \<Rightarrow> nat \<Rightarrow> u32 \<Rightarrow> sup_state \<Rightarrow> sup_state \<times> int" where
  "supervise_device_log = supervise_log device_log_names"

definition supervise_device_audio_log :: "gate_world \<Rightarrow> nat \<Rightarrow> u32 \<Rightarrow> sup_state \<Rightarrow> sup_state \<times> int"
where
  "supervise_device_audio_log = supervise_log device_audio_log_names"

text \<open>\<open>supervise_device_doom\<close>: the owner is the game's own process. Its executable is looked at
  before the inspection, after the release and once more at \<open>done:\<close> after an error.\<close>

record doom_gate_world =
  dg_gate :: gate_world
  dg_owner_first :: "string option"
  dg_owner_again :: "string option"
  dg_wait :: doom_owner_world
  dg_owner_last :: "string option"
  dg_wait_last :: doom_owner_world

definition supervise_doom_main ::
    "doom_gate_world \<Rightarrow> nat \<Rightarrow> u32 \<Rightarrow> nat \<Rightarrow> u32 \<Rightarrow> sup_state \<Rightarrow> sup_state \<times> gate_end" where
  "supervise_doom_main d target hook owner a s =
     (let g = device_doom_names; w = dg_gate d; failed = gate_at_done False False 1 None;
          spec = device_spec hook
      in if \<not> thumb_hook_ok w hook \<or> \<not> verify_doom_owner (dg_owner_first d) then (s, failed)
         else let (s, r) = modify (w_inspect w) target a 0 spec s
              in if r \<noteq> 0 then (s, failed)
                 else let (s, ok) = write_state (w_ready w) (fst (g_ready g)) (snd (g_ready g)) s
                      in if \<not> ok \<or> \<not> wait_for_go (w_go w) \<or> \<not> verify_doom_owner (dg_owner_again d)
                         then (s, failed)
                         else let (s, ok) = write_state (w_owner_pid w) (g_owner_pid g)
                                (print_ld owner) s
                              in if \<not> ok then (s, failed)
                                 else let (s, ok) = write_state (w_owner_kind w) ''ptz-owner.kind''
                                        ''doom'' s
                                      in if \<not> ok then (s, failed)
                                         else let (s, ok) = write_state (w_used w) (fst (g_used g))
                                                (snd (g_used g)) s
                                              in if \<not> ok then (s, failed)
                                                 else install_and_hold g w target hook a spec
                                                        ('' owner='' @ print_ld owner) None
                                                        (wait_for_doom_owner (dg_wait d) owner) s)"

text \<open>At \<open>done:\<close> the stop flag is set first, so the polls for a stop see it at once.\<close>

definition end_doom_owner :: "doom_gate_world \<Rightarrow> nat \<Rightarrow> gate_end \<Rightarrow> sup_state \<Rightarrow> sup_state" where
  "end_doom_owner d owner e s =
     (if gate_result e \<noteq> 0 \<and> verify_doom_owner (dg_owner_last d)
      then fst (wait_for_doom_owner ((dg_wait_last d)\<lparr>do_polls := []\<rparr>) owner s) else s)"

definition supervise_device_doom ::
    "doom_gate_world \<Rightarrow> nat \<Rightarrow> u32 \<Rightarrow> nat \<Rightarrow> sup_state \<Rightarrow> sup_state \<times> int" where
  "supervise_device_doom d target hook owner s =
     (let g = device_doom_names; spec = device_spec hook
      in case resolve_device_site (w_resolve (dg_gate d)) E1_DEVICE_SITE_PTZ of
           None \<Rightarrow>
             (let e = gate_at_done False False 1 None
              in gate_cleanup g (dg_gate d) target 0 spec (end_doom_owner d owner e s) e)
         | Some a \<Rightarrow>
             (let (s, e) = supervise_doom_main d target hook owner a s
              in gate_cleanup g (dg_gate d) target a spec (end_doom_owner d owner e s) e))"

text \<open>\<open>emergency_restore_device\<close> and \<open>emergency_restore_device_audio\<close>.\<close>

definition emergency_restore :: "gate_names \<Rightarrow> gate_world \<Rightarrow> nat \<Rightarrow> u32 \<Rightarrow> sup_state \<Rightarrow> sup_state \<times> int"
where
  "emergency_restore g w target hook s =
     (case resolve_device_site (w_resolve w) (g_kind g) of
        None \<Rightarrow> (s, 1)
      | Some a \<Rightarrow>
          if \<not> thumb_hook_ok w hook then (s, 1)
          else let (s, r) = modify (w_restore w) target a (-1) (g_spec g hook) s
               in if r \<noteq> 0 then (s, 1)
                  else let (s, ok) = write_state (w_patch_restored w) (g_patch_restored g)
                         ''emergency-bytes-verified'' s
                       in if \<not> ok \<or> \<not> wait_for_marker (w_quiesced w) \<or> \<not> w_unlink_marker w
                          then (s, 1)
                          else let s = unlink_state True (g_marker g) s;
                                   s = unlink_state (w_unlink_active w) (fst (g_active g)) s;
                                   (s, ok) = write_state (w_restored w) (g_restored g)
                                     (''emergency-'' @ g_label g @ ''-restore'') s
                               in (s, if ok then 0 else 1))"

section \<open>The dummy gate\<close>

definition dummy_marker_text :: "nat \<Rightarrow> u32 \<Rightarrow> string" where
  "dummy_marker_text target a =
     ''version=1 mode=dummy target='' @ print_ld target @ '' address='' @ print_hex a @
     '' length=8 original=1120704700bf00bf patch=2220704700bf00bf''"

definition dummy_main :: "gate_world \<Rightarrow> nat \<Rightarrow> u32 \<Rightarrow> sup_state \<Rightarrow> sup_state \<times> gate_end" where
  "dummy_main w target a s =
     (let failed = gate_at_done False False 1
      in let (s, r) = modify (w_inspect w) target a 0 dummy_spec s
         in if r \<noteq> 0 then (s, failed None)
            else let (s, ok) = write_state (w_ready w) ''ptz-supervisor.ready'' ''ready'' s
                 in if \<not> ok \<or> \<not> wait_for_go (w_go w) then (s, failed None)
                    else (case w_fork w of
                        None \<Rightarrow> (s, failed None)
                      | Some owner \<Rightarrow>
                          (let (s, ok) = write_state (w_owner_pid w) ''ptz-owner.pid'' (print_ld owner) s
                           in if \<not> ok then (s, failed (Some owner))
                              else let (s, ok) = write_state (w_marker w) ''ptz.patch.active''
                                     (dummy_marker_text target a) s
                                   in if \<not> ok then (s, failed (Some owner))
                                      else let (s, r) = modify (w_install w) target a 1 dummy_spec s
                                           in if r \<noteq> 0 then (s, gate_at_done False True 1 (Some owner))
                                              else let (s, ok) = write_state (w_active w)
                                                     ''ptz-supervisor.active'' ''active'' s
                                                   in if \<not> ok
                                                      then (s, gate_at_done True True 1 (Some owner))
                                                      else let s = fst (wait_for_owner (w_owner_polls w)
                                                                     (w_owner_grace w) owner s);
                                                               (s, r) = modify (w_restore w) target a (-1)
                                                                 dummy_spec s
                                                           in if r \<noteq> 0
                                                              then (s, gate_at_done True True 1 None)
                                                              else if \<not> w_unlink_marker w
                                                              then (s, gate_at_done False True 1 None)
                                                              else let s = unlink_state True
                                                                         ''ptz.patch.active'' s;
                                                                       s = unlink_state (w_unlink_active w)
                                                                         ''ptz-supervisor.active'' s;
                                                                       (s, ok) = write_state (w_restored w)
                                                                         ''ptz.restored'' ''restored'' s
                                                                   in (s, gate_at_done False False
                                                                         (if ok then 0 else 1) None))))"

definition dummy_cleanup :: "gate_world \<Rightarrow> nat \<Rightarrow> u32 \<Rightarrow> sup_state \<Rightarrow> gate_end \<Rightarrow> sup_state \<times> int" where
  "dummy_cleanup w target a s e =
     (let (s, e) =
            (if \<not> installed e then (s, e)
             else let (s, r) = modify (w_recover w) target a (-1) dummy_spec s
                  in if r \<noteq> 0 then (s, e)
                     else let s = unlink_state (w_unlink_marker w) ''ptz.patch.active'' s;
                              s = unlink_state (w_unlink_active w) ''ptz-supervisor.active'' s
                          in (fst (write_state (w_recovered w) ''ptz.restored'' ''restored-after-error'' s),
                              e\<lparr>installed := False, marked := False\<rparr>));
          s = (if gate_result e \<noteq> 0
               then fst (write_state (w_recovery_note w) ''ptz.recovery.failed''
                      (if installed e then ''patch-still-installed'' else ''supervisor-error'') s)
               else s);
          s = (if \<not> installed e \<and> marked e
               then unlink_state (w_unlink_last w) ''ptz.patch.active'' s else s)
      in (unlink_state (w_unlink_ready w) ''ptz-supervisor.ready'' s, gate_result e))"

definition supervise_dummy :: "gate_world \<Rightarrow> nat \<Rightarrow> u32 \<Rightarrow> sup_state \<Rightarrow> sup_state \<times> int" where
  "supervise_dummy w target a s =
     (let (s, e) = dummy_main w target a s in dummy_cleanup w target a (kill_owner e s) e)"

section \<open>The command line\<close>

datatype sup_command =
    Dummy_Gate nat u32
  | Inspect_Dummy nat u32
  | Device_Log_Gate nat u32
  | Device_Audio_Log_Gate nat u32
  | Device_Doom_Owner nat u32 nat
  | Inspect_Device nat
  | Inspect_Device_Audio nat
  | Verify_Device_Patch nat u32
  | Verify_Device_Audio_Patch nat u32
  | Restore_Device nat u32
  | Restore_Device_Audio nat u32
  | Usage

text \<open>An option with a process and an address, as long as both parse.\<close>

definition pid_and_address ::
    "string list \<Rightarrow> string \<Rightarrow> (nat \<Rightarrow> u32 \<Rightarrow> sup_command) \<Rightarrow> sup_command option" where
  "pid_and_address argv option command =
     (if length argv = 4 \<and> argv ! 1 = option
      then (case (parse_pid (argv ! 2), parse_u32 (argv ! 3)) of
              (Some target, Some address) \<Rightarrow> Some (command target address) | _ \<Rightarrow> None)
      else None)"

definition pid_only :: "string list \<Rightarrow> string \<Rightarrow> (nat \<Rightarrow> sup_command) \<Rightarrow> sup_command option" where
  "pid_only argv option command =
     (if length argv = 3 \<and> argv ! 1 = option then map_option command (parse_pid (argv ! 2)) else None)"

definition doom_owner_args :: "string list \<Rightarrow> sup_command option" where
  "doom_owner_args argv =
     (if length argv = 5 \<and> argv ! 1 = ''--device-doom-owner''
      then (case (parse_pid (argv ! 2), parse_u32 (argv ! 3), parse_pid (argv ! 4)) of
              (Some target, Some address, Some owner) \<Rightarrow> Some (Device_Doom_Owner target address owner)
            | _ \<Rightarrow> None)
      else None)"

fun first_command :: "sup_command option list \<Rightarrow> sup_command" where
  "first_command [] = Usage"
| "first_command (Some c # cs) = c"
| "first_command (None # cs) = first_command cs"

definition parse_command :: "string list \<Rightarrow> sup_command" where
  "parse_command argv = first_command
     [pid_and_address argv ''--dummy-gate'' Dummy_Gate,
      pid_and_address argv ''--inspect-dummy'' Inspect_Dummy,
      pid_and_address argv ''--device-log-gate'' Device_Log_Gate,
      pid_and_address argv ''--device-audio-log-gate'' Device_Audio_Log_Gate,
      doom_owner_args argv,
      pid_only argv ''--inspect-device'' Inspect_Device,
      pid_only argv ''--inspect-device-audio'' Inspect_Device_Audio,
      pid_and_address argv ''--verify-device-patch'' Verify_Device_Patch,
      pid_and_address argv ''--verify-device-audio-patch'' Verify_Device_Audio_Patch,
      pid_and_address argv ''--restore-device'' Restore_Device,
      pid_and_address argv ''--restore-device-audio'' Restore_Device_Audio]"

definition unused_patch :: "u8 list" where "unused_patch = replicate 8 0"

definition exit_of :: "sup_state \<times> int \<Rightarrow> sup_state \<times> int" where
  "exit_of p = (fst p, if snd p = 0 then 0 else 1)"

definition inspect_site ::
    "gate_world \<Rightarrow> e1_device_site_kind \<Rightarrow> nat \<Rightarrow> int \<Rightarrow> patch_spec \<Rightarrow> sup_state \<Rightarrow> sup_state \<times> int" where
  "inspect_site w kind target operation spec s =
     (case resolve_device_site (w_resolve w) kind of
        None \<Rightarrow> (s, 1)
      | Some a \<Rightarrow> exit_of (modify (w_inspect w) target a operation spec s))"

definition supervisor_main ::
    "doom_gate_world \<Rightarrow> string list \<Rightarrow> sup_state \<Rightarrow> sup_state \<times> int" where
  "supervisor_main d argv s =
     (let w = dg_gate d in case parse_command argv of
        Dummy_Gate target a \<Rightarrow> supervise_dummy w target a s
      | Inspect_Dummy target a \<Rightarrow> exit_of (modify (w_inspect w) target a 0 dummy_spec s)
      | Device_Log_Gate target hook \<Rightarrow> supervise_device_log w target hook s
      | Device_Audio_Log_Gate target hook \<Rightarrow> supervise_device_audio_log w target hook s
      | Device_Doom_Owner target hook owner \<Rightarrow> supervise_device_doom d target hook owner s
      | Inspect_Device target \<Rightarrow>
          inspect_site w E1_DEVICE_SITE_PTZ target 0
            ((device_spec 0)\<lparr>patch := unused_patch\<rparr>) s
      | Inspect_Device_Audio target \<Rightarrow>
          inspect_site w E1_DEVICE_SITE_AUDIO target 0
            ((device_audio_spec 0)\<lparr>patch := unused_patch\<rparr>) s
      | Verify_Device_Patch target hook \<Rightarrow>
          if \<not> thumb_hook_ok w hook then (s, 1)
          else inspect_site w E1_DEVICE_SITE_PTZ target 2 (device_spec hook) s
      | Verify_Device_Audio_Patch target hook \<Rightarrow>
          if \<not> thumb_hook_ok w hook then (s, 1)
          else inspect_site w E1_DEVICE_SITE_AUDIO target 2 (device_audio_spec hook) s
      | Restore_Device target hook \<Rightarrow> emergency_restore device_log_names w target hook s
      | Restore_Device_Audio target hook \<Rightarrow> emergency_restore device_audio_log_names w target hook s
      | Usage \<Rightarrow> (s, 2))"

section \<open>What a gate leaves behind\<close>

definition good_names :: "gate_names \<Rightarrow> bool" where
  "good_names g \<longleftrightarrow> g_marker g \<notin> {fst (g_ready g), g_owner_pid g, ''ptz-owner.kind'', fst (g_used g),
     fst (g_active g), g_patch_restored g, g_restored g, g_recovery g} \<and> (\<forall>h. wf_spec (g_spec g h))"

lemma gate_names_good [simp]:
  "good_names device_log_names" "good_names device_audio_log_names" "good_names device_doom_names"
  by (simp_all add: good_names_def device_log_names_def device_audio_log_names_def
      device_doom_names_def)

text \<open>A step that touches neither the target's memory nor the marker.\<close>

definition quiet :: "gate_names \<Rightarrow> sup_state \<Rightarrow> sup_state \<Rightarrow> bool" where
  "quiet g s s' \<longleftrightarrow> target_memory s' = target_memory s \<and>
     state_files s' (g_marker g) = state_files s (g_marker g)"

lemma quiet_refl [simp]: "quiet g s s" by (simp add: quiet_def)

lemma quiet_trans: "quiet g s s' \<Longrightarrow> quiet g s' s'' \<Longrightarrow> quiet g s s''" by (simp add: quiet_def)

lemma write_quiet: "n \<noteq> g_marker g \<Longrightarrow> quiet g s (fst (write_state out n c s))"
  by (simp add: quiet_def write_state_def split: write_outcome.split)

lemma write_memory [simp]: "target_memory (fst (write_state out n c s)) = target_memory s"
  by (simp add: write_state_def split: write_outcome.split)

lemma write_ok_file: "snd (write_state out n c s) \<Longrightarrow> state_files (fst (write_state out n c s)) n = Some c"
  by (simp add: write_state_def split: write_outcome.splits)

lemma unlink_quiet: "n \<noteq> g_marker g \<Longrightarrow> quiet g s (unlink_state ok n s)"
  by (simp add: quiet_def unlink_state_def)

lemma unlink_memory [simp]: "target_memory (unlink_state ok n s) = target_memory s"
  by (simp add: unlink_state_def)

lemma owner_quiet: "quiet g s (fst (wait_for_owner polls grace owner s))"
  by (simp add: quiet_def wait_for_owner_def Let_def split: option.split)

lemma doom_owner_quiet: "quiet g s (fst (wait_for_doom_owner w owner s))"
  by (simp add: quiet_def wait_for_doom_owner_def Let_def)

lemma kill_quiet: "quiet g s (kill_owner e s)"
  by (simp add: quiet_def kill_owner_def split: option.split)

lemma modify_memory: "target_memory (fst (modify w pid a operation spec s)) =
    fst (inspect_or_modify w pid a operation spec (target_memory s))"
  and modify_result: "snd (modify w pid a operation spec s) =
    snd (inspect_or_modify w pid a operation spec (target_memory s))"
  and modify_files [simp]: "state_files (fst (modify w pid a operation spec s)) = state_files s"
  by (simp_all add: modify_def case_prod_unfold Let_def)

lemma inspect_quiet: "quiet g s (fst (modify w pid a 0 spec s))"
  by (simp add: quiet_def modify_memory inspect_or_modify_def)

text \<open>
  The state at \<open>done:\<close> against the memory \<open>mem0\<close> before the gate: only the site can differ and it
  can be restored; an installed patch has its marker; without either the memory is \<open>mem0\<close>, and so it
  is when only the marker is left, unless the install failed; success means restored and no marker.
\<close>

definition site_kept :: "u32 \<Rightarrow> patch_spec \<Rightarrow> memory \<Rightarrow> memory \<Rightarrow> bool" where
  "site_kept a spec mem0 mem \<longleftrightarrow> same_elsewhere a mem0 mem \<and>
     (restorable spec a mem0 \<longrightarrow> restorable spec a mem)"

definition install_failed :: "gate_world \<Rightarrow> nat \<Rightarrow> u32 \<Rightarrow> patch_spec \<Rightarrow> memory \<Rightarrow> bool" where
  "install_failed w target a spec mem0 \<longleftrightarrow>
     snd (inspect_or_modify (w_install w) target a 1 spec mem0) \<noteq> 0"

definition done_state ::
    "gate_names \<Rightarrow> gate_world \<Rightarrow> nat \<Rightarrow> u32 \<Rightarrow> patch_spec \<Rightarrow> memory \<Rightarrow> sup_state \<Rightarrow> gate_end \<Rightarrow> bool"
where
  "done_state g w target a spec mem0 s e \<longleftrightarrow>
     site_kept a spec mem0 (target_memory s) \<and>
     (installed e \<longrightarrow> marked e \<and> bytes_at mem0 a 8 = original spec) \<and>
     (marked e \<longrightarrow> state_files s (g_marker g) \<noteq> None) \<and>
     (\<not> marked e \<longrightarrow> target_memory s = mem0) \<and>
     (marked e \<and> \<not> installed e \<longrightarrow> target_memory s = mem0 \<or> install_failed w target a spec mem0) \<and>
     (gate_result e = 0 \<longrightarrow> \<not> marked e \<and> state_files s (g_marker g) = None \<and>
        wait_for_marker (w_quiesced w)) \<and>
     (gate_result e = 0 \<or> gate_result e = 1)"

lemmas done_intro = done_state_def gate_at_done_def

lemma site_kept_refl [simp]: "site_kept a spec mem mem"
  by (simp add: site_kept_def)

lemma site_kept_modify:
  assumes "wf_spec spec" and "site_kept a spec mem0 mem"
  shows "site_kept a spec mem0 (fst (inspect_or_modify w pid a operation spec mem))"
proof -
  obtain m r where run: "inspect_or_modify w pid a operation spec mem = (m, r)" by force
  from modify_contract(1,2) [OF assms(1) run] assms(2) same_elsewhere_trans [of a mem0 mem m]
  show ?thesis by (simp add: site_kept_def run)
qed

text \<open>A restore that returns 0 brings back the memory from before.\<close>

lemma restore_exact:
  assumes "wf_spec spec" and "site_kept a spec mem0 mem" and "bytes_at mem0 a 8 = original spec"
    and "snd (inspect_or_modify w pid a (-1) spec mem) = 0"
  shows "fst (inspect_or_modify w pid a (-1) spec mem) = mem0"
proof -
  obtain m where run: "inspect_or_modify w pid a (-1) spec mem = (m, 0)"
    using assms(4) by (cases "inspect_or_modify w pid a (-1) spec mem") simp
  from modify_contract(1,3) [OF assms(1) run]
  have "same_elsewhere a mem m" and "bytes_at m a 8 = original spec" by simp_all
  with same_memory [of a mem0 m] same_elsewhere_trans [of a mem0 mem m] assms(2,3)
  show ?thesis by (simp add: run site_kept_def)
qed

lemma publish_done:
  assumes g: "good_names g" and spec: "spec = g_spec g hook"
    and kept: "site_kept a spec mem0 (target_memory s)" and orig: "bytes_at mem0 a 8 = original spec"
    and marker: "state_files s (g_marker g) \<noteq> None"
    and run: "restore_and_publish g w target a spec s = (s', e)"
  shows "done_state g w target a spec mem0 s' e"
proof -
  from g spec have wf: "wf_spec spec" by (simp add: good_names_def)
  let ?m = "modify (w_restore w) target a (-1) spec s"
  let ?s1 = "fst ?m"
  let ?w1 = "write_state (w_patch_restored w) (g_patch_restored g) ''bytes-verified'' ?s1"
  let ?u = "unlink_state (w_unlink_active w) (fst (g_active g)) (unlink_state True (g_marker g) (fst ?w1))"
  let ?w2 = "write_state (w_restored w) (g_restored g) ''device-bytes-and-hook-quiesced'' ?u"
  have k1: "site_kept a spec mem0 (target_memory ?s1)"
    using site_kept_modify [OF wf kept] by (simp add: modify_memory)
  have exact: "snd ?m = 0 \<Longrightarrow> target_memory ?s1 = mem0"
    using restore_exact [OF wf kept orig] by (simp add: modify_memory modify_result)
  have n: "g_patch_restored g \<noteq> g_marker g" "g_restored g \<noteq> g_marker g" "fst (g_active g) \<noteq> g_marker g"
    using g by (auto simp: good_names_def)
  have q1: "quiet g ?s1 (fst ?w1)" by (rule write_quiet [OF n(1)])
  have gone: "state_files (fst ?w2) (g_marker g) = None"
    using write_quiet [OF n(2), of ?u] unlink_quiet [OF n(3)] by (simp add: quiet_def unlink_state_def)
  consider "snd ?m \<noteq> 0" "s' = ?s1" "e = gate_at_done True True 1 None"
    | "snd ?m = 0" "s' = fst ?w1" "e = gate_at_done False True 1 None"
    | "snd ?m = 0" "wait_for_marker (w_quiesced w)" "s' = fst ?w2"
        "e = gate_at_done False False (if snd ?w2 then 0 else 1) None"
    using run by (auto simp: restore_and_publish_def case_prod_unfold Let_def split: if_splits)
  then show ?thesis
  proof cases
    case 1
    with k1 orig marker show ?thesis by (simp add: done_intro)
  next
    case 2
    with q1 k1 exact marker show ?thesis by (simp add: done_intro quiet_def)
  next
    case 3
    with gone exact show ?thesis by (simp add: done_intro)
  qed
qed

lemma install_done:
  assumes g: "good_names g" and spec: "spec = g_spec g hook"
    and phase: "\<And>s. quiet g s (fst (owner_phase s))"
    and run: "install_and_hold g w target hook a spec suffix owner owner_phase s = (s', e)"
  shows "done_state g w target a spec (target_memory s) s' e"
proof -
  from g spec have wf: "wf_spec spec" by (simp add: good_names_def)
  let ?mem0 = "target_memory s"
  obtain s1 ok1 where w1: "write_state (w_marker w) (g_marker g) (marker_text g target a hook @ suffix) s =
      (s1, ok1)" by force
  obtain s2 r where m: "modify (w_install w) target a 1 spec s1 = (s2, r)" by force
  obtain s3 ok3 where w3: "write_state (w_active w) (fst (g_active g)) (snd (g_active g)) s2 = (s3, ok3)"
    by force
  obtain s4 ok4 where o: "owner_phase s3 = (s4, ok4)" by force
  have mem1: "target_memory s1 = ?mem0" using write_memory w1 by (metis fst_conv)
  have files2: "state_files s2 = state_files s1" using modify_files m by (metis fst_conv)
  have marker: "ok1 \<Longrightarrow> state_files s1 (g_marker g) \<noteq> None"
    using write_ok_file w1 by (metis fst_conv snd_conv option.distinct(1))
  have mm: "target_memory s2 = fst (inspect_or_modify (w_install w) target a 1 spec ?mem0)"
    "r = snd (inspect_or_modify (w_install w) target a 1 spec ?mem0)"
    using modify_memory [of "w_install w" target a 1 spec s1]
      modify_result [of "w_install w" target a 1 spec s1] m mem1 by simp_all
  have k: "site_kept a spec ?mem0 (target_memory s2)"
    using site_kept_modify [OF wf site_kept_refl] by (simp add: mm)
  have failed: "r \<noteq> 0 \<Longrightarrow> install_failed w target a spec ?mem0" by (simp add: install_failed_def mm)
  have orig: "r = 0 \<Longrightarrow> bytes_at ?mem0 a 8 = original spec"
    using modify_contract(4) [OF wf surjective_pairing, of "w_install w" target a 1 ?mem0] by (simp add: mm)
  have n: "fst (g_active g) \<noteq> g_marker g" using g by (auto simp: good_names_def)
  have q3: "quiet g s2 s3" using write_quiet [OF n, of s2] w3 by (metis fst_conv)
  have q4: "quiet g s2 s4" using quiet_trans [OF q3] phase [of s3] o by simp
  show ?thesis
  proof (cases "ok1")
    case False
    with run w1 have "s' = s1" "e = gate_at_done False False 1 owner"
      by (simp_all add: install_and_hold_def)
    with mem1 show ?thesis by (simp add: done_intro)
  next
    case ok1: True
    show ?thesis
    proof (cases "r = 0")
      case False
      with run w1 m ok1 have "s' = s2" "e = gate_at_done False True 1 owner"
        by (simp_all add: install_and_hold_def)
      with k failed False marker ok1 files2 show ?thesis by (simp add: done_intro)
    next
      case True
      consider "s' = s3" "e = gate_at_done True True 1 owner"
        | "s' = s4" "e = gate_at_done True True 1 None"
        | "restore_and_publish g w target a spec s4 = (s', e)"
        using run w1 m w3 o ok1 True by (cases ok3; cases ok4) (simp_all add: install_and_hold_def)
      then show ?thesis
      proof cases
        case 3
        have "site_kept a spec ?mem0 (target_memory s4)" and "state_files s4 (g_marker g) \<noteq> None"
          using q4 k marker ok1 files2 by (simp_all add: quiet_def)
        from publish_done [OF g spec this(1) orig this(2) 3] True show ?thesis by simp
      qed (use k orig True marker ok1 files2 q3 q4 in \<open>simp_all add: done_intro quiet_def\<close>)
    qed
  qed
qed

lemma done_failed:
  "target_memory s = mem0 \<Longrightarrow> done_state g w target a spec mem0 s (gate_at_done False False 1 owner)"
  by (simp add: done_intro)

lemma done_memory: "done_state g w target a spec (target_memory s) s' e \<Longrightarrow>
    target_memory s = mem0 \<Longrightarrow> done_state g w target a spec mem0 s' e"
  by simp

lemma log_main_done:
  assumes g: "good_names g" and run: "supervise_log_main g w target hook a s = (s', e)"
  shows "done_state g w target a (g_spec g hook) (target_memory s) s' e"
proof -
  let ?spec = "g_spec g hook" and ?mem0 = "target_memory s"
  obtain s1 r where m: "modify (w_inspect w) target a 0 ?spec s = (s1, r)" by force
  obtain s2 ok2 where w2: "write_state (w_ready w) (fst (g_ready g)) (snd (g_ready g)) s1 = (s2, ok2)"
    by force
  have m1: "target_memory s1 = ?mem0"
    using inspect_quiet [of g s "w_inspect w" target a ?spec] m by (simp add: quiet_def)
  have m2: "target_memory s2 = ?mem0" using write_memory w2 m1 by (metis fst_conv)
  show ?thesis
  proof (cases "\<not> thumb_hook_ok w hook \<or> r \<noteq> 0 \<or> \<not> ok2 \<or> \<not> wait_for_go (w_go w) \<or> w_fork w = None")
    case True
    with run m w2 have "e = gate_at_done False False 1 None" "s' \<in> {s, s1, s2}"
      by (auto simp: supervise_log_main_def Let_def split: if_splits option.splits)
    with m1 m2 show ?thesis by (auto intro: done_failed)
  next
    case False
    then obtain owner where f: "w_fork w = Some owner" by auto
    obtain s3 ok3 where w3: "write_state (w_owner_pid w) (g_owner_pid g) (print_ld owner) s2 = (s3, ok3)"
      by force
    obtain s4 ok4 where w4: "write_state (w_used w) (fst (g_used g)) (snd (g_used g)) s3 = (s4, ok4)"
      by force
    have m3: "target_memory s3 = ?mem0" using write_memory w3 m2 by (metis fst_conv)
    have m4: "target_memory s4 = ?mem0" using write_memory w4 m3 by (metis fst_conv)
    let ?phase = "\<lambda>s. (fst (wait_for_owner (w_owner_polls w) (w_owner_grace w) owner s), True)"
    consider "e = gate_at_done False False 1 (Some owner)" "s' \<in> {s3, s4}"
      | "install_and_hold g w target hook a ?spec [] (Some owner) ?phase s4 = (s', e)"
      using run False f m w2 w3 w4
      by (cases ok3; cases ok4) (simp_all add: supervise_log_main_def Let_def)
    then show ?thesis
    proof cases
      case 1
      with m3 m4 show ?thesis by (auto intro: done_failed)
    next
      case 2
      from install_done [OF g refl _ 2] owner_quiet show ?thesis by (simp add: m4)
    qed
  qed
qed

lemma doom_main_done:
  assumes run: "supervise_doom_main d target hook owner a s = (s', e)"
  shows "done_state device_doom_names (dg_gate d) target a (device_spec hook) (target_memory s) s' e"
proof -
  let ?g = device_doom_names and ?w = "dg_gate d" and ?spec = "device_spec hook"
  let ?mem0 = "target_memory s"
  have spec: "?spec = g_spec ?g hook" by (simp add: device_doom_names_def device_log_names_def)
  obtain s1 r where m: "modify (w_inspect ?w) target a 0 ?spec s = (s1, r)" by force
  obtain s2 ok2 where w2: "write_state (w_ready ?w) (fst (g_ready ?g)) (snd (g_ready ?g)) s1 = (s2, ok2)"
    by force
  obtain s3 ok3 where w3: "write_state (w_owner_pid ?w) (g_owner_pid ?g) (print_ld owner) s2 = (s3, ok3)"
    by force
  obtain s4 ok4 where w4: "write_state (w_owner_kind ?w) ''ptz-owner.kind'' ''doom'' s3 = (s4, ok4)"
    by force
  obtain s5 ok5 where w5: "write_state (w_used ?w) (fst (g_used ?g)) (snd (g_used ?g)) s4 = (s5, ok5)"
    by force
  have m1: "target_memory s1 = ?mem0"
    using inspect_quiet [of ?g s "w_inspect ?w" target a ?spec] m by (simp add: quiet_def)
  have m2: "target_memory s2 = ?mem0" using write_memory w2 m1 by (metis fst_conv)
  have m3: "target_memory s3 = ?mem0" using write_memory w3 m2 by (metis fst_conv)
  have m4: "target_memory s4 = ?mem0" using write_memory w4 m3 by (metis fst_conv)
  have m5: "target_memory s5 = ?mem0" using write_memory w5 m4 by (metis fst_conv)
  let ?early = "\<not> thumb_hook_ok ?w hook \<or> \<not> verify_doom_owner (dg_owner_first d) \<or> r \<noteq> 0 \<or> \<not> ok2 \<or>
    \<not> wait_for_go (w_go ?w) \<or> \<not> verify_doom_owner (dg_owner_again d)"
  consider "e = gate_at_done False False 1 None" "s' \<in> {s, s1, s2, s3, s4, s5}"
    | "install_and_hold ?g ?w target hook a ?spec ('' owner='' @ print_ld owner) None
        (wait_for_doom_owner (dg_wait d) owner) s5 = (s', e)"
  proof (cases ?early)
    case True
    with run m w2 have "e = gate_at_done False False 1 None" "s' \<in> {s, s1, s2}"
      by (auto simp: supervise_doom_main_def Let_def split: if_splits)
    with that show ?thesis by blast
  next
    case False
    with run m w2 w3 w4 w5 that show ?thesis
      by (cases ok3; cases ok4; cases ok5) (simp_all add: supervise_doom_main_def Let_def)
  qed
  then show ?thesis
  proof cases
    case 1
    with m1 m2 m3 m4 m5 show ?thesis by (auto intro: done_failed)
  next
    case 2
    from install_done [OF gate_names_good(3) spec doom_owner_quiet 2] show ?thesis by (simp add: m5)
  qed
qed

text \<open>The end of a gate, against the memory before it.\<close>

definition gate_outcome ::
    "gate_names \<Rightarrow> gate_world \<Rightarrow> nat \<Rightarrow> u32 \<Rightarrow> patch_spec \<Rightarrow> memory \<Rightarrow> sup_state \<Rightarrow> int \<Rightarrow> bool" where
  "gate_outcome g w target a spec mem0 s r \<longleftrightarrow>
     site_kept a spec mem0 (target_memory s) \<and>
     (r = 0 \<longrightarrow> target_memory s = mem0 \<and> state_files s (g_marker g) = None \<and>
        wait_for_marker (w_quiesced w)) \<and>
     (target_memory s \<noteq> mem0 \<longrightarrow> state_files s (g_marker g) \<noteq> None \<or>
        install_failed w target a spec mem0 \<and> w_quiesced_now w)"

lemma finish_memory [simp]: "target_memory (gate_finish g w s e) = target_memory s"
  by (simp add: gate_finish_def Let_def)

lemma finish_marker:
  assumes "good_names g" and "\<not> (\<not> installed e \<and> marked e \<and> w_quiesced_now w)"
  shows "state_files (gate_finish g w s e) (g_marker g) = state_files s (g_marker g)"
proof -
  have n: "g_recovery g \<noteq> g_marker g" "fst (g_ready g) \<noteq> g_marker g"
    using assms(1) by (auto simp: good_names_def)
  from assms(2) have f: "(\<not> installed e \<and> marked e \<and> w_quiesced_now w) = False" by blast
  show ?thesis
    using write_quiet [OF n(1)] unlink_quiet [OF n(2)]
    unfolding gate_finish_def Let_def f by (simp add: quiet_def)
qed

lemma cleanup_outcome:
  assumes g: "good_names g" and wf: "wf_spec spec" and d: "done_state g w target a spec mem0 s e"
    and run: "gate_cleanup g w target a spec s e = (s', r)"
  shows "gate_outcome g w target a spec mem0 s' r"
proof -
  obtain s1 rr where m: "modify (w_recover w) target a (-1) spec s = (s1, rr)" by force
  have k1: "site_kept a spec mem0 (target_memory s1)"
    and exact: "installed e \<Longrightarrow> rr = 0 \<Longrightarrow> target_memory s1 = mem0"
    using site_kept_modify [OF wf, of a mem0 "target_memory s" "w_recover w" target "-1"]
      restore_exact [OF wf, of a mem0 "target_memory s" "w_recover w" target] d
      modify_memory [of "w_recover w" target a "-1" spec s]
      modify_result [of "w_recover w" target a "-1" spec s] m
    by (simp_all add: done_state_def)
  have files1: "state_files s1 = state_files s" using modify_files m by (metis fst_conv)
  show ?thesis
  proof (cases "installed e \<and> rr = 0")
    case True
    obtain s2 e2 where rec: "gate_recover g w target a spec s e = (s2, e2)" by force
    have "target_memory s2 = mem0" and "gate_result e2 = gate_result e"
      using rec m exact True by (auto simp: gate_recover_def Let_def split: if_splits)
    with run rec have "target_memory s' = mem0" and "r = gate_result e" by (auto simp: gate_cleanup_def)
    moreover have "gate_result e \<noteq> 0" using True d by (auto simp: done_state_def)
    ultimately show ?thesis by (simp add: gate_outcome_def)
  next
    case False
    let ?s = "if installed e then s1 else s"
    have "s' = gate_finish g w ?s e" and "r = gate_result e"
    proof -
      have "gate_recover g w target a spec s e = (?s, e)" using m False by (simp add: gate_recover_def)
      with run show "s' = gate_finish g w ?s e" and "r = gate_result e" by (simp_all add: gate_cleanup_def)
    qed
    moreover have "state_files ?s = state_files s" using files1 by simp
    moreover have "site_kept a spec mem0 (target_memory ?s)" using k1 d by (simp add: done_state_def)
    moreover have "\<not> installed e \<Longrightarrow> target_memory ?s = target_memory s" by simp
    ultimately show ?thesis
      using finish_marker [OF g, of e w ?s] d unfolding gate_outcome_def done_state_def by auto
  qed
qed

lemma log_outcome:
  assumes g: "good_names g" and site: "resolve_device_site (w_resolve w) (g_kind g) = Some a"
    and run: "supervise_log g w target hook s = (s', r)"
  shows "gate_outcome g w target a (g_spec g hook) (target_memory s) s' r"
proof -
  obtain s1 e where m: "supervise_log_main g w target hook a s = (s1, e)" by force
  have "done_state g w target a (g_spec g hook) (target_memory s) (kill_owner e s1) e"
    using log_main_done [OF g m] kill_quiet [of g s1 e] by (simp add: done_state_def quiet_def)
  with cleanup_outcome [OF g] g site run m show ?thesis
    by (simp add: supervise_log_def good_names_def)
qed

lemma doom_outcome:
  assumes site: "resolve_device_site (w_resolve (dg_gate d)) E1_DEVICE_SITE_PTZ = Some a"
    and run: "supervise_device_doom d target hook owner s = (s', r)"
  shows "gate_outcome device_doom_names (dg_gate d) target a (device_spec hook) (target_memory s) s' r"
proof -
  obtain s1 e where m: "supervise_doom_main d target hook owner a s = (s1, e)" by force
  have "quiet device_doom_names s1 (end_doom_owner d owner e s1)"
    using doom_owner_quiet by (simp add: end_doom_owner_def)
  with doom_main_done [OF m]
  have "done_state device_doom_names (dg_gate d) target a (device_spec hook) (target_memory s)
      (end_doom_owner d owner e s1) e" by (simp add: done_state_def quiet_def)
  with cleanup_outcome [OF gate_names_good(3) specs_wf(2)] site run m show ?thesis
    by (simp add: supervise_device_doom_def Let_def)
qed

text \<open>A run of one of the three device gates.\<close>

definition gate_run ::
    "gate_names \<Rightarrow> doom_gate_world \<Rightarrow> nat \<Rightarrow> u32 \<Rightarrow> nat \<Rightarrow> sup_state \<Rightarrow> sup_state \<times> int" where
  "gate_run g d target hook owner s =
     (if g = device_doom_names then supervise_device_doom d target hook owner s
      else supervise_log g (dg_gate d) target hook s)"

definition device_gates :: "gate_names set" where
  "device_gates = {device_log_names, device_audio_log_names, device_doom_names}"

lemma gate_run_outcome:
  assumes "g \<in> device_gates" and "resolve_device_site (w_resolve (dg_gate d)) (g_kind g) = Some a"
    and "gate_run g d target hook owner s = (s', r)"
  shows "gate_outcome g (dg_gate d) target a (g_spec g hook) (target_memory s) s' r"
proof (cases "g = device_doom_names")
  case True
  have "g_kind device_doom_names = E1_DEVICE_SITE_PTZ" "g_spec device_doom_names = device_spec"
    by (simp_all add: device_doom_names_def device_log_names_def)
  with doom_outcome [of d a target hook owner s s' r] assms True show ?thesis
    by (simp add: gate_run_def)
next
  case False
  with assms have "good_names g" by (auto simp: device_gates_def)
  from log_outcome [OF this assms(2)] assms(3) False show ?thesis by (simp add: gate_run_def)
qed

lemma unresolved_result:
  assumes "g \<in> device_gates" and "resolve_device_site (w_resolve (dg_gate d)) (g_kind g) = None"
  shows "snd (gate_run g d target hook owner s) = 1"
proof -
  have "g_kind device_doom_names = E1_DEVICE_SITE_PTZ"
    by (simp add: device_doom_names_def device_log_names_def)
  with assms show ?thesis
    by (auto simp: gate_run_def supervise_log_def supervise_device_doom_def gate_cleanup_def
        gate_recover_def gate_at_done_def Let_def)
qed

text \<open>C14. A device gate that exits with 0 has undone everything: the target's memory is exactly what it
  was before the gate, the marker file is gone, and the hook was seen quiescent before the marker was
  removed. This holds for the logging, the audio and the Doom gate and for every behaviour of the
  kernel, the file system and the owner.\<close>

theorem gate_success_restores:
  assumes "g \<in> device_gates" and "gate_run g d target hook owner s = (s', 0)"
  shows "target_memory s' = target_memory s \<and> state_files s' (g_marker g) = None \<and>
    wait_for_marker (w_quiesced (dg_gate d))"
proof -
  obtain a where "resolve_device_site (w_resolve (dg_gate d)) (g_kind g) = Some a"
    using unresolved_result [OF assms(1), of d target hook owner s] assms(2)
    by (cases "resolve_device_site (w_resolve (dg_gate d)) (g_kind g)") simp_all
  from gate_run_outcome [OF assms(1) this assms(2)] show ?thesis by (simp add: gate_outcome_def)
qed

text \<open>C15. A patch is never left behind unannounced: however a device gate ends, at most the eight
  bytes of the site differ from before and the site can still be restored; and if they differ, the
  marker file is there, except when installing itself reported an error and the quiescence marker
  was already present.\<close>

theorem patch_never_unannounced:
  assumes "g \<in> device_gates" and "resolve_device_site (w_resolve (dg_gate d)) (g_kind g) = Some a"
    and "gate_run g d target hook owner s = (s', r)"
  shows "same_elsewhere a (target_memory s) (target_memory s') \<and>
    (restorable (g_spec g hook) a (target_memory s) \<longrightarrow>
       restorable (g_spec g hook) a (target_memory s')) \<and>
    (target_memory s' \<noteq> target_memory s \<longrightarrow> state_files s' (g_marker g) \<noteq> None \<or>
       install_failed (dg_gate d) target a (g_spec g hook) (target_memory s) \<and>
       w_quiesced_now (dg_gate d))"
  using gate_run_outcome [OF assms] by (simp add: gate_outcome_def site_kept_def)

text \<open>Whatever a gate left behind, the emergency restore repairs it: when the site held the
  original bytes before the gate, a later emergency restore of the same site in which nothing fails
  returns 0, leaves the target's memory exactly as it was before the gate and removes the marker.\<close>

theorem emergency_repairs:
  assumes g: "g \<in> {device_log_names, device_audio_log_names}"
    and site: "resolve_device_site (w_resolve (dg_gate d)) (g_kind g) = Some a"
    and orig: "bytes_at (target_memory s) a 8 = original (g_spec g hook)"
    and run: "gate_run g d target hook owner s = (s', r)"
    and again: "resolve_device_site (w_resolve w) (g_kind g) = Some a" "thumb_hook_ok w hook"
    and calm: "undisturbed (w_restore w) target a (g_spec g hook)"
      "w_patch_restored w = Write_Done" "wait_for_marker (w_quiesced w)" "w_unlink_marker w"
      "w_restored w = Write_Done"
  shows "snd (emergency_restore g w target hook s') = 0 \<and>
    target_memory (fst (emergency_restore g w target hook s')) = target_memory s \<and>
    state_files (fst (emergency_restore g w target hook s')) (g_marker g) = None"
proof -
  let ?spec = "g_spec g hook" and ?mem0 = "target_memory s"
  from g have g': "g \<in> device_gates" and good: "good_names g" by (auto simp: device_gates_def)
  then have wf: "wf_spec ?spec" by (simp add: good_names_def)
  from gate_run_outcome [OF g' site run] have kept: "site_kept a ?spec ?mem0 (target_memory s')"
    by (simp add: gate_outcome_def)
  moreover have "restorable ?spec a ?mem0" using orig by (simp add: restorable_whole)
  ultimately have "restorable ?spec a (target_memory s')" by (simp add: site_kept_def)
  note ok = undisturbed_restore [OF wf calm(1) this]
  note exact = restore_exact [OF wf kept orig ok]
  obtain s1 r1 where m: "modify (w_restore w) target a (-1) ?spec s' = (s1, r1)" by force
  with ok exact have "r1 = 0" and "target_memory s1 = ?mem0"
    using modify_result [of "w_restore w" target a "-1" ?spec s']
      modify_memory [of "w_restore w" target a "-1" ?spec s'] by simp_all
  moreover have "g_restored g \<noteq> g_marker g" "fst (g_active g) \<noteq> g_marker g"
    using good by (auto simp: good_names_def)
  ultimately show ?thesis using again calm m
    by (simp add: emergency_restore_def write_state_def unlink_state_def Let_def)
qed

section \<open>A gate in which nothing fails\<close>

definition calm_gate :: "gate_names \<Rightarrow> gate_world \<Rightarrow> nat \<Rightarrow> u32 \<Rightarrow> u32 \<Rightarrow> bool" where
  "calm_gate g w target hook a \<longleftrightarrow>
     resolve_device_site (w_resolve w) (g_kind g) = Some a \<and> thumb_hook_ok w hook \<and>
     undisturbed (w_inspect w) target a (g_spec g hook) \<and> live_read_ok (w_inspect w) \<and>
     w_ready w = Write_Done \<and> wait_for_go (w_go w) \<and> w_fork w \<noteq> None \<and>
     w_owner_pid w = Write_Done \<and> w_used w = Write_Done \<and> w_marker w = Write_Done \<and>
     undisturbed (w_install w) target a (g_spec g hook) \<and> w_active w = Write_Done \<and>
     undisturbed (w_restore w) target a (g_spec g hook) \<and> w_patch_restored w = Write_Done \<and>
     wait_for_marker (w_quiesced w) \<and> w_unlink_marker w \<and> w_restored w = Write_Done"

lemma write_done: "write_state Write_Done n c s = (s\<lparr>state_files := (state_files s)(n \<mapsto> c)\<rparr>, True)"
  by (simp add: write_state_def)

lemma modify_zero:
  "snd (inspect_or_modify w pid a operation spec (target_memory s)) = 0 \<Longrightarrow>
   modify w pid a operation spec s =
     (s\<lparr>target_memory := fst (inspect_or_modify w pid a operation spec (target_memory s))\<rparr>, 0)"
  by (simp add: modify_def case_prod_unfold)

lemma calm_gate_result:
  assumes g: "g \<in> {device_log_names, device_audio_log_names}" and calm: "calm_gate g w target hook a"
    and site: "bytes_at (target_memory s) a 8 = original (g_spec g hook)"
  shows "gate_result (snd (supervise_log_main g w target hook a s)) = 0"
proof -
  let ?spec = "g_spec g hook"
  from g have good: "good_names g" by auto
  then have wf: "wf_spec ?spec" by (simp add: good_names_def)
  from calm obtain owner where f: "w_fork w = Some owner" by (auto simp: calm_gate_def)
  have ins: "snd (inspect_or_modify (w_inspect w) target a 0 ?spec (target_memory s)) = 0"
    using calm site undisturbed_inspect by (simp add: calm_gate_def)
  have same: "fst (inspect_or_modify (w_inspect w) target a 0 ?spec (target_memory s)) = target_memory s"
    by (simp add: inspect_or_modify_def)
  let ?m1 = "fst (inspect_or_modify (w_install w) target a 1 ?spec (target_memory s))"
  have inst: "snd (inspect_or_modify (w_install w) target a 1 ?spec (target_memory s)) = 0"
    using calm site undisturbed_install [OF wf] by (simp add: calm_gate_def)
  with modify_contract(4) [OF wf surjective_pairing]
  have "bytes_at ?m1 a 8 = patch ?spec" by blast
  then have "restorable ?spec a ?m1" by (simp add: restorable_whole)
  then have rest: "snd (inspect_or_modify (w_restore w) target a (-1) ?spec ?m1) = 0"
    using calm undisturbed_restore [OF wf] by (simp add: calm_gate_def)
  have om: "target_memory (fst (wait_for_owner p q owner t)) = target_memory t" for p q t
    using owner_quiet [of g t p q owner] by (simp add: quiet_def)
  show ?thesis
    using calm f inst rest
    by (simp add: supervise_log_main_def install_and_hold_def restore_and_publish_def calm_gate_def
        modify_zero [OF ins] same modify_zero write_done om Let_def gate_at_done_def)
qed

lemma log_result:
  assumes "resolve_device_site (w_resolve w) (g_kind g) = Some a"
  shows "snd (supervise_log g w target hook s) = gate_result (snd (supervise_log_main g w target hook a s))"
  using assms by (simp add: supervise_log_def gate_cleanup_def gate_recover_def case_prod_unfold Let_def
      split: if_splits)


section \<open>A device to try it on\<close>

definition device_code :: "u8 list" where
  "device_code = device_original_bytes @ drop 8 e1_ptz_site_pattern_new"

definition device_maps :: "maps_line" where
  "device_maps = \<lparr>map_fields = Some (0x1000, 0x1020, ''r-xp''), line_text = DEVICE_TARGET\<rparr>"

definition calm_world :: modify_world where
  "calm_world = \<lparr>exe_path = Some DEVICE_TARGET, maps_file = Some [device_maps], live_read_ok = True,
     task_passes = [(Some [one_task], True), (Some [one_task], True)],
     detach_calls = \<lparr>d_interrupt = \<lambda>_. Call_Ok, d_waits = \<lambda>_. [Wait_Stopped], d_detach = \<lambda>_. Call_Ok\<rparr>,
     peek_current = \<lambda>_. True, poke_new = \<lambda>_. True, peek_verify = \<lambda>_. True,
     poke_rollback = \<lambda>_. True\<rparr>"

definition calm_doom_gate :: doom_gate_world where
  "calm_doom_gate =
     \<lparr>dg_gate = \<lparr>w_resolve = \<lparr>rs_exe = Some DEVICE_TARGET, rs_maps = Some [(device_maps, Some device_code)],
          rs_memory = True\<rparr>,
        w_hook_maps = Some [\<lparr>map_fields = Some (0x5000, 0x6000, ''r-xp''), line_text = DEVICE_LIBRARY\<rparr>],
        w_inspect = calm_world, w_ready = Write_Done, w_go = [(False, False), (False, True)],
        w_fork = Some 99, w_owner_pid = Write_Done, w_owner_kind = Write_Done, w_used = Write_Done,
        w_marker = Write_Done, w_install = calm_world, w_active = Write_Done,
        w_owner_polls = [Owner_Running, Owner_Exited], w_owner_grace = [],
        w_restore = calm_world, w_patch_restored = Write_Done, w_quiesced = [False, True],
        w_unlink_marker = True, w_unlink_active = True, w_restored = Write_Done,
        w_recover = calm_world, w_patch_recovered = Write_Done, w_recover_quiesced = [],
        w_recovered = Write_Done, w_recovery_note = Write_Done, w_quiesced_now = False,
        w_unlink_last = True, w_unlink_ready = True\<rparr>,
      dg_owner_first = None, dg_owner_again = None,
      dg_wait = \<lparr>do_polls = [], do_at_stop = None, do_term = [], do_kill = []\<rparr>,
      dg_owner_last = None,
      dg_wait_last = \<lparr>do_polls = [], do_at_stop = None, do_term = [], do_kill = []\<rparr>\<rparr>"

definition device_state :: sup_state where
  "device_state = \<lparr>target_memory = store_bytes (\<lambda>_. 0) 0x1000 device_original_bytes,
     state_files = Map.empty, signals = []\<rparr>"

lemma device_code_matches: "site_matches device_code E1_DEVICE_SITE_PTZ 0"
  by code_simp

lemma device_resolved:
  "resolve_device_site (w_resolve (dg_gate calm_doom_gate)) (g_kind device_log_names) = Some 0x1000"
proof -
  have len: "length device_code = 32" by (simp add: device_code_def device_original_bytes_def)
  have offs: "even_offsets 32 32 = [0]" by (simp add: even_offsets_def)
  have find: "e1_find_device_site device_code 0x1000 E1_DEVICE_SITE_PTZ blank_site =
      (\<lparr>site_address = 0x1000, site_marker = 0\<rparr>, 1)"
    by (simp add: e1_find_device_site_def len offs device_code_matches blank_site_def)
  have "candidate_mapping device_maps = Some (0x1000, 32)"
    by (simp add: candidate_mapping_def device_maps_def perm_at_def)
  with find len show ?thesis
    by (simp add: resolve_device_site_def calm_doom_gate_def verify_executable_def
        device_log_names_def)
qed

lemma calm_undisturbed: "undisturbed calm_world 7 0x1000 (device_spec 0x5001)"
proof -
  have "maps_line_covers 0x1000 DEVICE_TARGET device_maps"
    by (simp add: maps_line_covers_def perm_at_def device_maps_def)
  then show ?thesis
    by (simp add: undisturbed_def valid_target_def verify_executable_def calm_world_def
        device_spec_def one_task_attached detach_all_threads_def detach_thread_def
        address_is_executable_def Let_def)
qed

lemma device_calm: "calm_gate device_log_names (dg_gate calm_doom_gate) 7 0x5001 0x1000"
proof -
  have spec: "g_spec device_log_names = device_spec" by (simp add: device_log_names_def)
  have hook: "thumb_hook_ok (dg_gate calm_doom_gate) 0x5001"
    by (simp add: thumb_hook_ok_def calm_doom_gate_def address_is_executable_def maps_line_covers_def
        perm_at_def)
  have "live_read_ok calm_world" by (simp add: calm_world_def)
  with device_resolved hook calm_undisturbed show ?thesis
    by (simp add: calm_gate_def spec) (simp add: calm_doom_gate_def)
qed

lemma device_site:
  "bytes_at (target_memory device_state) 0x1000 8 = original (g_spec device_log_names 0x5001)"
proof -
  have "length device_original_bytes = 8" by (simp add: device_original_bytes_def)
  then show ?thesis
    by (simp add: device_state_def device_log_names_def device_spec_def store_bytes_at)
qed


lemma device_gate_run:
  obtains s' where "gate_run device_log_names calm_doom_gate 7 0x5001 42 device_state = (s', 0)"
proof -
  have "snd (supervise_log device_log_names (dg_gate calm_doom_gate) 7 0x5001 device_state) = 0"
    using log_result [OF device_resolved] calm_gate_result [OF _ device_calm device_site] by simp
  moreover have "device_log_names \<noteq> device_doom_names"
    by (simp add: device_doom_names_def device_log_names_def)
  ultimately show ?thesis using that
    by (cases "supervise_log device_log_names (dg_gate calm_doom_gate) 7 0x5001 device_state")
      (simp add: gate_run_def)
qed

lemma gate_success_restores_witness:
  "target_memory (fst (gate_run device_log_names calm_doom_gate 7 0x5001 42 device_state)) =
     target_memory device_state"
proof -
  obtain s' where run: "gate_run device_log_names calm_doom_gate 7 0x5001 42 device_state = (s', 0)"
    by (rule device_gate_run)
  have "device_log_names \<in> device_gates" by (simp add: device_gates_def)
  from gate_success_restores [OF this run] run show ?thesis by simp
qed

lemma patch_never_unannounced_witness:
  "restorable (device_spec 0x5001) 0x1000
     (target_memory (fst (gate_run device_log_names calm_doom_gate 7 0x5001 42 device_state)))"
proof -
  obtain s' r where run: "gate_run device_log_names calm_doom_gate 7 0x5001 42 device_state = (s', r)"
    by force
  have "device_log_names \<in> device_gates" by (simp add: device_gates_def)
  from patch_never_unannounced [OF this device_resolved run] run
    restorable_whole [OF disjI1 [OF device_site]]
  show ?thesis by (simp add: device_log_names_def)
qed

lemma emergency_repairs_witness:
  "target_memory (fst (emergency_restore device_log_names (dg_gate calm_doom_gate) 7 0x5001
     (fst (gate_run device_log_names calm_doom_gate 7 0x5001 42 device_state)))) =
   target_memory device_state"
proof -
  obtain s' r where run: "gate_run device_log_names calm_doom_gate 7 0x5001 42 device_state = (s', r)"
    by force
  from device_calm have calm: "thumb_hook_ok (dg_gate calm_doom_gate) 0x5001"
      "undisturbed (w_restore (dg_gate calm_doom_gate)) 7 0x1000 (g_spec device_log_names 0x5001)"
      "w_patch_restored (dg_gate calm_doom_gate) = Write_Done"
      "wait_for_marker (w_quiesced (dg_gate calm_doom_gate))" "w_unlink_marker (dg_gate calm_doom_gate)"
      "w_restored (dg_gate calm_doom_gate) = Write_Done"
    by (simp_all add: calm_gate_def)
  from emergency_repairs [OF _ device_resolved device_site run device_resolved calm] run
  show ?thesis by simp
qed


end
