(* ===== verification/Ptz_Event.thy ===== *)
theory Ptz_Event
  imports Byte_Codec
begin

text \<open>
  The datagram of \<open>src/common/e1-ptz-event.h\<close>: the camera's side fills it in and sends it, the
  game's side decodes it. The signed fields are kept as the 32-bit patterns of the struct.
\<close>

definition E1_PTZ_EVENT_MAGIC :: u32 where [e1_consts]: "E1_PTZ_EVENT_MAGIC = 0x4550545a"
definition E1_PTZ_EVENT_VERSION :: u32 where [e1_consts]: "E1_PTZ_EVENT_VERSION = 1"

definition sizeof_ptz_event :: nat where "sizeof_ptz_event = 32"

record e1_ptz_event =
  pe_magic :: u32
  pe_version :: u32
  pe_sequence :: u32
  pe_channel :: u32
  pe_command :: u32
  pe_speed :: u32
  pe_monotonic_ms :: u64

definition ptz_event_bytes :: "e1_ptz_event \<Rightarrow> u8 list" where
  "ptz_event_bytes e = u32_bytes (pe_magic e) @ u32_bytes (pe_version e) @
     u32_bytes (pe_sequence e) @ u32_bytes (pe_channel e) @ u32_bytes (pe_command e) @
     u32_bytes (pe_speed e) @ u32_bytes (ucast (pe_monotonic_ms e)) @
     u32_bytes (ucast (drop_bit 32 (pe_monotonic_ms e)))"

lemma length_ptz_event [simp]: "length (ptz_event_bytes e) = sizeof_ptz_event"
  by (simp add: ptz_event_bytes_def sizeof_ptz_event_def)

lemma read_ptz_event:
  "read_u32_le (ptz_event_bytes e) 0 = pe_magic e"
  "read_u32_le (ptz_event_bytes e) 4 = pe_version e"
  "read_u32_le (ptz_event_bytes e) 16 = pe_command e"
proof -
  let ?b = "ptz_event_bytes e"
  define r where "r = u32_bytes (pe_speed e) @ u32_bytes (ucast (pe_monotonic_ms e)) @
     u32_bytes (ucast (drop_bit 32 (pe_monotonic_ms e)))"
  have b: "?b = [] @ u32_bytes (pe_magic e) @ u32_bytes (pe_version e) @ u32_bytes (pe_sequence e) @
      u32_bytes (pe_channel e) @ u32_bytes (pe_command e) @ r"
    by (simp add: ptz_event_bytes_def r_def)
  show "read_u32_le ?b 0 = pe_magic e" unfolding b by (rule read_u32_bytes) simp
  show "read_u32_le ?b 4 = pe_version e"
    using read_u32_bytes [of 4 "u32_bytes (pe_magic e)"] unfolding b by simp
  show "read_u32_le ?b 16 = pe_command e"
    using read_u32_bytes [of 16 "u32_bytes (pe_magic e) @ u32_bytes (pe_version e) @
      u32_bytes (pe_sequence e) @ u32_bytes (pe_channel e)"] unfolding b by simp
qed

end
