(* ===== verification/Call_Counter.thy ===== *)
theory Call_Counter
  imports E1_Prelude
begin

text \<open>
  The active-call counters of the two hooks of \<open>src/camera/e1-doom-injected.c\<close>
  (\<open>ptz_active_calls\<close>, \<open>audio_pcm_active_calls\<close>). A call adds 1 in its first operation and
  subtracts 1 in its last; the worker takes 0 to mean that no thread is inside. The locale states
  what the steps of a hook do to the counter, and its lemmas are what the worker may conclude.
\<close>

definition counts :: "'i set \<Rightarrow> u32 \<Rightarrow> bool" where
  "counts threads n \<longleftrightarrow> finite threads \<and> n = word_of_nat (card threads)"

lemma card_remove_word:
  "finite A \<Longrightarrow> i \<in> A \<Longrightarrow> word_of_nat (card (A - {i})) = (word_of_nat (card A) - 1 :: u32)"
  using card.remove [of A i] by simp

lemma counts_empty [simp]: "counts {} n \<longleftrightarrow> n = 0"
  by (simp add: counts_def)

lemma counts_insert: "counts A n \<Longrightarrow> i \<notin> A \<Longrightarrow> counts (insert i A) (n + 1)"
  by (simp add: counts_def)

lemma counts_remove: "counts A n \<Longrightarrow> i \<in> A \<Longrightarrow> counts (A - {i}) (n - 1)"
  unfolding counts_def by (elim conjE) (simp only: card_remove_word finite_Diff simp_thms)

lemma counts_zero: "counts A 0 \<Longrightarrow> card A < 2 ^ 32 \<Longrightarrow> A = {}"
proof -
  assume c: "counts A 0" and "card A < 2 ^ 32"
  then have "unat (word_of_nat (card A) :: u32) = card A" by (simp add: unat_of_nat)
  with c show "A = {}" by (simp add: counts_def)
qed

locale call_counter =
  fixes threads :: "'w \<Rightarrow> 'i set" and active :: "'w \<Rightarrow> u32" and step :: "'e \<Rightarrow> 'w \<Rightarrow> 'w"
  assumes step_shape:
    "threads (step e w) = threads w \<and> active (step e w) = active w \<or>
     (\<exists>i. i \<notin> threads w \<and> threads (step e w) = insert i (threads w) \<and> active (step e w) = active w + 1) \<or>
     (\<exists>i. i \<in> threads w \<and> threads (step e w) = threads w - {i} \<and> active (step e w) = active w - 1)"
begin

lemma counts_step: "counts (threads w) (active w) \<Longrightarrow> counts (threads (step e w)) (active (step e w))"
  using step_shape [of e w] by (elim disjE exE conjE) (simp_all add: counts_insert counts_remove)

lemma counts_run:
  "counts (threads w) (active w) \<Longrightarrow> counts (threads (fold step es w)) (active (fold step es w))"
  by (induction es arbitrary: w) (simp_all add: counts_step)

lemma none_inside:
  "counts (threads w) (active w) \<Longrightarrow> card (threads w) < 2 ^ 32 \<Longrightarrow> active w = 0 \<Longrightarrow> threads w = {}"
  by (metis counts_zero)

end

end
