(* ===== verification/Ptz_Hook.thy ===== *)
theory Ptz_Hook
  imports Ptz_Event Runtime_Secret Call_Counter
begin

text \<open>
  The PTZ side of \<open>src/camera/e1-doom-injected.c\<close>: \<open>e1_ptz_hook_route\<close>, which the trampoline
  calls on any of the device's threads, the ring of 64 slots it fills without locks, and the
  worker's \<open>drain_ptz_events\<close>, which feeds the lifecycle controller and forwards to the game.

  The hook is given twice: as a function, and as the single atomic operations of a call, so that
  calls of several threads, the worker's mode changes and the worker's loads interleave
  arbitrarily. The loads of one drained event are single steps too.
\<close>

section \<open>Data\<close>

datatype ptz_hook_mode = PTZ_HOOK_CAMERA | PTZ_HOOK_DOOM | PTZ_HOOK_OFF

definition PTZ_RING_SIZE :: nat where [e1_consts]: "PTZ_RING_SIZE = 64"

record ptz_ring_slot =
  committed :: u32
  rs_channel :: int
  rs_command :: int
  rs_speed :: int

record ptz_hook =
  ptz_ring :: "ptz_ring_slot list"
  ptz_write_ticket :: u32
  ptz_active_calls :: u32
  ptz_mode :: ptz_hook_mode

definition supported_ptz_command :: "int \<Rightarrow> bool" where
  "supported_ptz_command command \<longleftrightarrow>
     (if command \<ge> 0 \<and> command \<le> 14 then True
      else command \<in> {18, 19, 20, 21, 25, 32, 33, 34, 35, 36, 37})"

definition ring_index :: "u32 \<Rightarrow> nat" where
  "ring_index ticket = unat ticket mod PTZ_RING_SIZE"

section \<open>The hook\<close>

text \<open>A call that no other thread interrupts: the hook after it, and whether the command is
  consumed.\<close>

definition e1_ptz_hook_route :: "int \<Rightarrow> int \<Rightarrow> int \<Rightarrow> ptz_hook \<Rightarrow> ptz_hook \<times> bool" where
  "e1_ptz_hook_route channel command speed h =
     (let h = h\<lparr>ptz_active_calls := ptz_active_calls h + 1\<rparr>;
          (h, consume) =
            (if supported_ptz_command command \<and> ptz_mode h \<noteq> PTZ_HOOK_OFF then
               (let ticket = ptz_write_ticket h;
                    h = h\<lparr>ptz_write_ticket := ticket + 1\<rparr>;
                    h = h\<lparr>ptz_ring := (ptz_ring h)[ring_index ticket :=
                           \<lparr>committed = ticket + 1, rs_channel = channel, rs_command = command,
                            rs_speed = speed\<rparr>]\<rparr>
                in (h, ptz_mode h = PTZ_HOOK_DOOM))
             else (h, False))
      in (h\<lparr>ptz_active_calls := ptz_active_calls h - 1\<rparr>, consume))"

text \<open>The call as its atomic operations. \<open>Call_Took t\<close> holds a ticket and has stored nothing yet;
  \<open>Call_Done consume\<close> has returned.\<close>

datatype hook_pc =
    Call_Entered
  | Call_Counted
  | Call_Admitted
  | Call_Took u32
  | Call_Channel u32
  | Call_Command u32
  | Call_Speed u32
  | Call_Committed u32
  | Call_Leaving bool
  | Call_Done bool

record hook_call =
  hc_args :: "int \<times> int \<times> int"
  hc_pc :: hook_pc

definition upd_ring_slot :: "u32 \<Rightarrow> (ptz_ring_slot \<Rightarrow> ptz_ring_slot) \<Rightarrow> ptz_hook \<Rightarrow> ptz_hook" where
  "upd_ring_slot ticket f h =
     h\<lparr>ptz_ring := (ptz_ring h)[ring_index ticket := f (ptz_ring h ! ring_index ticket)]\<rparr>"

fun call_step :: "int \<times> int \<times> int \<Rightarrow> hook_pc \<Rightarrow> ptz_hook \<Rightarrow> ptz_hook \<times> hook_pc" where
  "call_step (ch, cmd, sp) Call_Entered h =
     (h\<lparr>ptz_active_calls := ptz_active_calls h + 1\<rparr>, Call_Counted)"
| "call_step (ch, cmd, sp) Call_Counted h =
     (h, if supported_ptz_command cmd \<and> ptz_mode h \<noteq> PTZ_HOOK_OFF then Call_Admitted
         else Call_Leaving False)"
| "call_step (ch, cmd, sp) Call_Admitted h =
     (h\<lparr>ptz_write_ticket := ptz_write_ticket h + 1\<rparr>, Call_Took (ptz_write_ticket h))"
| "call_step (ch, cmd, sp) (Call_Took t) h =
     (upd_ring_slot t (\<lambda>s. s\<lparr>rs_channel := ch\<rparr>) h, Call_Channel t)"
| "call_step (ch, cmd, sp) (Call_Channel t) h =
     (upd_ring_slot t (\<lambda>s. s\<lparr>rs_command := cmd\<rparr>) h, Call_Command t)"
| "call_step (ch, cmd, sp) (Call_Command t) h =
     (upd_ring_slot t (\<lambda>s. s\<lparr>rs_speed := sp\<rparr>) h, Call_Speed t)"
| "call_step (ch, cmd, sp) (Call_Speed t) h =
     (upd_ring_slot t (\<lambda>s. s\<lparr>committed := t + 1\<rparr>) h, Call_Committed t)"
| "call_step (ch, cmd, sp) (Call_Committed t) h = (h, Call_Leaving (ptz_mode h = PTZ_HOOK_DOOM))"
| "call_step (ch, cmd, sp) (Call_Leaving consume) h =
     (h\<lparr>ptz_active_calls := ptz_active_calls h - 1\<rparr>, Call_Done consume)"
| "call_step (ch, cmd, sp) (Call_Done consume) h = (h, Call_Done consume)"

text \<open>The atomic operations of an uninterrupted call add up to the function.\<close>

fun call_run :: "nat \<Rightarrow> int \<times> int \<times> int \<Rightarrow> hook_pc \<Rightarrow> ptz_hook \<Rightarrow> ptz_hook \<times> hook_pc" where
  "call_run 0 args pc h = (h, pc)"
| "call_run (Suc n) args pc h = (let (h, pc) = call_step args pc h in call_run n args pc h)"

lemma slot_filled:
  "s\<lparr>rs_channel := a, rs_command := b, rs_speed := c, committed := d\<rparr> =
     \<lparr>committed = d, rs_channel = a, rs_command = b, rs_speed = c\<rparr>"
  by (cases s) simp

lemma hook_route_refined:
  assumes "length (ptz_ring h) = PTZ_RING_SIZE"
  shows "call_run 9 (channel, command, speed) Call_Entered h =
    (fst (e1_ptz_hook_route channel command speed h),
     Call_Done (snd (e1_ptz_hook_route channel command speed h)))"
proof -
  have idx: "ring_index t < length (ptz_ring h)" for t by (simp add: assms ring_index_def PTZ_RING_SIZE_def)
  show ?thesis using idx
    by (auto simp: eval_nat_numeral e1_ptz_hook_route_def upd_ring_slot_def slot_filled Let_def)
qed

section \<open>The worker's loads\<close>

text \<open>What the committed number of the next slot means to the worker.\<close>

datatype ring_verdict = Ring_Empty | Ring_Overrun | Ring_Event

definition ring_verdict_of :: "u32 \<Rightarrow> u32 \<Rightarrow> ring_verdict" where
  "ring_verdict_of read_ticket c =
     (let expected = read_ticket + 1
      in if c = 0 \<or> c < expected then Ring_Empty
         else if c \<noteq> expected then Ring_Overrun else Ring_Event)"

text \<open>Between two loads of one event: what has been loaded so far.\<close>

datatype reader_pc = Reader_Idle | Reader_Matched | Reader_Channel int | Reader_Command int int

text \<open>The hook, the current call of each thread, the worker's reader, and two ghost logs: the
  arguments of the calls by ticket, and the events delivered.\<close>

record ring_world =
  hook :: ptz_hook
  calls :: "nat \<Rightarrow> hook_call"
  taken :: "(int \<times> int \<times> int) list"
  rd_ticket :: u32
  reader :: reader_pc
  delivered :: "(u32 \<times> int \<times> int \<times> int) list"

datatype ring_event = Enter nat int int int | Step nat | Set_Mode ptz_hook_mode | Read

definition next_slot :: "ring_world \<Rightarrow> ptz_ring_slot" where
  "next_slot w = ptz_ring (hook w) ! ring_index (rd_ticket w)"

definition read_step :: "ring_world \<Rightarrow> ring_world" where
  "read_step w =
     (case reader w of
        Reader_Idle \<Rightarrow>
          (case ring_verdict_of (rd_ticket w) (committed (next_slot w)) of
             Ring_Empty \<Rightarrow> w
           | Ring_Overrun \<Rightarrow> w\<lparr>rd_ticket := committed (next_slot w) - 1\<rparr>
           | Ring_Event \<Rightarrow> w\<lparr>reader := Reader_Matched\<rparr>)
      | Reader_Matched \<Rightarrow> w\<lparr>reader := Reader_Channel (rs_channel (next_slot w))\<rparr>
      | Reader_Channel ch \<Rightarrow> w\<lparr>reader := Reader_Command ch (rs_command (next_slot w))\<rparr>
      | Reader_Command ch cmd \<Rightarrow>
          w\<lparr>reader := Reader_Idle, rd_ticket := rd_ticket w + 1,
            delivered := delivered w @ [(rd_ticket w + 1, ch, cmd, rs_speed (next_slot w))]\<rparr>)"

definition thread_step :: "nat \<Rightarrow> ring_world \<Rightarrow> ring_world" where
  "thread_step i w =
     (let c = calls w i; (h, pc) = call_step (hc_args c) (hc_pc c) (hook w)
      in w\<lparr>hook := h, calls := (calls w)(i := c\<lparr>hc_pc := pc\<rparr>),
           taken := (if hc_pc c = Call_Admitted then taken w @ [hc_args c] else taken w)\<rparr>)"

fun ring_step :: "ring_event \<Rightarrow> ring_world \<Rightarrow> ring_world" where
  "ring_step (Enter i ch cmd sp) w =
     (case hc_pc (calls w i) of
        Call_Done _ \<Rightarrow>
          w\<lparr>calls := (calls w)(i := \<lparr>hc_args = (ch, cmd, sp), hc_pc = Call_Entered\<rparr>)\<rparr>
      | _ \<Rightarrow> w)"
| "ring_step (Step i) w = thread_step i w"
| "ring_step (Set_Mode m) w = w\<lparr>hook := (hook w)\<lparr>ptz_mode := m\<rparr>\<rparr>"
| "ring_step Read w = read_step w"

definition empty_ring :: "ptz_ring_slot list" where
  "empty_ring = replicate PTZ_RING_SIZE \<lparr>committed = 0, rs_channel = 0, rs_command = 0, rs_speed = 0\<rparr>"

definition fresh_world :: "ptz_hook_mode \<Rightarrow> ring_world" where
  "fresh_world m = \<lparr>hook = \<lparr>ptz_ring = empty_ring, ptz_write_ticket = 0, ptz_active_calls = 0,
       ptz_mode = m\<rparr>,
     calls = (\<lambda>i. \<lparr>hc_args = (0, 0, 0), hc_pc = Call_Done False\<rparr>), taken = [], rd_ticket = 0,
     reader = Reader_Idle, delivered = []\<rparr>"

text \<open>The worker keeps up: it is never more than a ring behind (and fewer than 2^32 - 1 tickets
  have been taken, so that none comes round).\<close>

definition keeps_up :: "ring_world \<Rightarrow> bool" where
  "keeps_up w \<longleftrightarrow> length (taken w) \<le> unat (rd_ticket w) + PTZ_RING_SIZE \<and> length (taken w) < 2 ^ 32 - 1"

inductive ring_reach :: "ptz_hook_mode \<Rightarrow> ring_world \<Rightarrow> bool" for m where
  Fresh: "ring_reach m (fresh_world m)"
| Next: "ring_reach m w \<Longrightarrow> keeps_up (ring_step e w) \<Longrightarrow> ring_reach m (ring_step e w)"

section \<open>No torn, lost or repeated event\<close>

fun pc_ticket :: "hook_pc \<Rightarrow> nat option" where
  "pc_ticket (Call_Took t) = Some (unat t)"
| "pc_ticket (Call_Channel t) = Some (unat t)"
| "pc_ticket (Call_Command t) = Some (unat t)"
| "pc_ticket (Call_Speed t) = Some (unat t)"
| "pc_ticket _ = None"

fun pc_stored :: "hook_pc \<Rightarrow> int \<times> int \<times> int \<Rightarrow> ptz_ring_slot \<Rightarrow> bool" where
  "pc_stored (Call_Channel t) (ch, cmd, sp) s \<longleftrightarrow> rs_channel s = ch"
| "pc_stored (Call_Command t) (ch, cmd, sp) s \<longleftrightarrow> rs_channel s = ch \<and> rs_command s = cmd"
| "pc_stored (Call_Speed t) (ch, cmd, sp) s \<longleftrightarrow> rs_channel s = ch \<and> rs_command s = cmd \<and> rs_speed s = sp"
| "pc_stored _ a s \<longleftrightarrow> True"

definition slot_at :: "ring_world \<Rightarrow> nat \<Rightarrow> ptz_ring_slot" where
  "slot_at w t = ptz_ring (hook w) ! (t mod PTZ_RING_SIZE)"

definition slot_holds :: "ptz_ring_slot \<Rightarrow> nat \<Rightarrow> int \<times> int \<times> int \<Rightarrow> bool" where
  "slot_holds s t a \<longleftrightarrow> committed s = word_of_nat (Suc t) \<and> (rs_channel s, rs_command s, rs_speed s) = a"

definition call_ok :: "ring_world \<Rightarrow> hook_call \<Rightarrow> bool" where
  "call_ok w c \<longleftrightarrow>
     (case pc_ticket (hc_pc c) of None \<Rightarrow> True
      | Some t \<Rightarrow> unat (rd_ticket w) \<le> t \<and> t < length (taken w) \<and> taken w ! t = hc_args c \<and>
          committed (slot_at w t) \<noteq> word_of_nat (Suc t) \<and> pc_stored (hc_pc c) (hc_args c) (slot_at w t))"

definition open_ticket :: "ring_world \<Rightarrow> nat \<Rightarrow> bool" where
  "open_ticket w t \<longleftrightarrow> (\<exists>i. pc_ticket (hc_pc (calls w i)) = Some t)"

fun reader_ok :: "reader_pc \<Rightarrow> int \<times> int \<times> int \<Rightarrow> bool" where
  "reader_ok Reader_Idle a \<longleftrightarrow> True"
| "reader_ok Reader_Matched a \<longleftrightarrow> True"
| "reader_ok (Reader_Channel ch) a \<longleftrightarrow> ch = fst a"
| "reader_ok (Reader_Command ch cmd) a \<longleftrightarrow> ch = fst a \<and> cmd = fst (snd a)"

definition ring_inv :: "ring_world \<Rightarrow> bool" where
  "ring_inv w \<longleftrightarrow>
     length (ptz_ring (hook w)) = PTZ_RING_SIZE \<and>
     ptz_write_ticket (hook w) = word_of_nat (length (taken w)) \<and> keeps_up w \<and>
     unat (rd_ticket w) \<le> length (taken w) \<and>
     delivered w = map (\<lambda>t. (word_of_nat (Suc t), taken w ! t)) [0..<unat (rd_ticket w)] \<and>
     (\<forall>i. call_ok w (calls w i)) \<and>
     (\<forall>i j t. pc_ticket (hc_pc (calls w i)) = Some t \<and> pc_ticket (hc_pc (calls w j)) = Some t \<longrightarrow> i = j) \<and>
     (\<forall>t. unat (rd_ticket w) \<le> t \<and> t < length (taken w) \<and> \<not> open_ticket w t \<longrightarrow>
        slot_holds (slot_at w t) t (taken w ! t)) \<and>
     (\<forall>k<PTZ_RING_SIZE. committed (ptz_ring (hook w) ! k) \<noteq> 0 \<longrightarrow>
        unat (committed (ptz_ring (hook w) ! k)) \<le> length (taken w) \<and>
        (unat (committed (ptz_ring (hook w) ! k)) - 1) mod PTZ_RING_SIZE = k) \<and>
     (reader w \<noteq> Reader_Idle \<longrightarrow> unat (rd_ticket w) < length (taken w) \<and>
        \<not> open_ticket w (unat (rd_ticket w)) \<and> reader_ok (reader w) (taken w ! unat (rd_ticket w)))"

lemma near_index:
  "R \<le> t \<Longrightarrow> t < R + PTZ_RING_SIZE \<Longrightarrow> R \<le> u \<Longrightarrow> u < R + PTZ_RING_SIZE \<Longrightarrow>
   t mod PTZ_RING_SIZE = u mod PTZ_RING_SIZE \<Longrightarrow> t = u" for R t u :: nat
proof (induction t u rule: linorder_wlog)
  case (le t u)
  from le(6) [symmetric] le(1) obtain k where "u = t + PTZ_RING_SIZE * k" by (rule mod_eq_nat1E)
  with le(2,5) show ?case by (cases k) simp_all
next
  case (sym t u)
  then show ?case by simp
qed

lemma ticket_word: "n < 2 ^ 32 \<Longrightarrow> unat (word_of_nat n :: u32) = n"
  by (simp add: unsigned_of_nat take_bit_nat_eq_self)

lemma ring_invD:
  assumes "ring_inv w"
  shows "length (ptz_ring (hook w)) = PTZ_RING_SIZE"
    and "ptz_write_ticket (hook w) = word_of_nat (length (taken w))"
    and "length (taken w) \<le> unat (rd_ticket w) + PTZ_RING_SIZE" "length (taken w) < 2 ^ 32 - 1"
    and "unat (rd_ticket w) \<le> length (taken w)"
    and "delivered w = map (\<lambda>t. (word_of_nat (Suc t), taken w ! t)) [0..<unat (rd_ticket w)]"
    and "\<And>i. call_ok w (calls w i)"
    and "\<And>i j t. pc_ticket (hc_pc (calls w i)) = Some t \<Longrightarrow> pc_ticket (hc_pc (calls w j)) = Some t \<Longrightarrow> i = j"
    and "\<And>t. unat (rd_ticket w) \<le> t \<Longrightarrow> t < length (taken w) \<Longrightarrow> \<not> open_ticket w t \<Longrightarrow>
      slot_holds (slot_at w t) t (taken w ! t)"
    and "\<And>k. k < PTZ_RING_SIZE \<Longrightarrow> committed (ptz_ring (hook w) ! k) \<noteq> 0 \<Longrightarrow>
      unat (committed (ptz_ring (hook w) ! k)) \<le> length (taken w) \<and>
      (unat (committed (ptz_ring (hook w) ! k)) - 1) mod PTZ_RING_SIZE = k"
    and "reader w \<noteq> Reader_Idle \<Longrightarrow> unat (rd_ticket w) < length (taken w) \<and>
        \<not> open_ticket w (unat (rd_ticket w)) \<and> reader_ok (reader w) (taken w ! unat (rd_ticket w))"
  using assms unfolding ring_inv_def keeps_up_def by blast+

lemma ring_invI:
  assumes "length (ptz_ring (hook w)) = PTZ_RING_SIZE"
    and "ptz_write_ticket (hook w) = word_of_nat (length (taken w))"
    and "keeps_up w"
    and "unat (rd_ticket w) \<le> length (taken w)"
    and "delivered w = map (\<lambda>t. (word_of_nat (Suc t), taken w ! t)) [0..<unat (rd_ticket w)]"
    and "\<And>i. call_ok w (calls w i)"
    and "\<And>i j t. pc_ticket (hc_pc (calls w i)) = Some t \<Longrightarrow> pc_ticket (hc_pc (calls w j)) = Some t \<Longrightarrow> i = j"
    and "\<And>t. unat (rd_ticket w) \<le> t \<Longrightarrow> t < length (taken w) \<Longrightarrow> \<not> open_ticket w t \<Longrightarrow>
      slot_holds (slot_at w t) t (taken w ! t)"
    and "\<And>k. k < PTZ_RING_SIZE \<Longrightarrow> committed (ptz_ring (hook w) ! k) \<noteq> 0 \<Longrightarrow>
      unat (committed (ptz_ring (hook w) ! k)) \<le> length (taken w) \<and>
      (unat (committed (ptz_ring (hook w) ! k)) - 1) mod PTZ_RING_SIZE = k"
    and "reader w \<noteq> Reader_Idle \<Longrightarrow> unat (rd_ticket w) < length (taken w) \<and>
        \<not> open_ticket w (unat (rd_ticket w)) \<and> reader_ok (reader w) (taken w ! unat (rd_ticket w))"
  shows "ring_inv w"
  unfolding ring_inv_def using assms by blast

text \<open>A step that moves one call without a ticket to another place without one.\<close>

lemma ring_inv_move:
  assumes inv: "ring_inv w" and "pc_ticket (hc_pc (calls w i)) = None" and "pc_ticket (hc_pc c) = None"
    and "ptz_ring h = ptz_ring (hook w)" and "ptz_write_ticket h = ptz_write_ticket (hook w)"
  shows "ring_inv (w\<lparr>hook := h, calls := (calls w)(i := c)\<rparr>)"
proof -
  let ?w = "w\<lparr>hook := h, calls := (calls w)(i := c)\<rparr>"
  have same: "pc_ticket (hc_pc (calls ?w j)) = pc_ticket (hc_pc (calls w j))" for j
    using assms(2,3) by simp
  have slots: "slot_at ?w t = slot_at w t" for t using assms(4) by (simp add: slot_at_def)
  have opened: "open_ticket ?w t = open_ticket w t" for t
    unfolding open_ticket_def by (simp only: same)
  note D = ring_invD [OF inv]
  show ?thesis
  proof (rule ring_invI)
    show "keeps_up ?w" using D(3,4) by (simp add: keeps_up_def)
    show "call_ok ?w (calls ?w j)" for j
      using D(7) [of j] assms(3) by (auto simp: call_ok_def slots split: option.splits)
    show "j = k" if "pc_ticket (hc_pc (calls ?w j)) = Some t" "pc_ticket (hc_pc (calls ?w k)) = Some t" for j k t
      using that D(8) [of j t k] unfolding same by blast
    show "slot_holds (slot_at ?w t) t (taken ?w ! t)"
      if "unat (rd_ticket ?w) \<le> t" "t < length (taken ?w)" "\<not> open_ticket ?w t" for t
      using D(9) [of t] that unfolding slots opened by simp
    show "unat (committed (ptz_ring (hook ?w) ! k)) \<le> length (taken ?w) \<and>
        (unat (committed (ptz_ring (hook ?w) ! k)) - 1) mod PTZ_RING_SIZE = k"
      if "k < PTZ_RING_SIZE" "committed (ptz_ring (hook ?w) ! k) \<noteq> 0" for k
      using D(10) [of k] that assms(4) by simp
    show "unat (rd_ticket ?w) < length (taken ?w) \<and> \<not> open_ticket ?w (unat (rd_ticket ?w)) \<and>
        reader_ok (reader ?w) (taken ?w ! unat (rd_ticket ?w))" if "reader ?w \<noteq> Reader_Idle"
      using D(11) that unfolding opened by simp
  qed (use D assms in simp_all)
qed

text \<open>A store into the slot of an open ticket.\<close>

lemma ring_inv_store:
  assumes inv: "ring_inv w" and pc: "pc_ticket (hc_pc (calls w i)) = Some t"
    and s: "committed s = committed (slot_at w t)"
    and pc': "pc_ticket pc = Some t" and st: "pc_stored pc (hc_args (calls w i)) s"
    and h: "ptz_ring h = (ptz_ring (hook w))[t mod PTZ_RING_SIZE := s]"
      "ptz_write_ticket h = ptz_write_ticket (hook w)"
  shows "ring_inv (w\<lparr>hook := h, calls := (calls w)(i := calls w i\<lparr>hc_pc := pc\<rparr>)\<rparr>)"
proof -
  let ?w = "w\<lparr>hook := h, calls := (calls w)(i := calls w i\<lparr>hc_pc := pc\<rparr>)\<rparr>"
  note D = ring_invD [OF inv]
  from D(7) [of i] pc have t: "unat (rd_ticket w) \<le> t" "t < length (taken w)" "taken w ! t = hc_args (calls w i)"
      "committed (slot_at w t) \<noteq> word_of_nat (Suc t)"
    by (simp_all add: call_ok_def)
  have same: "pc_ticket (hc_pc (calls ?w j)) = pc_ticket (hc_pc (calls w j))" for j
    using pc pc' by simp
  have opened: "open_ticket ?w u = open_ticket w u" for u
    unfolding open_ticket_def by (simp only: same)
  have len: "t mod PTZ_RING_SIZE < length (ptz_ring (hook w))" by (simp add: D(1) PTZ_RING_SIZE_def)
  have slot_t: "slot_at ?w t = s" using len h(1) by (simp add: slot_at_def)
  have slot_u: "slot_at ?w u = slot_at w u"
    if "unat (rd_ticket w) \<le> u" "u < length (taken w)" "u \<noteq> t" for u
  proof -
    have "t mod PTZ_RING_SIZE \<noteq> u mod PTZ_RING_SIZE"
      using near_index [of "unat (rd_ticket w)" t u] that t(1,2) D(3) by linarith
    then show ?thesis using h(1) by (simp add: slot_at_def)
  qed
  show ?thesis
  proof (rule ring_invI)
    show "keeps_up ?w" using D(3,4) by (simp add: keeps_up_def)
    show "call_ok ?w (calls ?w j)" for j
    proof (cases "j = i")
      case True
      then show ?thesis using pc' t s st slot_t by (simp add: call_ok_def)
    next
      case False
      show ?thesis
      proof (cases "pc_ticket (hc_pc (calls w j))")
        case None
        with False show ?thesis by (simp add: call_ok_def)
      next
        case (Some u)
        with D(8) [of i t j] pc False have "u \<noteq> t" by auto
        with D(7) [of j] Some False slot_u [of u] show ?thesis by (simp add: call_ok_def)
      qed
    qed
    show "j = k" if "pc_ticket (hc_pc (calls ?w j)) = Some u" "pc_ticket (hc_pc (calls ?w k)) = Some u" for j k u
      using that D(8) [of j u k] unfolding same by blast
    show "slot_holds (slot_at ?w u) u (taken ?w ! u)"
      if u: "unat (rd_ticket ?w) \<le> u" "u < length (taken ?w)" "\<not> open_ticket ?w u" for u
    proof -
      have "open_ticket w t" using pc by (auto simp: open_ticket_def)
      with u have "u \<noteq> t" unfolding opened by blast
      with D(9) [of u] u slot_u [of u] show ?thesis unfolding opened by simp
    qed
    show "unat (committed (ptz_ring (hook ?w) ! k)) \<le> length (taken ?w) \<and>
        (unat (committed (ptz_ring (hook ?w) ! k)) - 1) mod PTZ_RING_SIZE = k"
      if k: "k < PTZ_RING_SIZE" "committed (ptz_ring (hook ?w) ! k) \<noteq> 0" for k
    proof -
      have "committed (ptz_ring h ! k) = committed (ptz_ring (hook w) ! k)"
        using h(1) s len by (cases "k = t mod PTZ_RING_SIZE") (simp_all add: slot_at_def)
      with D(10) [of k] k show ?thesis by simp
    qed
    show "unat (rd_ticket ?w) < length (taken ?w) \<and> \<not> open_ticket ?w (unat (rd_ticket ?w)) \<and>
        reader_ok (reader ?w) (taken ?w ! unat (rd_ticket ?w))" if "reader ?w \<noteq> Reader_Idle"
      using D(11) that unfolding opened by simp
  qed (use D h in simp_all)
qed

text \<open>Taking a ticket.\<close>

lemma ring_inv_take:
  assumes inv: "ring_inv w" and pc: "pc_ticket (hc_pc (calls w i)) = None"
  defines "w' \<equiv> w\<lparr>hook := (hook w)\<lparr>ptz_write_ticket := ptz_write_ticket (hook w) + 1\<rparr>,
       calls := (calls w)(i := calls w i\<lparr>hc_pc := Call_Took (ptz_write_ticket (hook w))\<rparr>),
       taken := taken w @ [hc_args (calls w i)]\<rparr>"
  assumes keeps: "keeps_up w'"
  shows "ring_inv w'"
proof -
  note D = ring_invD [OF inv]
  let ?n = "length (taken w)"
  have tick: "unat (ptz_write_ticket (hook w)) = ?n" using D(2,4) by (simp add: ticket_word)
  have same: "pc_ticket (hc_pc (calls w' j)) = (if j = i then Some ?n else pc_ticket (hc_pc (calls w j)))" for j
    by (simp add: w'_def tick)
  have slots: "slot_at w' t = slot_at w t" for t by (simp add: slot_at_def w'_def)
  have low: "u < ?n" if "pc_ticket (hc_pc (calls w j)) = Some u" for j u
    using D(7) [of j] that by (simp add: call_ok_def)
  have opened: "open_ticket w' t \<longleftrightarrow> t = ?n \<or> open_ticket w t" for t
    unfolding open_ticket_def same using pc by (metis option.distinct(1) option.inject)
  have [simp]: "taken w' = taken w @ [hc_args (calls w i)]" "rd_ticket w' = rd_ticket w"
      "reader w' = reader w" "ptz_ring (hook w') = ptz_ring (hook w)" "delivered w' = delivered w"
    by (simp_all add: w'_def)
  have none: "committed (slot_at w ?n) \<noteq> word_of_nat (Suc ?n)"
  proof
    assume a: "committed (slot_at w ?n) = word_of_nat (Suc ?n)"
    have suc: "unat (word_of_nat (Suc ?n) :: u32) = Suc ?n" using D(4) by (intro ticket_word) simp
    with a have "unat (committed (slot_at w ?n)) = Suc ?n" by simp
    moreover have "unat (committed (slot_at w ?n)) \<le> ?n"
      using D(10) [of "?n mod PTZ_RING_SIZE"] calculation
      by (simp add: slot_at_def PTZ_RING_SIZE_def unat_eq_0 [symmetric])
    ultimately show False by simp
  qed
  show ?thesis
  proof (rule ring_invI)
    show "call_ok w' (calls w' j)" for j
    proof (cases "j = i")
      case True
      then show ?thesis using D(5) none tick by (simp add: call_ok_def slots w'_def slot_at_def)
    next
      case False
      then have "calls w' j = calls w j" by (simp add: w'_def)
      with D(7) [of j] low [of j] show ?thesis
        by (auto simp: call_ok_def slots nth_append split: option.splits)
    qed
    show "j = k" if "pc_ticket (hc_pc (calls w' j)) = Some t" "pc_ticket (hc_pc (calls w' k)) = Some t" for j k t
      using that D(8) [of j t k] low [of j t] low [of k t] unfolding same by (auto split: if_splits)
    show "slot_holds (slot_at w' t) t (taken w' ! t)"
      if "unat (rd_ticket w') \<le> t" "t < length (taken w')" "\<not> open_ticket w' t" for t
      using D(9) [of t] that unfolding slots opened by (simp add: nth_append)
    show "unat (committed (ptz_ring (hook w') ! k)) \<le> length (taken w') \<and>
        (unat (committed (ptz_ring (hook w') ! k)) - 1) mod PTZ_RING_SIZE = k"
      if "k < PTZ_RING_SIZE" "committed (ptz_ring (hook w') ! k) \<noteq> 0" for k
      using D(10) [of k] that by simp
    show "unat (rd_ticket w') < length (taken w') \<and> \<not> open_ticket w' (unat (rd_ticket w')) \<and>
        reader_ok (reader w') (taken w' ! unat (rd_ticket w'))" if "reader w' \<noteq> Reader_Idle"
      using D(11) that unfolding opened by (simp add: nth_append)
    show "delivered w' = map (\<lambda>t. (word_of_nat (Suc t), taken w' ! t)) [0..<unat (rd_ticket w')]"
      using D(5,6) by (simp add: nth_append)
  qed (use D keeps in \<open>simp_all add: w'_def\<close>)
qed

text \<open>Committing a filled slot.\<close>

lemma ring_inv_commit:
  assumes inv: "ring_inv w" and pc: "hc_pc (calls w i) = Call_Speed tick"
  shows "ring_inv (w\<lparr>hook := upd_ring_slot tick (\<lambda>s. s\<lparr>committed := tick + 1\<rparr>) (hook w),
    calls := (calls w)(i := calls w i\<lparr>hc_pc := Call_Committed tick\<rparr>)\<rparr>)"
    (is "ring_inv ?w")
proof -
  note D = ring_invD [OF inv]
  define t where "t = unat tick"
  have tick: "tick = word_of_nat t" by (simp add: t_def)
  from pc have pct: "pc_ticket (hc_pc (calls w i)) = Some t" by (simp add: t_def)
  from D(7) [of i] pct pc have t: "unat (rd_ticket w) \<le> t" "t < length (taken w)" "taken w ! t = hc_args (calls w i)"
      and st: "pc_stored (Call_Speed tick) (taken w ! t) (slot_at w t)"
    by (simp_all add: call_ok_def)
  have same: "pc_ticket (hc_pc (calls ?w j)) = (if j = i then None else pc_ticket (hc_pc (calls w j)))" for j
    by simp
  have alone: "j = i" if "pc_ticket (hc_pc (calls w j)) = Some t" for j
    using D(8) [OF that pct] .
  have opened: "open_ticket ?w u \<longleftrightarrow> u \<noteq> t \<and> open_ticket w u" for u
    unfolding open_ticket_def same using alone pct by (metis option.distinct(1) option.inject)
  have len: "t mod PTZ_RING_SIZE < length (ptz_ring (hook w))" by (simp add: D(1) PTZ_RING_SIZE_def)
  have ring: "ptz_ring (hook ?w) = (ptz_ring (hook w))[t mod PTZ_RING_SIZE :=
      slot_at w t\<lparr>committed := tick + 1\<rparr>]"
    by (simp add: upd_ring_slot_def ring_index_def t_def slot_at_def)
  have slot_t: "slot_at ?w t = slot_at w t\<lparr>committed := tick + 1\<rparr>"
    unfolding slot_at_def [of ?w] ring using len by simp
  have slot_u: "slot_at ?w u = slot_at w u"
    if "unat (rd_ticket w) \<le> u" "u < length (taken w)" "u \<noteq> t" for u
  proof -
    have "t mod PTZ_RING_SIZE \<noteq> u mod PTZ_RING_SIZE"
      using near_index [of "unat (rd_ticket w)" t u] that t(1,2) D(3) by linarith
    then show ?thesis unfolding slot_at_def ring by simp
  qed
  have suc: "unat (tick + 1) = Suc t"
    using ticket_word [of "Suc t"] t(2) D(4) by (simp add: tick add.commute)
  show ?thesis
  proof (rule ring_invI)
    show "length (ptz_ring (hook ?w)) = PTZ_RING_SIZE" using D(1) unfolding ring by simp
    show "ptz_write_ticket (hook ?w) = word_of_nat (length (taken ?w))" using D(2) by (simp add: upd_ring_slot_def)
    show "keeps_up ?w" using D(3,4) by (simp add: keeps_up_def)
    show "call_ok ?w (calls ?w j)" for j
    proof (cases "pc_ticket (hc_pc (calls ?w j))")
      case None
      then show ?thesis by (simp add: call_ok_def)
    next
      case (Some u)
      with same [of j] have j: "j \<noteq> i" "pc_ticket (hc_pc (calls w j)) = Some u" by (auto split: if_splits)
      with D(8) [of i t j] pct have "u \<noteq> t" by auto
      with D(7) [of j] j slot_u [of u] show ?thesis by (simp add: call_ok_def)
    qed
    show "j = k" if "pc_ticket (hc_pc (calls ?w j)) = Some u" "pc_ticket (hc_pc (calls ?w k)) = Some u" for j k u
      using that D(8) [of j u k] unfolding same by (auto split: if_splits)
    show "slot_holds (slot_at ?w u) u (taken ?w ! u)"
      if u: "unat (rd_ticket ?w) \<le> u" "u < length (taken ?w)" "\<not> open_ticket ?w u" for u
    proof (cases "u = t")
      case True
      then show ?thesis using st slot_t tick
        by (cases "taken w ! t") (simp add: slot_holds_def add.commute)
    next
      case False
      with D(9) [of u] u slot_u [of u] show ?thesis unfolding opened by simp
    qed
    show "unat (committed (ptz_ring (hook ?w) ! k)) \<le> length (taken ?w) \<and>
        (unat (committed (ptz_ring (hook ?w) ! k)) - 1) mod PTZ_RING_SIZE = k"
      if k: "k < PTZ_RING_SIZE" "committed (ptz_ring (hook ?w) ! k) \<noteq> 0" for k
    proof (cases "k = t mod PTZ_RING_SIZE")
      case True
      then show ?thesis using len suc t(2) unfolding ring by simp
    next
      case False
      then show ?thesis using k D(10) [of k] unfolding ring by simp
    qed
    show "unat (rd_ticket ?w) < length (taken ?w) \<and> \<not> open_ticket ?w (unat (rd_ticket ?w)) \<and>
        reader_ok (reader ?w) (taken ?w ! unat (rd_ticket ?w))" if "reader ?w \<noteq> Reader_Idle"
      using D(11) that unfolding opened by simp
  qed (use D in simp_all)
qed

text \<open>The worker's loads. While it keeps up, the slot is never ahead of it.\<close>

lemma next_slot_at: "next_slot w = slot_at w (unat (rd_ticket w))"
  by (simp add: next_slot_def slot_at_def ring_index_def)

lemma verdict_cases:
  assumes inv: "ring_inv w"
  defines "R \<equiv> unat (rd_ticket w)"
  shows "ring_verdict_of (rd_ticket w) (committed (next_slot w)) =
    (if R < length (taken w) \<and> \<not> open_ticket w R then Ring_Event else Ring_Empty)"
proof -
  note D = ring_invD [OF inv]
  let ?c = "committed (next_slot w)"
  have c: "unat ?c = 0 \<or> unat ?c \<le> length (taken w) \<and> (unat ?c - 1) mod PTZ_RING_SIZE = R mod PTZ_RING_SIZE"
    using D(10) [of "R mod PTZ_RING_SIZE"]
    by (auto simp: next_slot_at slot_at_def R_def PTZ_RING_SIZE_def unat_eq_0)
  have suc: "unat (rd_ticket w + 1) = Suc R"
    using D(4,5) ticket_word [of "Suc R"] by (simp add: R_def add.commute)
  show ?thesis
  proof (cases "R < length (taken w) \<and> \<not> open_ticket w R")
    case True
    then have "?c = word_of_nat (Suc R)"
      using D(9) [of R] by (simp add: slot_holds_def next_slot_at R_def)
    then have "?c = rd_ticket w + 1" by (simp add: R_def add.commute)
    moreover from this suc have "?c \<noteq> 0" by (metis nat.distinct(1) unat_0)
    ultimately show ?thesis using True by (simp add: ring_verdict_of_def)
  next
    case False
    have "unat ?c \<noteq> Suc R"
    proof
      assume a: "unat ?c = Suc R"
      then have "?c = word_of_nat (Suc R)" by (rule word_eq_of_nat)
      moreover from a c have "R < length (taken w)" by simp
      ultimately obtain i where "pc_ticket (hc_pc (calls w i)) = Some R" and "?c = word_of_nat (Suc R)"
        using False by (auto simp: open_ticket_def)
      with D(7) [of i] show False by (simp add: call_ok_def next_slot_at R_def)
    qed
    moreover have "unat ?c \<le> Suc R" if "unat ?c \<noteq> 0"
    proof (rule ccontr)
      assume "\<not> unat ?c \<le> Suc R"
      then have "R \<le> unat ?c - 1" and "unat ?c - 1 \<noteq> R" by simp_all
      moreover from that c have "unat ?c \<le> length (taken w)" by simp
      with that D(3) have "unat ?c - 1 < R + PTZ_RING_SIZE" unfolding R_def by linarith
      ultimately show False using near_index [of R "unat ?c - 1" R] c that by (simp add: PTZ_RING_SIZE_def)
    qed
    ultimately have "?c = 0 \<or> ?c < rd_ticket w + 1"
      using suc by (cases "unat ?c = 0") (simp_all add: word_less_nat_alt unat_eq_0)
    with False show ?thesis by (auto simp: ring_verdict_of_def)
  qed
qed

lemma ring_inv_reader:
  assumes "ring_inv w" and "reader_ok r (taken w ! unat (rd_ticket w))"
    and "unat (rd_ticket w) < length (taken w)" and "\<not> open_ticket w (unat (rd_ticket w))"
  shows "ring_inv (w\<lparr>reader := r\<rparr>)"
  using assms
  by (simp add: ring_inv_def keeps_up_def call_ok_def slot_at_def open_ticket_def cong: option.case_cong)

lemma ring_inv_deliver:
  assumes inv: "ring_inv w" and "reader w = Reader_Command ch cmd"
  shows "ring_inv (w\<lparr>reader := Reader_Idle, rd_ticket := rd_ticket w + 1,
    delivered := delivered w @ [(rd_ticket w + 1, ch, cmd, rs_speed (next_slot w))]\<rparr>)"
    (is "ring_inv ?w")
proof -
  note D = ring_invD [OF inv]
  define R where "R = unat (rd_ticket w)"
  from D(11) assms(2) have R: "R < length (taken w)" "\<not> open_ticket w R"
    and r: "ch = fst (taken w ! R)" "cmd = fst (snd (taken w ! R))" by (simp_all add: R_def)
  have suc: "unat (rd_ticket w + 1) = Suc R"
    using D(4) R ticket_word [of "Suc R"] by (simp add: R_def add.commute)
  have slots: "slot_at ?w t = slot_at w t" and opened: "open_ticket ?w t = open_ticket w t" for t
    by (simp_all add: slot_at_def open_ticket_def)
  have "slot_holds (next_slot w) R (taken w ! R)"
    using D(9) [of R] R by (simp add: next_slot_at R_def)
  with r have new: "(rd_ticket w + 1, ch, cmd, rs_speed (next_slot w)) = (word_of_nat (Suc R), taken w ! R)"
    by (cases "taken w ! R") (simp add: slot_holds_def R_def add.commute)
  show ?thesis
  proof (rule ring_invI)
    show "keeps_up ?w" using D(3,4) suc by (simp add: keeps_up_def R_def)
    show "unat (rd_ticket ?w) \<le> length (taken ?w)" using suc R by simp
    show "delivered ?w = map (\<lambda>t. (word_of_nat (Suc t), taken ?w ! t)) [0..<unat (rd_ticket ?w)]"
      using D(6) suc new by (simp add: R_def)
    show "call_ok ?w (calls ?w j)" for j
    proof (cases "pc_ticket (hc_pc (calls w j))")
      case None
      then show ?thesis by (simp add: call_ok_def)
    next
      case (Some t)
      with R(2) have "t \<noteq> R" by (auto simp: open_ticket_def)
      with D(7) [of j] Some suc show ?thesis by (simp add: call_ok_def slots R_def)
    qed
    show "slot_holds (slot_at ?w t) t (taken ?w ! t)"
      if "unat (rd_ticket ?w) \<le> t" "t < length (taken ?w)" "\<not> open_ticket ?w t" for t
      using D(9) [of t] that suc unfolding slots opened by (simp add: R_def)
  qed (use D in simp_all)
qed

lemma ring_inv_read:
  assumes inv: "ring_inv w"
  shows "ring_inv (read_step w)"
proof -
  note D = ring_invD [OF inv]
  have holds: "slot_holds (next_slot w) (unat (rd_ticket w)) (taken w ! unat (rd_ticket w))"
    if "reader w \<noteq> Reader_Idle"
    using D(9) [of "unat (rd_ticket w)"] D(11) [OF that] by (simp add: next_slot_at)
  have loads: "rs_channel (next_slot w) = fst (taken w ! unat (rd_ticket w))"
    "rs_command (next_slot w) = fst (snd (taken w ! unat (rd_ticket w)))" if "reader w \<noteq> Reader_Idle"
    using holds [OF that] unfolding slot_holds_def by (metis fst_conv snd_conv)+
  show ?thesis
  proof (cases "reader w")
    case Reader_Idle
    then show ?thesis using verdict_cases [OF inv] ring_inv_reader [OF inv, of Reader_Matched] inv
      by (simp add: read_step_def)
  next
    case Reader_Matched
    then show ?thesis using D(11) loads(1) ring_inv_reader [OF inv, of "Reader_Channel (rs_channel (next_slot w))"]
      by (simp add: read_step_def)
  next
    case (Reader_Channel ch)
    then show ?thesis
      using D(11) loads(2) ring_inv_reader [OF inv, of "Reader_Command ch (rs_command (next_slot w))"]
      by (simp add: read_step_def)
  next
    case (Reader_Command ch cmd)
    then show ?thesis using ring_inv_deliver [OF inv] by (simp add: read_step_def)
  qed
qed

lemma ring_inv_thread:
  assumes inv: "ring_inv w" and keeps: "keeps_up (thread_step i w)"
  shows "ring_inv (thread_step i w)"
proof -
  obtain ch cmd sp where args: "hc_args (calls w i) = (ch, cmd, sp)" by (cases "hc_args (calls w i)")
  note step = thread_step_def [of i w] args Let_def
  have same: "w\<lparr>hook := h, calls := f, taken := taken w\<rparr> = w\<lparr>hook := h, calls := f\<rparr>" for h f by simp
  have move: "ring_inv (w\<lparr>hook := h, calls := (calls w)(i := calls w i\<lparr>hc_pc := pc\<rparr>)\<rparr>)"
    if "pc_ticket (hc_pc (calls w i)) = None" "pc_ticket pc = None"
      "ptz_ring h = ptz_ring (hook w)" "ptz_write_ticket h = ptz_write_ticket (hook w)" for h pc
    using that by (intro ring_inv_move [OF inv]) simp_all
  have stay: "ring_inv (w\<lparr>calls := (calls w)(i := calls w i\<lparr>hc_pc := pc\<rparr>)\<rparr>)"
    if "pc_ticket (hc_pc (calls w i)) = None" "pc_ticket pc = None" for pc
    using move [OF that, of "hook w"] by simp
  show ?thesis
  proof (cases "hc_pc (calls w i)")
    case Call_Admitted
    then show ?thesis using ring_inv_take [OF inv, of i] keeps by (simp add: step)
  next
    case (Call_Took t)
    then show ?thesis unfolding step
      by (simp add: upd_ring_slot_def ring_index_def, intro ring_inv_store [OF inv, where t = "unat t"])
        (simp_all add: slot_at_def args)
  next
    case (Call_Channel t)
    with ring_invD(7) [OF inv, of i] have "pc_stored (Call_Channel t) (ch, cmd, sp) (slot_at w (unat t))"
      by (simp add: call_ok_def args)
    with Call_Channel show ?thesis unfolding step
      by (simp add: upd_ring_slot_def ring_index_def, intro ring_inv_store [OF inv, where t = "unat t"])
        (simp_all add: slot_at_def args)
  next
    case (Call_Command t)
    with ring_invD(7) [OF inv, of i] have "pc_stored (Call_Command t) (ch, cmd, sp) (slot_at w (unat t))"
      by (simp add: call_ok_def args)
    with Call_Command show ?thesis unfolding step
      by (simp add: upd_ring_slot_def ring_index_def, intro ring_inv_store [OF inv, where t = "unat t"])
        (simp_all add: slot_at_def args)
  next
    case (Call_Speed t)
    then show ?thesis using ring_inv_commit [OF inv] by (simp add: step)
  qed (simp_all add: step move stay)
qed

lemma ring_inv_step:
  assumes inv: "ring_inv w" and keeps: "keeps_up (ring_step e w)"
  shows "ring_inv (ring_step e w)"
proof (cases e)
  case (Enter i ch cmd sp)
  show ?thesis
  proof (cases "hc_pc (calls w i)")
    case (Call_Done b)
    with Enter show ?thesis
      using ring_inv_move [OF inv, of i "\<lparr>hc_args = (ch, cmd, sp), hc_pc = Call_Entered\<rparr>" "hook w"] by simp
  qed (use Enter inv in simp_all)
next
  case (Step i)
  with ring_inv_thread [OF inv, of i] keeps show ?thesis by simp
next
  case (Set_Mode m)
  have "calls w = (calls w)(0 := calls w 0)" by simp
  with inv Set_Mode show ?thesis
    by (simp add: ring_inv_def keeps_up_def call_ok_def slot_at_def open_ticket_def cong: option.case_cong)
next
  case Read
  with ring_inv_read [OF inv] show ?thesis by simp
qed

lemma ring_inv_fresh: "ring_inv (fresh_world m)"
  by (simp add: ring_inv_def fresh_world_def empty_ring_def keeps_up_def call_ok_def open_ticket_def
      PTZ_RING_SIZE_def)

lemma ring_reach_inv: "ring_reach m w \<Longrightarrow> ring_inv w"
  by (induction rule: ring_reach.induct) (auto intro: ring_inv_fresh ring_inv_step)

text \<open>C17. The buttons reach the worker whole and in order: with calls of any number of threads,
  mode changes and the worker's loads interleaved at single memory operations, as long as the
  worker keeps up, the events it delivers are exactly the calls with the tickets 0, 1, 2, ... in
  this order, each with its own channel, command and speed and none of them twice; it never takes
  the overrun branch, and it finds an event exactly when the call with the next ticket has been
  committed.\<close>

theorem ptz_ring_fifo:
  assumes "ring_reach m w"
  shows "delivered w = map (\<lambda>t. (word_of_nat (Suc t), taken w ! t)) [0..<unat (rd_ticket w)] \<and>
    ring_verdict_of (rd_ticket w) (committed (next_slot w)) =
      (if unat (rd_ticket w) < length (taken w) \<and> \<not> open_ticket w (unat (rd_ticket w))
       then Ring_Event else Ring_Empty)"
  using ring_invD(6) [OF ring_reach_inv [OF assms]] verdict_cases [OF ring_reach_inv [OF assms]] by simp

text \<open>A run of at most a ring's length cannot fall behind.\<close>

lemma taken_grows: "length (taken (ring_step e w)) \<le> Suc (length (taken w))"
  by (cases e) (simp_all add: read_step_def thread_step_def Let_def
      split: prod.split hook_pc.split reader_pc.split ring_verdict.split)

lemma taken_run: "length (taken (fold ring_step es w)) \<le> length (taken w) + length es"
proof (induction es arbitrary: w)
  case (Cons e es)
  from Cons.IH [of "ring_step e w"] taken_grows [of e w] show ?case by simp
qed simp

lemma short_run_reach: "length es \<le> PTZ_RING_SIZE \<Longrightarrow> ring_reach m (fold ring_step es (fresh_world m))"
proof (induction es rule: rev_induct)
  case Nil
  show ?case by (simp add: ring_reach.Fresh)
next
  case (snoc e es)
  have "length (taken (fold ring_step (es @ [e]) (fresh_world m))) \<le> PTZ_RING_SIZE"
    using taken_run [of "es @ [e]" "fresh_world m"] snoc.prems by (simp add: fresh_world_def)
  then have "keeps_up (ring_step e (fold ring_step es (fresh_world m)))"
    by (simp add: keeps_up_def PTZ_RING_SIZE_def)
  with snoc show ?case by (simp add: ring_reach.Next)
qed

definition pressed_world :: ring_world where
  "pressed_world = fold ring_step ([Enter 0 1 3 5] @ replicate 9 (Step 0)) (fresh_world PTZ_HOOK_CAMERA)"

lemma pressed_reach: "ring_reach PTZ_HOOK_CAMERA pressed_world"
  unfolding pressed_world_def by (rule short_run_reach) (simp add: PTZ_RING_SIZE_def)

lemma pressed_facts: "rd_ticket pressed_world = 0 \<and> taken pressed_world = [(1, 3, 5)] \<and>
    reader pressed_world = Reader_Idle \<and> (\<forall>i. hc_pc (calls pressed_world i) = Call_Done False)"
  by (simp add: pressed_world_def eval_nat_numeral thread_step_def fresh_world_def upd_ring_slot_def
      supported_ptz_command_def Let_def)

lemma pressed_closed: "\<not> open_ticket pressed_world t"
  using pressed_facts by (simp add: open_ticket_def)

lemma ptz_ring_fifo_witness:
  "delivered pressed_world = [] \<and>
   ring_verdict_of 0 (committed (next_slot pressed_world)) = Ring_Event"
  using ptz_ring_fifo [OF pressed_reach] pressed_facts pressed_closed by simp

text \<open>Four loads deliver one event, so the worker catches up as soon as the calls are over.\<close>

lemma read_keeps: "taken (read_step w) = taken w" "calls (read_step w) = calls w"
  by (simp_all add: read_step_def split: reader_pc.split ring_verdict.split)

lemma four_reads:
  assumes inv: "ring_inv w" and "reader w = Reader_Idle" and "unat (rd_ticket w) < length (taken w)"
    and "\<not> open_ticket w (unat (rd_ticket w))"
  shows "reader ((read_step ^^ 4) w) = Reader_Idle \<and> rd_ticket ((read_step ^^ 4) w) = rd_ticket w + 1 \<and>
    taken ((read_step ^^ 4) w) = taken w \<and> calls ((read_step ^^ 4) w) = calls w \<and>
    ring_inv ((read_step ^^ 4) w)"
proof -
  have "ring_inv ((read_step ^^ n) w)" for n by (induction n) (simp_all add: inv ring_inv_read)
  moreover have "taken ((read_step ^^ n) w) = taken w \<and> calls ((read_step ^^ n) w) = calls w" for n
    by (induction n) (simp_all add: read_keeps)
  moreover have "ring_verdict_of (rd_ticket w) (committed (next_slot w)) = Ring_Event"
    using verdict_cases [OF inv] assms(3,4) by simp
  then have "read_step w = w\<lparr>reader := Reader_Matched\<rparr>" using assms(2) by (simp add: read_step_def)
  then have "reader ((read_step ^^ 4) w) = Reader_Idle \<and> rd_ticket ((read_step ^^ 4) w) = rd_ticket w + 1"
    by (simp add: eval_nat_numeral funpow_swap1) (simp add: read_step_def)
  ultimately show ?thesis by blast
qed

lemma reads_catch_up:
  assumes "ring_inv w" and "reader w = Reader_Idle" and "\<forall>t. \<not> open_ticket w t"
    and "n = length (taken w) - unat (rd_ticket w)"
  shows "unat (rd_ticket ((read_step ^^ (4 * n)) w)) = length (taken w) \<and>
    taken ((read_step ^^ (4 * n)) w) = taken w \<and> ring_inv ((read_step ^^ (4 * n)) w)"
  using assms
proof (induction n arbitrary: w)
  case 0
  with ring_invD(5) [OF 0(1)] show ?case by simp
next
  case (Suc n)
  let ?v = "(read_step ^^ 4) w"
  from Suc.prems(4) have lt: "unat (rd_ticket w) < length (taken w)" by simp
  from four_reads [OF Suc.prems(1,2) lt] Suc.prems(3) have v: "reader ?v = Reader_Idle"
      "rd_ticket ?v = rd_ticket w + 1" "taken ?v = taken w" "calls ?v = calls w" "ring_inv ?v" by simp_all
  have "unat (rd_ticket w + 1) = Suc (unat (rd_ticket w))"
    using ring_invD(4) [OF Suc.prems(1)] lt ticket_word [of "Suc (unat (rd_ticket w))"]
    by (simp add: add.commute)
  with v Suc.prems(4) have "n = length (taken ?v) - unat (rd_ticket ?v)" by simp
  moreover have "\<forall>t. \<not> open_ticket ?v t" using Suc.prems(3) v(4) by (simp add: open_ticket_def)
  ultimately have "unat (rd_ticket ((read_step ^^ (4 * n)) ?v)) = length (taken ?v) \<and>
      taken ((read_step ^^ (4 * n)) ?v) = taken ?v \<and> ring_inv ((read_step ^^ (4 * n)) ?v)"
    using Suc.IH [OF v(5,1)] by blast
  moreover have "(read_step ^^ (4 * n)) ?v = (read_step ^^ (4 * Suc n)) w"
    unfolding mult_Suc_right add.commute [of 4] funpow_add comp_apply by (rule refl)
  ultimately show ?case using v(3) by simp
qed

text \<open>Nothing stays in the ring: once no call is between taking its ticket and committing it, four
  loads for each outstanding ticket deliver every event.\<close>

theorem ptz_ring_drains:
  assumes "ring_reach m w" and "reader w = Reader_Idle" and "\<forall>t. \<not> open_ticket w t"
    and "n = length (taken w) - unat (rd_ticket w)"
  shows "delivered ((read_step ^^ (4 * n)) w) =
    map (\<lambda>t. (word_of_nat (Suc t), taken w ! t)) [0..<length (taken w)]"
proof -
  let ?v = "(read_step ^^ (4 * n)) w"
  have v: "unat (rd_ticket ?v) = length (taken w)" "taken ?v = taken w" "ring_inv ?v"
    using reads_catch_up [OF ring_reach_inv [OF assms(1)] assms(2-4)] by simp_all
  from ring_invD(6) [OF v(3)] show ?thesis unfolding v(1,2) .
qed

lemma ptz_ring_drains_witness:
  "delivered ((read_step ^^ 4) pressed_world) = [(1, 1, 3, 5)]"
  using ptz_ring_drains [OF pressed_reach, of 1] pressed_facts pressed_closed by simp

section \<open>Calls are counted and only queued commands are consumed\<close>

fun counted :: "hook_pc \<Rightarrow> bool" where
  "counted Call_Entered \<longleftrightarrow> False"
| "counted (Call_Done consume) \<longleftrightarrow> False"
| "counted _ \<longleftrightarrow> True"

fun queued :: "hook_pc \<Rightarrow> bool" where
  "queued Call_Entered \<longleftrightarrow> False"
| "queued Call_Counted \<longleftrightarrow> False"
| "queued Call_Admitted \<longleftrightarrow> False"
| "queued (Call_Leaving consume) \<longleftrightarrow> consume"
| "queued (Call_Done consume) \<longleftrightarrow> consume"
| "queued _ \<longleftrightarrow> True"

definition inside :: "ring_world \<Rightarrow> nat set" where
  "inside w = {i. counted (hc_pc (calls w i))}"

definition calls_inv :: "ring_world \<Rightarrow> bool" where
  "calls_inv w \<longleftrightarrow> finite (inside w) \<and> ptz_active_calls (hook w) = word_of_nat (card (inside w)) \<and>
     (\<forall>i. queued (hc_pc (calls w i)) \<longrightarrow> hc_args (calls w i) \<in> set (taken w)) \<and>
     (\<forall>i. hc_pc (calls w i) = Call_Admitted \<longrightarrow>
        supported_ptz_command (fst (snd (hc_args (calls w i))))) \<and>
     (\<forall>a \<in> set (taken w). supported_ptz_command (fst (snd a)))"

lemma inside_step:
  "inside (thread_step i w) = (if counted (snd (call_step (hc_args (calls w i)) (hc_pc (calls w i)) (hook w)))
     then insert i (inside w) else inside w - {i})"
  by (auto simp: inside_def thread_step_def Let_def split: prod.split)

lemma step_counts:
  "(counted pc, counted (snd (call_step a pc h)), ptz_active_calls (fst (call_step a pc h))) \<in>
     {(False, True, ptz_active_calls h + 1), (True, False, ptz_active_calls h - 1),
      (False, False, ptz_active_calls h), (True, True, ptz_active_calls h)}"
  by (cases "(a, pc, h)" rule: call_step.cases) (simp_all add: upd_ring_slot_def)

lemma step_queues:
  "(queued (snd (call_step a pc h)) \<longrightarrow> queued pc \<or> pc = Call_Admitted) \<and>
   (snd (call_step a pc h) = Call_Admitted \<longrightarrow> supported_ptz_command (fst (snd a)))"
  by (cases "(a, pc, h)" rule: call_step.cases) simp_all

lemma ring_step_shape:
  "inside (ring_step e w) = inside w \<and>
     ptz_active_calls (hook (ring_step e w)) = ptz_active_calls (hook w) \<or>
   (\<exists>i. i \<notin> inside w \<and> inside (ring_step e w) = insert i (inside w) \<and>
      ptz_active_calls (hook (ring_step e w)) = ptz_active_calls (hook w) + 1) \<or>
   (\<exists>i. i \<in> inside w \<and> inside (ring_step e w) = inside w - {i} \<and>
      ptz_active_calls (hook (ring_step e w)) = ptz_active_calls (hook w) - 1)"
proof (cases e)
  case (Enter i ch cmd sp)
  then show ?thesis by (cases "hc_pc (calls w i)") (auto simp: inside_def)
next
  case (Step i)
  let ?a = "hc_args (calls w i)" and ?pc = "hc_pc (calls w i)"
  obtain h pc where step: "call_step ?a ?pc (hook w) = (h, pc)" by force
  have active: "ptz_active_calls (hook (ring_step e w)) = ptz_active_calls h"
    by (simp add: Step thread_step_def step Let_def)
  have ins: "inside (ring_step e w) = (if counted pc then insert i (inside w) else inside w - {i})"
    using inside_step [of i w] by (simp add: Step step)
  have "i \<in> inside w \<longleftrightarrow> counted ?pc" by (simp add: inside_def)
  with step_counts [of ?pc ?a "hook w"] show ?thesis
    unfolding active ins step fst_conv snd_conv by (auto simp: insert_absorb)
next
  case Read
  moreover have "hook (read_step w) = hook w"
    by (simp add: read_step_def split: reader_pc.split ring_verdict.split)
  ultimately show ?thesis by (simp add: inside_def read_keeps)
qed (simp add: inside_def)

interpretation ptz_counter: call_counter inside "\<lambda>w. ptz_active_calls (hook w)" ring_step
  by unfold_locales (rule ring_step_shape)

lemma calls_inv_step: "calls_inv w \<Longrightarrow> calls_inv (ring_step e w)"
proof (cases e)
  case (Enter i ch cmd sp)
  assume inv: "calls_inv w"
  show ?thesis
  proof (cases "hc_pc (calls w i)")
    case (Call_Done b)
    with Enter have "inside (ring_step e w) = inside w" by (auto simp: inside_def)
    with inv Enter Call_Done show ?thesis by (simp add: calls_inv_def)
  qed (use Enter inv in simp_all)
next
  case (Step i)
  assume inv: "calls_inv w"
  let ?a = "hc_args (calls w i)" and ?pc = "hc_pc (calls w i)"
  obtain h pc where step: "call_step ?a ?pc (hook w) = (h, pc)" by force
  have w': "ring_step e w = w\<lparr>hook := h, calls := (calls w)(i := calls w i\<lparr>hc_pc := pc\<rparr>),
      taken := (if ?pc = Call_Admitted then taken w @ [?a] else taken w)\<rparr>"
    by (simp add: Step thread_step_def step Let_def)
  have count: "finite (inside (ring_step e w)) \<and>
      ptz_active_calls (hook (ring_step e w)) = word_of_nat (card (inside (ring_step e w)))"
    using ptz_counter.counts_step [of w e] inv by (simp add: counts_def calls_inv_def)
  show ?thesis
    using count inv step_queues [of ?a ?pc "hook w"] unfolding calls_inv_def
    by (auto simp: w' step)
next
  case (Set_Mode m)
  assume "calls_inv w"
  with Set_Mode show ?thesis by (simp add: calls_inv_def inside_def)
next
  case Read
  assume "calls_inv w"
  moreover have "hook (read_step w) = hook w"
    by (simp add: read_step_def split: reader_pc.split ring_verdict.split)
  ultimately show ?thesis using Read by (simp add: calls_inv_def inside_def read_keeps)
qed

interpretation hook_run: event_machine ring_step calls_inv
  by unfold_locales (rule calls_inv_step)

lemma calls_inv_fresh: "calls_inv (fresh_world m)"
  by (simp add: calls_inv_def fresh_world_def inside_def)

text \<open>C18. What the supervisor and the game rely on, for every interleaving: \<open>ptz_active_calls\<close> is
  the number of calls between their first and their last operation, so that 0 means that no thread
  is inside the hook; a command is consumed only if it was queued for the game; and only the
  supported commands are queued.\<close>

theorem hook_calls_counted:
  "let w = fold ring_step es (fresh_world m)
   in finite (inside w) \<and> ptz_active_calls (hook w) = word_of_nat (card (inside w)) \<and>
     {hc_args (calls w i) | i. hc_pc (calls w i) = Call_Done True} \<subseteq> set (taken w) \<and>
     list_all (\<lambda>a. supported_ptz_command (fst (snd a))) (taken w)"
proof -
  have "calls_inv (fold ring_step es (fresh_world m))" by (rule hook_run.run_inv) (rule calls_inv_fresh)
  then show ?thesis by (auto simp: calls_inv_def list_all_iff Let_def)
qed

end
