(* ===== verification/Ptz_Drain.thy ===== *)
theory Ptz_Drain
  imports Ptz_Hook
begin

text \<open>
  \<open>drain_ptz_events\<close> of \<open>src/camera/e1-doom-injected.c\<close>: the worker takes the committed events
  from the ring, feeds each to the lifecycle controller (as a raw command, as a command, and in the
  camera mode as a complete tap) and forwards the game's commands as datagrams. The ring and the
  clock as each iteration sees them are an argument. The log files are not modelled.
\<close>

section \<open>The drain\<close>

record drain_state =
  ds_ticket :: u32
  ds_control :: e1_runtime_control
  ds_actions :: u32
  ds_sent :: "e1_ptz_event list"

definition event_of_slot :: "ptz_ring_slot \<Rightarrow> u64 \<Rightarrow> e1_ptz_event" where
  "event_of_slot s now =
     \<lparr>pe_magic = E1_PTZ_EVENT_MAGIC, pe_version = E1_PTZ_EVENT_VERSION, pe_sequence = committed s,
      pe_channel = word_of_int (rs_channel s), pe_command = word_of_int (rs_command s),
      pe_speed = word_of_int (rs_speed s), pe_monotonic_ms = now\<rparr>"

text \<open>One event to the controller: the raw command, the command, and in the camera mode the stop
  that completes the tap.\<close>

definition control_event :: "int \<Rightarrow> u64 \<Rightarrow> e1_runtime_control \<Rightarrow> e1_runtime_control \<times> u32" where
  "control_event command now control =
     (let mode_before = mode control;
          (control, raw) = e1_runtime_observe_raw_ptz control command now;
          (control, applied) = e1_runtime_apply_ptz control command now;
          action = raw OR applied
      in if mode_before = E1_RUNTIME_CAMERA_ARMED \<and> command \<noteq> 0
         then (let (control, stopped) = e1_runtime_apply_ptz control 0 (now + 1)
               in (control, action OR stopped))
         else (control, action))"

definition drain_event :: "u64 \<Rightarrow> bool \<Rightarrow> ptz_ring_slot \<Rightarrow> drain_state \<Rightarrow> drain_state" where
  "drain_event now sender slot s =
     (let (control, action) = control_event (rs_command slot) now (ds_control s);
          actions = ds_actions s OR action
      in \<lparr>ds_ticket = committed slot, ds_control = control, ds_actions = actions,
          ds_sent = (if sender \<and> (mode control = E1_RUNTIME_DOOM \<or>
                        actions AND E1_RUNTIME_ACTION_FORWARD \<noteq> 0)
                     then ds_sent s @ [event_of_slot slot now] else ds_sent s)\<rparr>)"

fun drain_loop :: "(ptz_ring_slot list \<times> u64) list \<Rightarrow> bool \<Rightarrow> drain_state \<Rightarrow> drain_state" where
  "drain_loop [] sender s = s"
| "drain_loop ((ring, now) # vs) sender s =
     (let slot = ring ! ring_index (ds_ticket s)
      in case ring_verdict_of (ds_ticket s) (committed slot) of
           Ring_Empty \<Rightarrow> s
         | Ring_Overrun \<Rightarrow> drain_loop vs sender (s\<lparr>ds_ticket := committed slot - 1\<rparr>)
         | Ring_Event \<Rightarrow> drain_loop vs sender (drain_event now sender slot s))"

definition drain_ptz_events ::
    "(ptz_ring_slot list \<times> u64) list \<Rightarrow> bool \<Rightarrow> drain_state \<Rightarrow> drain_state" where
  "drain_ptz_events views sender s = drain_loop (take PTZ_RING_SIZE views) sender s"

section \<open>The controller sees a sequence of its own events\<close>

definition control_events :: "int \<Rightarrow> u64 \<Rightarrow> e1_runtime_mode \<Rightarrow> rc_event list" where
  "control_events command now m =
     [RC_Observe command now, RC_Apply command now] @
     (if m = E1_RUNTIME_CAMERA_ARMED \<and> command \<noteq> 0 then [RC_Apply 0 (now + 1)] else [])"

lemma control_event_run:
  "fst (control_event command now c) = fold rc_step (control_events command now (mode c)) c"
  by (simp add: control_event_def control_events_def rc_step_def case_prod_unfold Let_def)

lemma drain_run: "\<exists>es. ds_control (drain_loop vs sender s) = fold rc_step es (ds_control s)"
proof (induction vs sender s rule: drain_loop.induct)
  case (1 sender s)
  have "ds_control (drain_loop [] sender s) = fold rc_step [] (ds_control s)" by simp
  then show ?case by blast
next
  case (2 ring now vs sender s)
  let ?slot = "ring ! ring_index (ds_ticket s)"
  have ev: "ds_control (drain_event now sender ?slot s) =
      fold rc_step (control_events (rs_command ?slot) now (mode (ds_control s))) (ds_control s)"
    by (simp add: drain_event_def case_prod_unfold Let_def control_event_run)
  show ?case
  proof (cases "ring_verdict_of (ds_ticket s) (committed ?slot)")
    case Ring_Empty
    then have "ds_control (drain_loop ((ring, now) # vs) sender s) = fold rc_step [] (ds_control s)"
      by simp
    then show ?thesis by blast
  next
    case Ring_Overrun
    with 2(1) [OF refl] show ?thesis by simp
  next
    case Ring_Event
    with 2(2) [OF refl] obtain es where
      "ds_control (drain_loop ((ring, now) # vs) sender s) =
         fold rc_step es (ds_control (drain_event now sender ?slot s))" by auto
    then have "ds_control (drain_loop ((ring, now) # vs) sender s) =
        fold rc_step (control_events (rs_command ?slot) now (mode (ds_control s)) @ es) (ds_control s)"
      by (simp add: ev)
    then show ?thesis by blast
  qed
qed

lemma drain_wf: "wf_control (ds_control s) \<Longrightarrow> wf_control (ds_control (drain_ptz_events vs sender s))"
  using drain_run [of "take PTZ_RING_SIZE vs" sender s] rc.run_inv
  by (auto simp: drain_ptz_events_def)

section \<open>Actions and modes\<close>

lemma emits_or: "emits (a OR b) f \<longleftrightarrow> emits a f \<or> emits b f"
  unfolding emits_def by (auto simp: bit_eq_iff bit_simps)

text \<open>What the actions of a drain say about the controller, by the mode it started in.\<close>

fun actions_match :: "e1_runtime_mode \<Rightarrow> e1_runtime_mode \<Rightarrow> u32 \<Rightarrow> bool" where
  "actions_match E1_RUNTIME_CAMERA_ARMED m a \<longleftrightarrow>
     m = (if emits a E1_RUNTIME_ACTION_ENTER then E1_RUNTIME_ENTRY_MELT else E1_RUNTIME_CAMERA_ARMED) \<and>
     \<not> emits a E1_RUNTIME_ACTION_EXIT"
| "actions_match E1_RUNTIME_DOOM m a \<longleftrightarrow>
     m = (if emits a E1_RUNTIME_ACTION_EXIT then E1_RUNTIME_EXIT_MELT else E1_RUNTIME_DOOM) \<and>
     \<not> emits a E1_RUNTIME_ACTION_ENTER"
| "actions_match m0 m a \<longleftrightarrow>
     m = m0 \<and> \<not> emits a E1_RUNTIME_ACTION_ENTER \<and> \<not> emits a E1_RUNTIME_ACTION_EXIT"

lemma match_observe:
  "actions_match (mode c) (mode (fst (e1_runtime_observe_raw_ptz c cmd t)))
     (snd (e1_runtime_observe_raw_ptz c cmd t))"
  by (cases "mode c") (auto simp: rc_op_defs e1_consts emits_def)

lemma match_apply:
  "actions_match (mode c) (mode (fst (e1_runtime_apply_ptz c cmd t)))
     (snd (e1_runtime_apply_ptz c cmd t))"
  by (cases "mode c") (auto simp: rc_op_defs e1_consts emits_def)

lemma match_trans:
  "actions_match m0 m1 a \<Longrightarrow> actions_match m1 m2 b \<Longrightarrow> actions_match m0 m2 (a OR b)"
  by (cases m0; cases m1) (auto simp: emits_or split: if_splits)

lemma match_control_event:
  "actions_match (mode c) (mode (fst (control_event cmd t c))) (snd (control_event cmd t c))"
proof -
  obtain c1 a1 where o1: "e1_runtime_observe_raw_ptz c cmd t = (c1, a1)" by force
  obtain c2 a2 where o2: "e1_runtime_apply_ptz c1 cmd t = (c2, a2)" by force
  obtain c3 a3 where o3: "e1_runtime_apply_ptz c2 0 (t + 1) = (c3, a3)" by force
  have "actions_match (mode c) (mode c2) (a1 OR a2)"
    using match_trans match_observe [of c cmd t] match_apply [of c1 cmd t] by (simp add: o1 o2)
  moreover from this have "actions_match (mode c) (mode c3) ((a1 OR a2) OR a3)"
    using match_trans match_apply [of c2 0 "t + 1"] by (simp add: o3)
  moreover have "control_event cmd t c = (if mode c = E1_RUNTIME_CAMERA_ARMED \<and> cmd \<noteq> 0
      then (c3, (a1 OR a2) OR a3) else (c2, a1 OR a2))"
    by (simp add: control_event_def o1 o2 o3 Let_def)
  ultimately show ?thesis by (metis fst_conv snd_conv)
qed

lemma match_drain:
  "actions_match m (mode (ds_control s)) (ds_actions s) \<Longrightarrow>
   actions_match m (mode (ds_control (drain_loop vs sender s))) (ds_actions (drain_loop vs sender s))"
proof (induction vs sender s rule: drain_loop.induct)
  case (2 ring now vs sender s)
  let ?slot = "ring ! ring_index (ds_ticket s)"
  show ?case
  proof (cases "ring_verdict_of (ds_ticket s) (committed ?slot)")
    case Ring_Event
    have "actions_match m (mode (ds_control (drain_event now sender ?slot s)))
        (ds_actions (drain_event now sender ?slot s))"
      using match_trans [OF 2(3) match_control_event [of "ds_control s" "rs_command ?slot" now]]
      by (simp add: drain_event_def case_prod_unfold Let_def)
    with 2(2) [OF refl Ring_Event] Ring_Event show ?thesis by simp
  qed (use 2 in simp_all)
qed simp

text \<open>The worker acts on a drain exactly when the controller moved: whatever is in the ring and
  whatever the clock shows, a drain that starts in the camera mode ends in the entry melt if its
  actions contain "enter" and stays in the camera mode otherwise, one that starts in Doom ends in
  the exit melt if they contain "exit" and stays in Doom otherwise, during the melts nothing moves,
  and no action appears in any other case.\<close>

theorem drain_actions_match:
  "actions_match (mode control)
     (mode (ds_control (drain_ptz_events vs sender \<lparr>ds_ticket = t, ds_control = control,
       ds_actions = 0, ds_sent = sent\<rparr>)))
     (ds_actions (drain_ptz_events vs sender \<lparr>ds_ticket = t, ds_control = control,
       ds_actions = 0, ds_sent = sent\<rparr>))"
  unfolding drain_ptz_events_def
  by (rule match_drain, cases "mode control") (simp_all add: emits_def)

section \<open>The secret, from the ring\<close>

text \<open>The commands that wait in the ring, from a ticket on.\<close>

fun queued_commands :: "ptz_ring_slot list \<Rightarrow> u32 \<Rightarrow> int list \<Rightarrow> bool" where
  "queued_commands ring t [] \<longleftrightarrow> True"
| "queued_commands ring t (c # cs) \<longleftrightarrow>
     (let s = ring ! ring_index t
      in committed s = t + 1 \<and> t + 1 \<noteq> 0 \<and> rs_command s = c \<and> queued_commands ring (t + 1) cs)"

definition control_run :: "(int \<times> u64) list \<Rightarrow> e1_runtime_control \<Rightarrow> e1_runtime_control" where
  "control_run ps c = fold (\<lambda>(cmd, t) c. fst (control_event cmd t c)) ps c"

lemma drain_queued:
  "queued_commands ring (ds_ticket s) (map fst ps) \<Longrightarrow>
   ds_control (drain_loop (map (\<lambda>p. (ring, snd p)) ps) sender s) = control_run ps (ds_control s)"
proof (induction ps arbitrary: s)
  case Nil
  then show ?case by (simp add: control_run_def)
next
  case (Cons p ps)
  let ?slot = "ring ! ring_index (ds_ticket s)"
  from Cons.prems have slot: "committed ?slot = ds_ticket s + 1" "ds_ticket s + 1 \<noteq> 0"
      "rs_command ?slot = fst p" and rest: "queued_commands ring (ds_ticket s + 1) (map fst ps)"
    by (simp_all add: Let_def)
  have "ring_verdict_of (ds_ticket s) (committed ?slot) = Ring_Event"
    using slot by (simp add: ring_verdict_of_def)
  moreover have "ds_ticket (drain_event (snd p) sender ?slot s) = ds_ticket s + 1"
    and "ds_control (drain_event (snd p) sender ?slot s) = fst (control_event (fst p) (snd p) (ds_control s))"
    using slot by (simp_all add: drain_event_def case_prod_unfold Let_def)
  ultimately show ?case
    using Cons.IH [of "drain_event (snd p) sender ?slot s"] rest
    by (simp add: control_run_def case_prod_unfold)
qed

lemma observe_ready:
  assumes "ready k f l c" and "cmd \<noteq> 0"
  shows "ready k f l (rc_step (RC_Observe cmd t) c)"
  using assms by (auto simp: ready_def rc_step_def e1_runtime_observe_raw_ptz_def
      e1_runtime_reset_stop_only_def Let_def)

lemma tap_ready:
  assumes r: "ready k f l c" and "k < 8" and "cmd = secret_code ! k"
    and "k \<noteq> 0 \<longrightarrow> t - l \<le> E1_SECRET_GAP_MS"
    and "if k = 0 then f = t else t - f \<le> E1_SECRET_TOTAL_MS"
    and "t + 1 - f \<le> E1_SECRET_TOTAL_MS"
  defines "c' \<equiv> fst (control_event cmd t c)"
  shows "if Suc k = 8 then mode c' = E1_RUNTIME_ENTRY_MELT else ready (Suc k) f t c'"
proof -
  have nonzero: "cmd \<noteq> 0" using assms(2,3) by (simp add: secret_code_nonzero)
  have "mode c = E1_RUNTIME_CAMERA_ARMED" using r by (simp add: ready_def)
  then have c': "c' = rc_step (RC_Apply 0 (t + 1)) (rc_step (RC_Apply cmd t) (rc_step (RC_Observe cmd t) c))"
    using control_event_run [of cmd t c] nonzero by (simp add: c'_def control_events_def)
  define s1 where "s1 = rc_step (RC_Apply cmd t) (rc_step (RC_Observe cmd t) c)"
  have s1: "mode s1 = E1_RUNTIME_CAMERA_ARMED \<and> camera_control_down s1 \<and>
      unat (secret_index s1) = Suc k \<and> secret_first_ms s1 = f \<and> secret_last_ms s1 = t \<and>
      (secret_complete s1 \<longleftrightarrow> Suc k = 8)"
    unfolding s1_def by (intro tap_press [OF observe_ready [OF r nonzero] assms(2,3)]) (use assms in auto)
  then have "secret_index s1 \<noteq> 0" by auto
  moreover have "\<not> secret_expired s1 (t + 1)"
    using s1 assms(6) by (auto simp: secret_expired_def e1_consts not_less)
  ultimately have "c' = (if Suc k = 8
      then e1_runtime_reset_secret (s1\<lparr>camera_control_down := False, mode := E1_RUNTIME_ENTRY_MELT\<rparr>)
      else s1\<lparr>camera_control_down := False\<rparr>)"
    using s1 tap_release [of s1 "t + 1"] by (simp add: c' s1_def)
  then show ?thesis using s1 by (auto simp: ready_def e1_runtime_reset_secret_def)
qed

lemma run_enters:
  assumes "ready k f l c" and "k < 8" and "map fst ps = drop k secret_code"
    and "k \<noteq> 0 \<longrightarrow> snd (hd ps) - l \<le> E1_SECRET_GAP_MS"
    and "k = 0 \<longrightarrow> f = snd (hd ps)"
    and "successively gap_ok ps"
    and "\<forall>p \<in> set ps. snd p - f \<le> E1_SECRET_TOTAL_MS \<and> snd p + 1 - f \<le> E1_SECRET_TOTAL_MS"
  shows "mode (control_run ps c) = E1_RUNTIME_ENTRY_MELT"
  using assms
proof (induction ps arbitrary: k l c)
  case Nil
  then show ?case by simp
next
  case (Cons p ps)
  obtain cmd t where p: "p = (cmd, t)" by (cases p)
  let ?c' = "fst (control_event cmd t c)"
  from Cons.prems(2,3) p have cmd: "cmd = secret_code ! k" and rest: "map fst ps = drop (Suc k) secret_code"
    by (auto simp: Cons_nth_drop_Suc [symmetric, of k secret_code])
  have tap: "if Suc k = 8 then mode ?c' = E1_RUNTIME_ENTRY_MELT else ready (Suc k) f t ?c'"
    using Cons.prems(4,5,7) p by (intro tap_ready [OF Cons.prems(1,2) cmd]) auto
  have run: "control_run (p # ps) c = control_run ps ?c'" by (simp add: control_run_def p)
  show ?case
  proof (cases "Suc k = 8")
    case True
    with rest have "ps = []" by simp
    with run tap True show ?thesis by (simp add: control_run_def)
  next
    case False
    with Cons.prems(2) rest have "ps \<noteq> []" by auto
    moreover from False tap have "ready (Suc k) f t ?c'" by simp
    ultimately have "mode (control_run ps ?c') = E1_RUNTIME_ENTRY_MELT"
      using Cons.prems(2,6,7) False rest p
      by (intro Cons.IH) (auto simp: successively_Cons gap_ok_def)
    with run show ?thesis by simp
  qed
qed

text \<open>C19. The secret works on the real path: an armed controller with an empty matcher, a ring in which
  the eight taps up, up, down, down, left, right, left, right wait, drained at moments at most
  1500 ms apart and all within 10 seconds, gives the action "enter" and the entry melt.\<close>

theorem secret_through_ring:
  assumes "mode control = E1_RUNTIME_CAMERA_ARMED" and "\<not> camera_control_down control"
    and "secret_index control = 0" and "\<not> secret_complete control"
    and "queued_commands ring t (map fst ps)" and "map fst ps = [3, 3, 4, 4, 1, 2, 1, 2]"
    and "successively gap_ok ps"
    and "\<forall>p \<in> set ps. snd p - snd (hd ps) \<le> 10000 \<and> snd p + 1 - snd (hd ps) \<le> 10000"
    and "s' = drain_ptz_events (map (\<lambda>p. (ring, snd p)) ps) sender
      \<lparr>ds_ticket = t, ds_control = control, ds_actions = 0, ds_sent = []\<rparr>"
  shows "mode (ds_control s') = E1_RUNTIME_ENTRY_MELT \<and>
    emits (ds_actions s') E1_RUNTIME_ACTION_ENTER"
proof -
  let ?s = "\<lparr>ds_ticket = t, ds_control = control, ds_actions = 0, ds_sent = []\<rparr>"
  have "length ps = 8" using arg_cong [OF assms(6), of length] by simp
  then have s': "s' = drain_loop (map (\<lambda>p. (ring, snd p)) ps) sender ?s"
    by (simp add: assms(9) drain_ptz_events_def PTZ_RING_SIZE_def)
  have "mode (control_run ps control) = E1_RUNTIME_ENTRY_MELT"
    by (rule run_enters [of 0 "snd (hd ps)" 0])
      (use assms in \<open>simp_all add: ready_def secret_code_def E1_SECRET_TOTAL_MS_def\<close>)
  with s' assms(5) have m: "mode (ds_control s') = E1_RUNTIME_ENTRY_MELT"
    using drain_queued [of ring ?s ps sender] by simp
  have "actions_match (mode control) (mode (ds_control s')) (ds_actions s')"
    unfolding s' using assms(1) by (intro match_drain) (simp add: emits_def)
  with assms(1) m show ?thesis by (simp split: if_splits)
qed

text \<open>A ring in which the eight taps wait.\<close>

definition tap_ring :: "ptz_ring_slot list" where
  "tap_ring = map (\<lambda>(n, c). \<lparr>committed = n, rs_channel = 1, rs_command = c, rs_speed = 5\<rparr>)
     (zip [1, 2, 3, 4, 5, 6, 7, 8] [3, 3, 4, 4, 1, 2, 1, 2])"

lemma tap_ring_queued: "queued_commands tap_ring 0 [3, 3, 4, 4, 1, 2, 1, 2]"
  by (simp add: tap_ring_def ring_index_def PTZ_RING_SIZE_def Let_def)

lemma secret_through_ring_witness:
  "\<exists>s'. mode (ds_control s') = E1_RUNTIME_ENTRY_MELT \<and> emits (ds_actions s') E1_RUNTIME_ACTION_ENTER \<and>
     s' = drain_ptz_events (map (\<lambda>p. (tap_ring, snd p)) demo_taps) True
       \<lparr>ds_ticket = 0, ds_control = rc_zero E1_RUNTIME_CAMERA_ARMED, ds_actions = 0, ds_sent = []\<rparr>"
  using secret_through_ring [of "rc_zero E1_RUNTIME_CAMERA_ARMED" tap_ring 0 demo_taps, OF _ _ _ _ _ _ _ _ refl]
    tap_ring_queued
  by (simp add: rc_zero_def demo_taps_def gap_ok_def e1_consts)

text \<open>The forward flag is accumulated over the drain: after the release that ends a qualified hold,
  every further event of the same drain is sent to the game too, although the controller is in the
  exit melt.\<close>

lemma late_events_forwarded:
  assumes "mode c = E1_RUNTIME_DOOM" and "exit_down c" and "exit_hold_qualified c now"
    and "queued_commands ring t [0, cmd]" and "stop_only_index c = 0" and "raw_direction_since_stop c"
  shows "map pe_command (ds_sent (drain_loop [(ring, now), (ring, now)] True
      \<lparr>ds_ticket = t, ds_control = c, ds_actions = 0, ds_sent = []\<rparr>)) = [0, word_of_int cmd] \<and>
    mode (ds_control (drain_loop [(ring, now)] True
      \<lparr>ds_ticket = t, ds_control = c, ds_actions = 0, ds_sent = []\<rparr>)) = E1_RUNTIME_EXIT_MELT"
proof -
  let ?s = "\<lparr>ds_ticket = t, ds_control = c, ds_actions = 0, ds_sent = []\<rparr>"
  from assms(4) have slot: "committed (ring ! ring_index t) = t + 1" "t + 1 \<noteq> 0"
      "rs_command (ring ! ring_index t) = 0"
    and slot2: "committed (ring ! ring_index (t + 1)) = t + 1 + 1" "t + 1 + 1 \<noteq> 0"
      "rs_command (ring ! ring_index (t + 1)) = cmd" by (simp_all add: Let_def)
  obtain c1 where ev: "control_event 0 now c = (c1, E1_RUNTIME_ACTION_FORWARD OR E1_RUNTIME_ACTION_EXIT)"
    and m1: "mode c1 = E1_RUNTIME_EXIT_MELT" "\<not> exit_down c1"
    using assms(1-3,5,6)
    by (simp add: control_event_def e1_runtime_observe_raw_ptz_def e1_runtime_apply_ptz_def
        e1_runtime_reset_stop_only_def exit_hold_qualified_def e1_consts Let_def)
  have fwd: "(E1_RUNTIME_ACTION_FORWARD OR E1_RUNTIME_ACTION_EXIT) AND E1_RUNTIME_ACTION_FORWARD \<noteq> 0"
    "((E1_RUNTIME_ACTION_FORWARD OR E1_RUNTIME_ACTION_EXIT) OR b) AND E1_RUNTIME_ACTION_FORWARD \<noteq> 0"
    for b :: u32
    unfolding emits_def [symmetric] emits_or by (simp_all add: emits_def e1_consts)
  have one: "drain_loop ((ring, now) # vs) True ?s = drain_loop vs True \<lparr>ds_ticket = t + 1, ds_control = c1,
      ds_actions = E1_RUNTIME_ACTION_FORWARD OR E1_RUNTIME_ACTION_EXIT,
      ds_sent = [event_of_slot (ring ! ring_index t) now]\<rparr>" for vs
    using slot fwd(1) by (simp add: ring_verdict_of_def drain_event_def ev)
  have "drain_loop [(ring, now)] True \<lparr>ds_ticket = t + 1, ds_control = c1, ds_actions = a, ds_sent = es\<rparr> =
      drain_event now True (ring ! ring_index (t + 1))
        \<lparr>ds_ticket = t + 1, ds_control = c1, ds_actions = a, ds_sent = es\<rparr>" for a es
    using slot2(1,2) by (simp add: ring_verdict_of_def)
  then have two: "map pe_command (ds_sent (drain_loop [(ring, now), (ring, now)] True ?s)) = [0, word_of_int cmd]"
    unfolding one using slot slot2 fwd(2)
    by (simp add: drain_event_def case_prod_unfold Let_def event_of_slot_def)
  from two one [of "[]"] m1 show ?thesis by simp
qed

end
