(* ===== verification/Http_Keys.thy ===== *)
theory Http_Keys
  imports C_Text
begin

text \<open>
  The browser keys of \<open>src/platform/e1/i_input_e1.c\<close>: the translation of a browser key code to
  a Doom key (\<open>http_key_for_code\<close>), the table of the codes the browser holds, and the two
  operations on it (\<open>http_apply_key\<close>, \<open>http_release_all\<close>). Several codes may stand for one
  Doom key, so the table is refined to the set of held codes, and the set of keys the game
  has down is the image of that set.

  A C string is the \<open>string\<close> before its terminator. \<open>doomkeys.h\<close> is not part of the
  repository: its constants are the record \<open>doomkeys\<close>, an argument of every definition that
  uses one. The posted events are kept in the order they are posted; what a build does with
  one (\<open>D_PostEvent\<close> in the game, a datagram in the controller) is in \<open>Input_Loop\<close>. Lines the
  code writes to its log are not modelled.
\<close>

section \<open>Key codes\<close>

record doomkeys =
  NUMKEYS :: int
  KEY_RIGHTARROW :: int
  KEY_LEFTARROW :: int
  KEY_UPARROW :: int
  KEY_DOWNARROW :: int
  KEY_ESCAPE :: int
  KEY_ENTER :: int
  KEY_TAB :: int
  KEY_BACKSPACE :: int
  KEY_RSHIFT :: int
  KEY_RCTRL :: int
  KEY_RALT :: int
  KEY_CAPSLOCK :: int
  KEY_HOME :: int
  KEY_END :: int
  KEY_PGUP :: int
  KEY_PGDN :: int
  KEY_INS :: int
  KEY_DEL :: int
  KEY_PAUSE :: int
  KEY_F1 :: int

text \<open>\<open>code[i]\<close>, the terminator included.\<close>

definition char_at :: "string \<Rightarrow> nat \<Rightarrow> int" where
  "char_at s i = (if i < length s then chr (s ! i) else 0)"

definition special_codes :: "doomkeys \<Rightarrow> (string \<times> int) list" where
  "special_codes K =
    [(''ArrowRight'', KEY_RIGHTARROW K), (''ArrowLeft'', KEY_LEFTARROW K),
     (''ArrowUp'', KEY_UPARROW K), (''ArrowDown'', KEY_DOWNARROW K),
     (''Escape'', KEY_ESCAPE K), (''Enter'', KEY_ENTER K),
     (''NumpadEnter'', KEY_ENTER K), (''Tab'', KEY_TAB K),
     (''Backspace'', KEY_BACKSPACE K), (''Space'', chr CHR '' ''),
     (''ShiftLeft'', KEY_RSHIFT K), (''ShiftRight'', KEY_RSHIFT K),
     (''ControlLeft'', KEY_RCTRL K), (''ControlRight'', KEY_RCTRL K),
     (''AltLeft'', KEY_RALT K), (''AltRight'', KEY_RALT K),
     (''CapsLock'', KEY_CAPSLOCK K), (''Home'', KEY_HOME K),
     (''End'', KEY_END K), (''PageUp'', KEY_PGUP K),
     (''PageDown'', KEY_PGDN K), (''Insert'', KEY_INS K),
     (''Delete'', KEY_DEL K), (''Pause'', KEY_PAUSE K),
     (''Minus'', chr CHR ''-''), (''Equal'', chr CHR ''=''), (''BracketLeft'', chr CHR ''[''),
     (''BracketRight'', chr CHR '']''), (''Backslash'', chr CHR 0x5C), (''Semicolon'', chr CHR '';''),
     (''Quote'', chr CHR 0x27), (''Backquote'', chr CHR 0x60), (''Comma'', chr CHR '',''),
     (''Period'', chr CHR ''.''), (''Slash'', chr CHR ''/'')]"

definition http_key_for_code :: "doomkeys \<Rightarrow> string \<Rightarrow> int" where
  "http_key_for_code K code =
     (if length code = 4 \<and> take 3 code = ''Key'' \<and>
         chr CHR ''A'' \<le> char_at code 3 \<and> char_at code 3 \<le> chr CHR ''Z''
      then char_at code 3 - chr CHR ''A'' + chr CHR ''a''
      else if length code = 6 \<and> take 5 code = ''Digit'' \<and>
         chr CHR ''0'' \<le> char_at code 5 \<and> char_at code 5 \<le> chr CHR ''9''
      then char_at code 5
      else if length code = 7 \<and> take 6 code = ''Numpad'' \<and>
         chr CHR ''0'' \<le> char_at code 6 \<and> char_at code 6 \<le> chr CHR ''9''
      then char_at code 6
      else if char_at code 0 = chr CHR ''F'' \<and>
         chr CHR ''1'' \<le> char_at code 1 \<and> char_at code 1 \<le> chr CHR ''9'' \<and>
         (char_at code 2 = 0 \<or>
          (char_at code 1 = chr CHR ''1'' \<and> chr CHR ''0'' \<le> char_at code 2 \<and>
           char_at code 2 \<le> chr CHR ''2'' \<and> char_at code 3 = 0))
      then KEY_F1 K + atoi_from 0 (tl code) - 1
      else (case map_of (special_codes K) code of Some key \<Rightarrow> key | None \<Rightarrow> -1))"

section \<open>The table of held codes\<close>

definition E1_HTTP_HELD_CODES :: nat where [e1_consts]: "E1_HTTP_HELD_CODES = 64"
definition E1_HTTP_CODE_SIZE :: nat where [e1_consts]: "E1_HTTP_CODE_SIZE = 24"

datatype evtype = ev_keydown | ev_keyup

record http_held_code =
  hc_code :: string
  hc_key :: int
  hc_held :: bool

record http_keys =
  http_held_codes :: "http_held_code list"
  http_last_activity_ms :: u64
  posted :: "(int \<times> evtype) list"

definition free_code :: http_held_code where
  "free_code = \<lparr>hc_code = [], hc_key = 0, hc_held = False\<rparr>"

definition http_keys_zero :: http_keys where
  "http_keys_zero = \<lparr>http_held_codes = replicate E1_HTTP_HELD_CODES free_code,
     http_last_activity_ms = 0, posted = []\<rparr>"

definition post_key :: "int \<Rightarrow> evtype \<Rightarrow> http_keys \<Rightarrow> http_keys" where
  "post_key key type s = s\<lparr>posted := posted s @ [(key, type)]\<rparr>"

definition http_key_is_held :: "http_held_code list \<Rightarrow> int \<Rightarrow> bool" where
  "http_key_is_held table key \<longleftrightarrow> (\<exists>h \<in> set table. hc_held h \<and> hc_key h = key)"

text \<open>The first loop of \<open>http_release_all\<close> clears the slots, the second posts one release per
  key, in ascending order of the keys.\<close>

definition releasable :: "doomkeys \<Rightarrow> http_held_code \<Rightarrow> bool" where
  "releasable K h \<longleftrightarrow> hc_held h \<and> 0 \<le> hc_key h \<and> hc_key h < NUMKEYS K"

definition http_release_all :: "doomkeys \<Rightarrow> http_keys \<Rightarrow> http_keys" where
  "http_release_all K s =
     (let released = map hc_key (filter (releasable K) (http_held_codes s));
          cleared = map (\<lambda>h. if releasable K h then h\<lparr>hc_held := False\<rparr> else h)
                      (http_held_codes s)
      in fold (\<lambda>index. if index \<in> set released then post_key index ev_keyup else id)
           [0..NUMKEYS K - 1] (s\<lparr>http_held_codes := cleared\<rparr>))"

text \<open>The search of \<open>http_apply_key\<close>: the slot of the code, or else the first free slot. The
  loop stops at the slot of the code.\<close>

fun find_binding ::
    "http_held_code list \<Rightarrow> string \<Rightarrow> nat \<Rightarrow> nat option \<Rightarrow> nat option \<times> nat option" where
  "find_binding [] code index free = (None, free)"
| "find_binding (h # hs) code index free =
     (if hc_code h = code then (Some index, free)
      else find_binding hs code (Suc index)
             (if \<not> hc_held h \<and> free = None then Some index else free))"

definition set_held :: "nat \<Rightarrow> bool \<Rightarrow> http_keys \<Rightarrow> http_keys" where
  "set_held i b s =
     s\<lparr>http_held_codes := (http_held_codes s)[i := (http_held_codes s ! i)\<lparr>hc_held := b\<rparr>]\<rparr>"

text \<open>What is done to the binding once it is found.\<close>

definition press_or_release :: "int \<Rightarrow> bool \<Rightarrow> nat \<Rightarrow> http_keys \<Rightarrow> http_keys" where
  "press_or_release key down i s =
     (let was = hc_held (http_held_codes s ! i)
      in if down \<and> \<not> was then
           (let already_held = http_key_is_held (http_held_codes s) key;
                s = set_held i True s
            in if \<not> already_held then post_key key ev_keydown s else s)
         else if \<not> down \<and> was then
           (let s = set_held i False s
            in if \<not> http_key_is_held (http_held_codes s) key then post_key key ev_keyup s else s)
         else s)"

definition http_apply_key ::
    "doomkeys \<Rightarrow> u64 \<Rightarrow> string \<Rightarrow> bool \<Rightarrow> http_keys \<Rightarrow> http_keys \<times> bool" where
  "http_apply_key K now code down s =
     (let key = http_key_for_code K code
      in if key < 0 \<or> key \<ge> NUMKEYS K \<or> length code \<ge> E1_HTTP_CODE_SIZE then (s, False)
         else (case find_binding (http_held_codes s) code 0 None of
             (Some i, _) \<Rightarrow>
               (press_or_release key down i (s\<lparr>http_last_activity_ms := now\<rparr>), True)
           | (None, None) \<Rightarrow> (s, False)
           | (None, Some i) \<Rightarrow>
               (press_or_release key down i
                  (s\<lparr>http_held_codes :=
                       (http_held_codes s)[i := \<lparr>hc_code = code, hc_key = key, hc_held = False\<rparr>],
                     http_last_activity_ms := now\<rparr>), True)))"

section \<open>The game's side of the posted events\<close>

text \<open>
  The keys the game has down after a list of events, or \<open>None\<close> when an event presses a key
  that is down or releases one that is not.
\<close>

fun replay :: "(int \<times> evtype) list \<Rightarrow> int set \<Rightarrow> int set option" where
  "replay [] S = Some S"
| "replay ((k, ev_keydown) # es) S = (if k \<in> S then None else replay es (insert k S))"
| "replay ((k, ev_keyup) # es) S = (if k \<notin> S then None else replay es (S - {k}))"

lemma replay_append: "replay (es @ fs) S = Option.bind (replay es S) (replay fs)"
  by (induction es S rule: replay.induct) simp_all

lemma replay_releases:
  "distinct ks \<Longrightarrow> set ks \<subseteq> S \<Longrightarrow> replay (map (\<lambda>k. (k, ev_keyup)) ks) S = Some (S - set ks)"
proof (induction ks arbitrary: S)
  case (Cons k ks)
  then have "set ks \<subseteq> S - {k}" by auto
  with Cons have "replay (map (\<lambda>k. (k, ev_keyup)) ks) (S - {k}) = Some (S - {k} - set ks)" by simp
  with Cons.prems show ?case by (simp add: Diff_insert2 [of S k "set ks"])
qed simp

section \<open>The table as a set of codes\<close>

definition held_set :: "http_held_code list \<Rightarrow> string set" where
  "held_set table = hc_code ` {h \<in> set table. hc_held h}"

definition valid_code :: "doomkeys \<Rightarrow> string \<Rightarrow> bool" where
  "valid_code K code \<longleftrightarrow> 0 \<le> http_key_for_code K code \<and> http_key_for_code K code < NUMKEYS K \<and>
     length code < E1_HTTP_CODE_SIZE"

definition wf_slot :: "doomkeys \<Rightarrow> http_held_code \<Rightarrow> bool" where
  "wf_slot K h \<longleftrightarrow> (if hc_code h = [] then \<not> hc_held h
     else hc_key h = http_key_for_code K (hc_code h) \<and> valid_code K (hc_code h))"

definition wf_table :: "doomkeys \<Rightarrow> http_held_code list \<Rightarrow> bool" where
  "wf_table K t \<longleftrightarrow> length t = E1_HTTP_HELD_CODES \<and> (\<forall>h \<in> set t. wf_slot K h) \<and>
     (\<forall>i < length t. \<forall>j < length t. i \<noteq> j \<longrightarrow> hc_code (t ! i) = hc_code (t ! j) \<longrightarrow>
        hc_code (t ! i) = [])"

definition wf_keys :: "doomkeys \<Rightarrow> http_keys \<Rightarrow> bool" where
  "wf_keys K s \<longleftrightarrow> wf_table K (http_held_codes s) \<and>
     replay (posted s) {} = Some (http_key_for_code K ` held_set (http_held_codes s))"

lemma empty_code_invalid [simp]: "\<not> valid_code K []"
  by (simp add: valid_code_def http_key_for_code_def char_at_def chr_def special_codes_def)

lemma wf_slot_held: "wf_slot K h \<Longrightarrow> hc_held h \<Longrightarrow>
   hc_key h = http_key_for_code K (hc_code h) \<and> valid_code K (hc_code h)"
  by (auto simp: wf_slot_def split: if_splits)

lemma wf_table_slot: "wf_table K t \<Longrightarrow> h \<in> set t \<Longrightarrow> wf_slot K h"
  by (simp add: wf_table_def)

lemma wf_table_distinct:
  "wf_table K t \<Longrightarrow> a < length t \<Longrightarrow> b < length t \<Longrightarrow> hc_code (t ! a) = hc_code (t ! b) \<Longrightarrow>
   hc_code (t ! a) \<noteq> [] \<Longrightarrow> a = b"
  unfolding wf_table_def by blast

lemma key_is_held_iff:
  "wf_table K t \<Longrightarrow> http_key_is_held t key \<longleftrightarrow> key \<in> http_key_for_code K ` held_set t"
  by (force simp: http_key_is_held_def held_set_def wf_table_def dest: wf_slot_held)

lemma binding_found:
  "find_binding t code n free = (Some i, f) \<Longrightarrow>
   n \<le> i \<and> i < n + length t \<and> hc_code (t ! (i - n)) = code"
proof (induction t code n free rule: find_binding.induct)
  case (2 h hs code n free)
  show ?case
  proof (cases "hc_code h = code")
    case False
    with 2 have "Suc n \<le> i \<and> i < Suc n + length hs \<and> hc_code (hs ! (i - Suc n)) = code"
      by simp
    then show ?thesis by (auto simp: nth_Cons' Suc_diff_le)
  qed (use 2 in auto)
qed simp

lemma binding_absent:
  "find_binding t code n free = (None, f) \<Longrightarrow> (\<forall>h \<in> set t. hc_code h \<noteq> code) \<and>
   (case f of None \<Rightarrow> free = None \<and> (\<forall>h \<in> set t. hc_held h)
    | Some i \<Rightarrow> free = Some i \<or> n \<le> i \<and> i < n + length t \<and> \<not> hc_held (t ! (i - n)))"
proof (induction t code n free rule: find_binding.induct)
  case (2 h hs code n free)
  let ?free = "if \<not> hc_held h \<and> free = None then Some n else free"
  from 2 have IH: "(\<forall>h \<in> set hs. hc_code h \<noteq> code) \<and>
      (case f of None \<Rightarrow> ?free = None \<and> (\<forall>h \<in> set hs. hc_held h)
       | Some i \<Rightarrow> ?free = Some i \<or> Suc n \<le> i \<and> i < Suc n + length hs \<and>
           \<not> hc_held (hs ! (i - Suc n)))" and "hc_code h \<noteq> code"
    by (auto split: if_splits)
  then show ?case
    by (cases f) (auto simp: nth_Cons' split: if_splits)
qed (auto split: option.split)

text \<open>Storing a slot: what the table then holds.\<close>

lemma held_set_nth: "held_set t = (\<lambda>i. hc_code (t ! i)) ` {i. i < length t \<and> hc_held (t ! i)}"
  by (auto simp: held_set_def in_set_conv_nth image_iff)

lemma held_set_store:
  assumes wf: "wf_table K t" and i: "i < length t"
    and code: "\<not> hc_held (t ! i) \<or> hc_code (t ! i) = hc_code h"
    and others: "\<forall>j < length t. j \<noteq> i \<longrightarrow> hc_code (t ! j) = hc_code h \<longrightarrow> hc_code h = []"
    and slot: "wf_slot K h"
  shows "held_set (t[i := h]) =
    (if hc_held h then insert (hc_code h) (held_set t) else held_set t - {hc_code h})"
proof -
  have ne: "hc_code (t ! j) \<noteq> hc_code h"
    if "j < length t" "j \<noteq> i" "hc_held (t ! j)" for j
    using that others wf_table_slot [OF wf nth_mem [OF that(1)]]
    by (auto simp: wf_slot_def split: if_splits)
  have "x \<in> held_set (t[i := h]) \<longleftrightarrow>
      (hc_held h \<and> x = hc_code h) \<or> (\<exists>j < length t. j \<noteq> i \<and> hc_held (t ! j) \<and> x = hc_code (t ! j))"
    for x
    using i unfolding held_set_nth by (auto simp: nth_list_update image_iff)
  moreover have "x \<in> held_set t \<longleftrightarrow>
      (hc_held (t ! i) \<and> x = hc_code (t ! i)) \<or>
      (\<exists>j < length t. j \<noteq> i \<and> hc_held (t ! j) \<and> x = hc_code (t ! j))" for x
    using i unfolding held_set_nth by (auto simp: image_iff)
  moreover have "\<not> (\<exists>j < length t. j \<noteq> i \<and> hc_held (t ! j) \<and> hc_code h = hc_code (t ! j))"
    using ne by metis
  moreover have "hc_held (t ! i) \<Longrightarrow> hc_code (t ! i) = hc_code h" using code by simp
  ultimately have "x \<in> held_set (t[i := h]) \<longleftrightarrow> x \<in> (if hc_held h then insert (hc_code h) (held_set t)
      else held_set t - {hc_code h})" for x
    by (cases "x = hc_code h"; cases "hc_held h"; cases "hc_held (t ! i)") simp_all
  then show ?thesis by blast
qed

lemma wf_table_store:
  assumes wf: "wf_table K t" and i: "i < length t" and slot: "wf_slot K h"
    and others: "\<forall>j < length t. j \<noteq> i \<longrightarrow> hc_code (t ! j) = hc_code h \<longrightarrow> hc_code h = []"
  shows "wf_table K (t[i := h])"
  unfolding wf_table_def
proof (intro conjI ballI allI impI)
  show "length (t[i := h]) = E1_HTTP_HELD_CODES" using wf by (simp add: wf_table_def)
next
  fix g assume "g \<in> set (t[i := h])"
  then have "g \<in> insert h (set t)" by (rule set_update_subset_insert [THEN subsetD])
  then show "wf_slot K g" using slot wf_table_slot [OF wf] by auto
next
  fix a b
  assume "a < length (t[i := h])" "b < length (t[i := h])" "a \<noteq> b"
    and "hc_code (t[i := h] ! a) = hc_code (t[i := h] ! b)"
  then show "hc_code (t[i := h] ! a) = []"
  proof (cases "a = i \<or> b = i")
    case True
    note same = \<open>hc_code (t[i := h] ! a) = hc_code (t[i := h] ! b)\<close>
    show ?thesis
    proof (cases "a = i")
      case True
      with \<open>a \<noteq> b\<close> have "b \<noteq> i" by simp
      with same True i have "hc_code (t ! b) = hc_code h" by simp
      moreover from \<open>b < length (t[i := h])\<close> have "b < length t" by simp
      ultimately have "hc_code h = []" using others \<open>b \<noteq> i\<close> by blast
      with True i show ?thesis by simp
    next
      case False
      with \<open>a = i \<or> b = i\<close> have "b = i" by simp
      with same False i have eq: "hc_code (t ! a) = hc_code h" by simp
      moreover from \<open>a < length (t[i := h])\<close> have "a < length t" by simp
      ultimately have "hc_code h = []" using others False by blast
      with eq False show ?thesis by simp
    qed
  next
    case False
    then have eq: "t[i := h] ! a = t ! a" "t[i := h] ! b = t ! b" by simp_all
    from wf have "\<forall>a < length t. \<forall>b < length t. a \<noteq> b \<longrightarrow> hc_code (t ! a) = hc_code (t ! b) \<longrightarrow>
        hc_code (t ! a) = []" by (simp add: wf_table_def)
    with eq \<open>a \<noteq> b\<close> \<open>a < length (t[i := h])\<close> \<open>b < length (t[i := h])\<close>
      \<open>hc_code (t[i := h] ! a) = hc_code (t[i := h] ! b)\<close>
    show ?thesis by simp
  qed
qed

section \<open>The operations on the set of codes\<close>

lemma post_key_simps [simp]:
  "http_held_codes (post_key k e s) = http_held_codes s"
  "http_last_activity_ms (post_key k e s) = http_last_activity_ms s"
  "posted (post_key k e s) = posted s @ [(k, e)]"
  by (simp_all add: post_key_def)

lemma press_table:
  "http_held_codes (press_or_release key down i s) =
     (http_held_codes s)[i := (http_held_codes s ! i)\<lparr>hc_held := down\<rparr>]"
proof -
  let ?t = "http_held_codes s"
  have same: "?t = ?t[i := (?t ! i)\<lparr>hc_held := hc_held (?t ! i)\<rparr>]" by simp
  show ?thesis
  proof (cases "down = hc_held (?t ! i)")
    case True
    then show ?thesis using same by (auto simp: press_or_release_def)
  next
    case False
    then show ?thesis by (cases down) (simp_all add: press_or_release_def set_held_def Let_def)
  qed
qed

lemma press_activity [simp]:
  "http_last_activity_ms (press_or_release key down i s) = http_last_activity_ms s"
  by (simp add: press_or_release_def set_held_def Let_def)

lemma press_spec:
  assumes wf: "wf_keys K s" and i: "i < length (http_held_codes s)"
    and code: "hc_code (http_held_codes s ! i) = code" "code \<noteq> []"
    and s': "s' = press_or_release (http_key_for_code K code) down i s"
  shows "wf_keys K s' \<and> held_set (http_held_codes s') =
    (if down then insert code (held_set (http_held_codes s)) else held_set (http_held_codes s) - {code})"
proof -
  let ?t = "http_held_codes s" and ?k = "http_key_for_code K code"
  let ?h = "(?t ! i)\<lparr>hc_held := down\<rparr>"
  let ?t' = "?t[i := ?h]"
  from wf have wft: "wf_table K ?t" by (simp add: wf_keys_def)
  have slot: "wf_slot K ?h" using wf_table_slot [OF wft nth_mem [OF i]] code by (simp add: wf_slot_def)
  have others: "\<forall>j < length ?t. j \<noteq> i \<longrightarrow> hc_code (?t ! j) = hc_code ?h \<longrightarrow> hc_code ?h = []"
    using wf_table_distinct [OF wft _ i] by simp blast
  have wft': "wf_table K ?t'" by (rule wf_table_store [OF wft i slot others])
  have held: "held_set ?t' = (if down then insert code (held_set ?t) else held_set ?t - {code})"
    using held_set_store [OF wft i _ others slot] code by simp
  have was: "hc_held (?t ! i) \<longleftrightarrow> code \<in> held_set ?t"
  proof
    assume "hc_held (?t ! i)"
    then show "code \<in> held_set ?t" using i code by (auto simp: held_set_nth)
  next
    assume "code \<in> held_set ?t"
    then obtain j where j: "j < length ?t" "hc_held (?t ! j)" "hc_code (?t ! j) = code"
      by (auto simp: held_set_nth)
    with wf_table_distinct [OF wft j(1) i] code have "j = i" by simp
    with j show "hc_held (?t ! i)" by simp
  qed
  have rep: "replay (posted s) {} = Some (http_key_for_code K ` held_set ?t)"
    using wf by (simp add: wf_keys_def)
  have "replay (posted s') {} = Some (http_key_for_code K ` held_set ?t')"
  proof (cases "down = hc_held (?t ! i)")
    case True
    then have "posted s' = posted s" by (auto simp: s' press_or_release_def)
    moreover have "held_set ?t' = held_set ?t" using True held was by auto
    ultimately show ?thesis using rep by simp
  next
    case False
    show ?thesis
    proof (cases down)
      case True
      with False have "posted s' = (if ?k \<in> http_key_for_code K ` held_set ?t then posted s
          else posted s @ [(?k, ev_keydown)])"
        by (simp add: s' press_or_release_def Let_def set_held_def key_is_held_iff [OF wft])
      then show ?thesis using True rep held by (auto simp: replay_append)
    next
      case up: False
      with False was have mem: "code \<in> held_set ?t" and was: "hc_held (?t ! i)" by simp_all
      from up have t': "?t' = ?t[i := (?t ! i)\<lparr>hc_held := False\<rparr>]" by simp
      from up was have "posted s' = (if ?k \<in> http_key_for_code K ` held_set ?t' then posted s
          else posted s @ [(?k, ev_keyup)])"
        using key_is_held_iff [OF wft'] unfolding t'
        by (simp add: s' press_or_release_def Let_def set_held_def)
      moreover from mem up held have "held_set ?t = insert code (held_set ?t')" by auto
      ultimately show ?thesis using rep by (auto simp: replay_append)
    qed
  qed
  moreover have "http_held_codes s' = ?t'" by (simp add: s' press_table)
  ultimately show ?thesis using wft' held by (simp add: wf_keys_def)
qed

lemma held_card:
  assumes "wf_table K t"
  shows "card (held_set t) < E1_HTTP_HELD_CODES \<longleftrightarrow> (\<exists>h \<in> set t. \<not> hc_held h)"
proof -
  let ?I = "{i. i < length t \<and> hc_held (t ! i)}"
  from assms have len: "length t = E1_HTTP_HELD_CODES" by (simp add: wf_table_def)
  have "inj_on (\<lambda>i. hc_code (t ! i)) ?I"
  proof (rule inj_onI)
    fix a b
    assume a: "a \<in> ?I" and "b \<in> ?I" and eq: "hc_code (t ! a) = hc_code (t ! b)"
    from a have "hc_held (t ! a)" and "a < length t" by simp_all
    with wf_slot_held [OF wf_table_slot [OF assms, of "t ! a"]]
    have "valid_code K (hc_code (t ! a))" by simp
    then have "hc_code (t ! a) \<noteq> []" using empty_code_invalid [of K] by metis
    moreover from \<open>b \<in> ?I\<close> have "b < length t" by simp
    ultimately show "a = b" by (intro wf_table_distinct [OF assms \<open>a < length t\<close> _ eq])
  qed
  then have "card (held_set t) = card ?I" by (simp add: held_set_nth card_image)
  moreover have "card ?I < length t \<longleftrightarrow> (\<exists>h \<in> set t. \<not> hc_held h)"
  proof
    assume "\<exists>h \<in> set t. \<not> hc_held h"
    then obtain i where "i < length t" and "\<not> hc_held (t ! i)"
      by (metis in_set_conv_nth)
    then have "i \<in> {..<length t}" and "i \<notin> ?I" by simp_all
    then have "?I \<subset> {..<length t}" by blast
    then have "card ?I < card {..<length t}" by (intro psubset_card_mono) simp_all
    then show "card ?I < length t" by simp
  next
    assume less: "card ?I < length t"
    show "\<exists>h \<in> set t. \<not> hc_held h"
    proof (rule ccontr)
      assume "\<not> ?thesis"
      then have "\<And>i. i < length t \<Longrightarrow> hc_held (t ! i)" using nth_mem by blast
      then have "?I = {..<length t}" by blast
      with less show False by simp
    qed
  qed
  ultimately show ?thesis using len by simp
qed

text \<open>The codes a press or release is accepted for, in the abstract state.\<close>

definition accepts :: "doomkeys \<Rightarrow> string set \<Rightarrow> string \<Rightarrow> bool" where
  "accepts K S code \<longleftrightarrow> valid_code K code \<and> (code \<in> S \<or> card S < E1_HTTP_HELD_CODES)"

lemma apply_key_spec:
  assumes wf: "wf_keys K s" and run: "http_apply_key K now code down s = (s', ok)"
  shows "wf_keys K s' \<and> ok = accepts K (held_set (http_held_codes s)) code \<and>
    held_set (http_held_codes s') =
      (if ok then if down then insert code (held_set (http_held_codes s))
         else held_set (http_held_codes s) - {code}
       else held_set (http_held_codes s)) \<and>
    http_last_activity_ms s' = (if ok then now else http_last_activity_ms s)"
proof (cases "valid_code K code")
  case False
  with run have "s' = s" and "\<not> ok"
    by (auto simp: http_apply_key_def valid_code_def not_le not_less Let_def split: if_splits)
  with False wf show ?thesis by (simp add: accepts_def)
next
  case True
  let ?t = "http_held_codes s" and ?k = "http_key_for_code K code"
  from wf have wft: "wf_table K ?t" by (simp add: wf_keys_def)
  from True have "code \<noteq> []" by auto
  obtain b f where fb: "find_binding ?t code 0 None = (b, f)" by force
  from True have key: "\<not> (?k < 0 \<or> NUMKEYS K \<le> ?k \<or> E1_HTTP_CODE_SIZE \<le> length code)"
    by (auto simp: valid_code_def)
  show ?thesis
  proof (cases b)
    case (Some i)
    with binding_found fb have i: "i < length ?t" "hc_code (?t ! i) = code" by fastforce+
    let ?s1 = "s\<lparr>http_last_activity_ms := now\<rparr>"
    from run key fb Some have r: "ok" "s' = press_or_release ?k down i ?s1"
      by (simp_all add: http_apply_key_def Let_def)
    have "wf_keys K ?s1" using wf by (simp add: wf_keys_def)
    from press_spec [OF this _ _ \<open>code \<noteq> []\<close> r(2)] i
    have "wf_keys K s' \<and> held_set (http_held_codes s') =
        (if down then insert code (held_set ?t) else held_set ?t - {code})" by simp
    moreover have "accepts K (held_set ?t) code"
    proof (cases "hc_held (?t ! i)")
      case True
      with i have "code \<in> held_set ?t" by (auto simp: held_set_nth)
      with \<open>valid_code K code\<close> show ?thesis by (simp add: accepts_def)
    next
      case False
      with i nth_mem have "\<exists>h \<in> set ?t. \<not> hc_held h" by blast
      with \<open>valid_code K code\<close> show ?thesis using held_card [OF wft] by (simp add: accepts_def)
    qed
    ultimately show ?thesis using r by simp
  next
    case None
    with binding_absent fb have absent: "\<forall>h \<in> set ?t. hc_code h \<noteq> code"
      and f: "case f of None \<Rightarrow> \<forall>h \<in> set ?t. hc_held h
        | Some i \<Rightarrow> i < length ?t \<and> \<not> hc_held (?t ! i)"
      by (fastforce split: option.splits)+
    from absent have out: "code \<notin> held_set ?t" by (auto simp: held_set_def)
    show ?thesis
    proof (cases f)
      case None
      with f have "\<not> (\<exists>h \<in> set ?t. \<not> hc_held h)" by simp
      with held_card [OF wft] out have "\<not> accepts K (held_set ?t) code" by (simp add: accepts_def)
      moreover from run key fb \<open>b = None\<close> None have "s' = s" "\<not> ok"
        by (simp_all add: http_apply_key_def Let_def)
      ultimately show ?thesis using wf by simp
    next
      case (Some i)
      with f have i: "i < length ?t" "\<not> hc_held (?t ! i)" by simp_all
      let ?h = "\<lparr>hc_code = code, hc_key = ?k, hc_held = False\<rparr>"
      let ?s1 = "s\<lparr>http_held_codes := ?t[i := ?h], http_last_activity_ms := now\<rparr>"
      from run key fb \<open>b = None\<close> Some
      have r: "ok" "s' = press_or_release ?k down i ?s1"
        by (simp_all add: http_apply_key_def Let_def)
      have slot: "wf_slot K ?h" using True \<open>code \<noteq> []\<close> by (simp add: wf_slot_def)
      have others: "\<forall>j < length ?t. j \<noteq> i \<longrightarrow> hc_code (?t ! j) = hc_code ?h \<longrightarrow> hc_code ?h = []"
        using absent by (auto dest: nth_mem)
      have held: "held_set (?t[i := ?h]) = held_set ?t"
        using held_set_store [OF wft i(1) _ others slot] i out by simp
      with wf_table_store [OF wft i(1) slot others] wf have "wf_keys K ?s1"
        by (simp add: wf_keys_def)
      from press_spec [OF this _ _ \<open>code \<noteq> []\<close> r(2)] i held
      have "wf_keys K s' \<and> held_set (http_held_codes s') =
          (if down then insert code (held_set ?t) else held_set ?t - {code})" by simp
      moreover from i nth_mem have "\<exists>h \<in> set ?t. \<not> hc_held h" by blast
      with True held_card [OF wft] have "accepts K (held_set ?t) code" by (simp add: accepts_def)
      ultimately show ?thesis using r by simp
    qed
  qed
qed

lemma post_fold:
  "fold (\<lambda>k. if P k then post_key k e else id) ks s =
     s\<lparr>posted := posted s @ map (\<lambda>k. (k, e)) (filter P ks)\<rparr>"
  by (induction ks arbitrary: s) (simp_all add: post_key_def)

lemma release_all_spec:
  assumes wf: "wf_keys K s"
  shows "wf_keys K (http_release_all K s) \<and>
    held_set (http_held_codes (http_release_all K s)) = {} \<and>
    http_last_activity_ms (http_release_all K s) = http_last_activity_ms s"
proof -
  let ?t = "http_held_codes s" and ?s' = "http_release_all K s"
  let ?R = "hc_key ` {h \<in> set ?t. releasable K h}"
  from wf have wft: "wf_table K ?t" by (simp add: wf_keys_def)
  have all: "releasable K h = hc_held h" if "h \<in> set ?t" for h
    using wf_slot_held [OF wf_table_slot [OF wft that]] by (auto simp: releasable_def valid_code_def)
  have t': "http_held_codes ?s' = map (\<lambda>h. h\<lparr>hc_held := False\<rparr>) ?t"
    using all by (auto simp: http_release_all_def Let_def post_fold)
  have keys: "?R = http_key_for_code K ` held_set ?t"
  proof -
    have "{h \<in> set ?t. releasable K h} = {h \<in> set ?t. hc_held h}" using all by auto
    then show ?thesis unfolding held_set_def image_image
      using wf_slot_held [OF wf_table_slot [OF wft]] by (intro image_cong) simp_all
  qed
  have range: "?R \<subseteq> {0..NUMKEYS K - 1}" by (auto simp: releasable_def)
  have "wf_slot K (h\<lparr>hc_held := False\<rparr>)" if "h \<in> set ?t" for h
    using wf_table_slot [OF wft that] by (auto simp: wf_slot_def split: if_splits)
  then have "wf_table K (http_held_codes ?s')"
    using wft unfolding t' wf_table_def by simp
  moreover have none: "held_set (http_held_codes ?s') = {}" by (auto simp: t' held_set_def)
  moreover have "replay (posted ?s') {} = Some {}"
  proof -
    let ?ks = "filter (\<lambda>k. k \<in> ?R) [0..NUMKEYS K - 1]"
    have "posted ?s' = posted s @ map (\<lambda>k. (k, ev_keyup)) ?ks"
      by (simp add: http_release_all_def Let_def post_fold)
    moreover from range have "set ?ks = ?R" by auto
    then have "replay (map (\<lambda>k. (k, ev_keyup)) ?ks) ?R = Some {}"
      by (subst replay_releases) simp_all
    ultimately show ?thesis using wf by (simp add: wf_keys_def replay_append keys)
  qed
  ultimately show ?thesis
    by (simp add: wf_keys_def http_release_all_def Let_def post_fold)
qed

section \<open>Any sequence of operations\<close>

datatype http_op = HK_Apply u64 string bool | HK_Release

fun hk_step :: "doomkeys \<Rightarrow> http_op \<Rightarrow> http_keys \<Rightarrow> http_keys" where
  "hk_step K (HK_Apply now code down) s = fst (http_apply_key K now code down s)"
| "hk_step K HK_Release s = http_release_all K s"

text \<open>The contract: a set of codes, a press of a code is accepted while there is room.\<close>

fun hk_spec :: "doomkeys \<Rightarrow> http_op \<Rightarrow> string set \<Rightarrow> string set" where
  "hk_spec K (HK_Apply now code down) S =
     (if \<not> accepts K S code then S else if down then insert code S else S - {code})"
| "hk_spec K HK_Release S = {}"

lemma hk_step_spec:
  assumes "wf_keys K s"
  shows "wf_keys K (hk_step K e s) \<and>
    held_set (http_held_codes (hk_step K e s)) = hk_spec K e (held_set (http_held_codes s))"
proof (cases e)
  case (HK_Apply now code down)
  obtain s' ok where r: "http_apply_key K now code down s = (s', ok)" by force
  from apply_key_spec [OF assms this] r HK_Apply show ?thesis by simp
next
  case HK_Release
  with release_all_spec [OF assms] show ?thesis by simp
qed

interpretation http_table: refining_machine "hk_step K" "wf_keys K"
    "\<lambda>s. held_set (http_held_codes s)" "hk_spec K"
  by unfold_locales (simp_all add: hk_step_spec)

lemma keys_zero_wf: "wf_keys K http_keys_zero \<and> held_set (http_held_codes http_keys_zero) = {}"
  by (simp add: wf_keys_def http_keys_zero_def wf_table_def wf_slot_def free_code_def held_set_def)

text \<open>C25. The key table refines a set of held codes. After any sequence of presses, releases and
  release-alls from the start, the codes it holds are those of the abstract set machine (a press
  or release of a known code is accepted while the code is held or fewer than 64 are), and the
  posted events, replayed at the game, never press a key that is down nor release one that is up
  and leave down exactly the keys of the held codes.\<close>

theorem http_game_in_step:
  "held_set (http_held_codes (fold (hk_step K) ops http_keys_zero)) = fold (hk_spec K) ops {} \<and>
   replay (posted (fold (hk_step K) ops http_keys_zero)) {} =
     Some (http_key_for_code K ` fold (hk_spec K) ops {})"
proof -
  from http_table.run_refines [of K http_keys_zero ops] keys_zero_wf
  have "held_set (http_held_codes (fold (hk_step K) ops http_keys_zero)) = fold (hk_spec K) ops {}"
    by simp
  moreover from http_table.run_inv [of K http_keys_zero ops] keys_zero_wf
  have "wf_keys K (fold (hk_step K) ops http_keys_zero)" by simp
  ultimately show ?thesis by (simp add: wf_keys_def)
qed

end
