(* ===== verification/Http_Server.thy ===== *)
theory Http_Server
  imports Http_Keys "HOL-Library.Multiset"
begin

text \<open>
  The HTTP server of \<open>src/platform/e1/i_input_e1.c\<close>: eight client slots with a fixed request
  buffer each, the request parser, the routes, and the two polling functions. What the system
  calls return is an argument: the bytes \<open>recv\<close> has for a client, how much \<open>send\<close> takes, the
  connections \<open>accept\<close> returns, and for a request the contents of the \<open>runtime.mode\<close> file, the
  outcome of writing a request file and the clock. As documented, \<open>recv\<close> and \<open>send\<close> never
  move more bytes than they are asked to, and \<open>accept\<close> returns a fresh descriptor.

  A request buffer is the list of its \<open>request_length\<close> bytes. The controller page, one long
  string constant, is the argument \<open>page\<close>. The compile-time choice between the game and the
  standalone controller is the argument \<open>standalone\<close>.
\<close>

section \<open>Data\<close>

definition E1_HTTP_MAX_CLIENTS :: nat where [e1_consts]: "E1_HTTP_MAX_CLIENTS = 8"
definition E1_HTTP_REQUEST_SIZE :: nat where [e1_consts]: "E1_HTTP_REQUEST_SIZE = 1024"
definition response_storage_size :: nat where [e1_consts]: "response_storage_size = 320"

record e1_http_client =
  fd :: int
  request :: string
  response :: "string option"
  response_sent :: nat

datatype input_effect =
    Write_Request string bool
  | Start_Control_Panel
  | Close_Fd int

record http_server =
  keys :: http_keys
  http_clients :: "e1_http_client list"
  http_listener :: bool
  effects :: "input_effect list"

text \<open>The outside world during one request.\<close>

record http_env =
  mode_file :: "string option"
  write_ok :: bool
  clock_ms :: u64

definition crlf :: string where "crlf = [CHR 0x0D, CHR 0x0A]"

definition http_ok_response :: string where
  "http_ok_response = ''HTTP/1.1 200 OK'' @ crlf @ ''Connection: close'' @ crlf @
     ''Cache-Control: no-store'' @ crlf @ ''Content-Type: text/plain; charset=utf-8'' @ crlf @
     crlf @ ''ok'' @ [CHR 0x0A]"

definition http_empty_response :: string where
  "http_empty_response = ''HTTP/1.1 204 No Content'' @ crlf @ ''Connection: close'' @ crlf @
     ''Cache-Control: no-store'' @ crlf @ crlf"

definition http_conflict_response :: string where
  "http_conflict_response = ''HTTP/1.1 409 Conflict'' @ crlf @ ''Connection: close'' @ crlf @
     ''Cache-Control: no-store'' @ crlf @ ''Content-Type: text/plain; charset=utf-8'' @ crlf @
     crlf @ ''transition unavailable'' @ [CHR 0x0A]"

definition http_not_found_response :: string where
  "http_not_found_response = ''HTTP/1.1 404 Not Found'' @ crlf @ ''Connection: close'' @ crlf @
     ''Content-Type: text/plain'' @ crlf @ crlf @ ''not found'' @ [CHR 0x0A]"

section \<open>The runtime state files\<close>

text \<open>A file that cannot be opened or read is \<open>None\<close>; the read takes at most
  \<open>capacity - 1\<close> bytes, and the mode ends at the first line break or terminator.\<close>

definition read_runtime_mode :: "nat \<Rightarrow> string option \<Rightarrow> string option" where
  "read_runtime_mode capacity file =
     (if capacity < 2 then None
      else case file of None \<Rightarrow> None
        | Some bytes \<Rightarrow>
            (let mode = take (capacity - 1) bytes;
                 line = takeWhile (\<lambda>c. c \<notin> {CHR 0x00, CHR 0x0D, CHR 0x0A}) mode
             in if mode = [] \<or> line = [] then None else Some line))"

definition mode_is :: "http_env \<Rightarrow> string \<Rightarrow> bool" where
  "mode_is env m \<longleftrightarrow> read_runtime_mode 32 (mode_file env) = Some m"

definition write_runtime_request :: "http_env \<Rightarrow> string \<Rightarrow> http_server \<Rightarrow> http_server \<times> bool" where
  "write_runtime_request env name s =
     (s\<lparr>effects := effects s @ [Write_Request name (write_ok env)]\<rparr>, write_ok env)"

section \<open>Requests\<close>

text \<open>The conversion \<open>%<n>s\<close> of \<open>sscanf\<close>: the token and the rest of the input.\<close>

definition scan_token :: "nat \<Rightarrow> string \<Rightarrow> string \<times> string" where
  "scan_token n s =
     (let rest = dropWhile isspace s;
          t = takeWhile (\<lambda>c. \<not> isspace c) (take n rest)
      in (t, drop (length t) rest))"

text \<open>\<open>sscanf(request, "%7s %255s %15s", ...)\<close>: the method and the path, when all three
  conversions succeed.\<close>

definition scan_request :: "string \<Rightarrow> (string \<times> string) option" where
  "scan_request req =
     (let (method, r1) = scan_token 7 (c_string req);
          (path, r2) = scan_token 255 r1;
          (version, _) = scan_token 15 r2
      in if method \<noteq> [] \<and> path \<noteq> [] \<and> version \<noteq> [] then Some (method, path) else None)"

definition http_set_response :: "nat \<Rightarrow> string \<Rightarrow> http_server \<Rightarrow> http_server" where
  "http_set_response i r s =
     s\<lparr>http_clients := (http_clients s)[i := (http_clients s ! i)
        \<lparr>response := Some r, response_sent := 0\<rparr>]\<rparr>"

definition http_set_text_response :: "nat \<Rightarrow> string \<Rightarrow> http_server \<Rightarrow> http_server" where
  "http_set_text_response i body s =
     (let text = ''HTTP/1.1 200 OK'' @ crlf @ ''Connection: close'' @ crlf @
            ''Cache-Control: no-store'' @ crlf @
            ''Content-Type: text/plain; charset=utf-8'' @ crlf @ crlf @ body @ [CHR 0x0A]
      in if length text \<ge> response_storage_size then http_set_response i http_not_found_response s
         else http_set_response i text s)"

definition apply_key :: "doomkeys \<Rightarrow> http_env \<Rightarrow> string \<Rightarrow> bool \<Rightarrow> http_server \<Rightarrow> http_server \<times> bool"
where
  "apply_key K env code down s =
     (let (k, ok) = http_apply_key K (clock_ms env) code down (keys s) in (s\<lparr>keys := k\<rparr>, ok))"

definition release_all :: "doomkeys \<Rightarrow> http_server \<Rightarrow> http_server" where
  "release_all K s = s\<lparr>keys := http_release_all K (keys s)\<rparr>"

definition route_start :: "bool \<Rightarrow> http_env \<Rightarrow> nat \<Rightarrow> http_server \<Rightarrow> http_server" where
  "route_start standalone env i s =
     (if \<not> mode_is env ''camera-armed'' then http_set_response i http_conflict_response s
      else let (s, ok) = write_runtime_request env
                  (if standalone then ''runtime.start'' else ''dashboard.start'') s
           in if ok then
                (let s = if standalone then s
                         else s\<lparr>effects := effects s @ [Start_Control_Panel]\<rparr>
                 in http_set_response i http_empty_response s)
              else http_set_response i http_conflict_response s)"

definition route_camera :: "doomkeys \<Rightarrow> http_env \<Rightarrow> nat \<Rightarrow> http_server \<Rightarrow> http_server" where
  "route_camera K env i s =
     (let s = release_all K s
      in if \<not> mode_is env ''doom'' then http_set_response i http_conflict_response s
         else let (s, ok) = write_runtime_request env ''dashboard.camera'' s
              in http_set_response i (if ok then http_empty_response else http_conflict_response) s)"

definition route_key :: "doomkeys \<Rightarrow> http_env \<Rightarrow> nat \<Rightarrow> string \<Rightarrow> bool \<Rightarrow> http_server \<Rightarrow> http_server" where
  "route_key K env i code down s =
     (if \<not> mode_is env ''doom'' then http_set_response i http_not_found_response s
      else let (s, ok) = apply_key K env code down s
           in http_set_response i (if ok then http_empty_response else http_not_found_response) s)"

definition route_path ::
    "doomkeys \<Rightarrow> bool \<Rightarrow> string \<Rightarrow> http_env \<Rightarrow> nat \<Rightarrow> string \<Rightarrow> http_server \<Rightarrow> http_server" where
  "route_path K standalone page env i path s =
     (if path = ''/'' \<or> path = ''/index.html'' then http_set_response i page s
      else if path = ''/health'' then http_set_response i http_ok_response s
      else if path = ''/mode'' then
        http_set_text_response i (case read_runtime_mode 32 (mode_file env) of
          Some mode \<Rightarrow> mode | None \<Rightarrow> ''unknown'') s
      else if path = ''/start'' then route_start standalone env i s
      else if path = ''/camera'' then route_camera K env i s
      else if path = ''/heartbeat'' then
        http_set_response i http_empty_response
          (s\<lparr>keys := (keys s)\<lparr>http_last_activity_ms := clock_ms env\<rparr>\<rparr>)
      else if path = ''/release-all'' then
        http_set_response i http_empty_response (release_all K s)
      else if take 6 path = ''/down/'' then route_key K env i (drop 6 path) True s
      else if take 4 path = ''/up/'' then route_key K env i (drop 4 path) False s
      else http_set_response i http_not_found_response s)"

definition http_route_request ::
    "doomkeys \<Rightarrow> bool \<Rightarrow> string \<Rightarrow> http_env \<Rightarrow> nat \<Rightarrow> http_server \<Rightarrow> http_server" where
  "http_route_request K standalone page env i s =
     (case scan_request (request (http_clients s ! i)) of
        None \<Rightarrow> http_set_response i http_not_found_response s
      | Some (method, path) \<Rightarrow>
          if method \<noteq> ''GET'' then http_set_response i http_not_found_response s
          else route_path K standalone page env i path s)"

section \<open>Polling\<close>

datatype 'a io = Again | Failed | Got 'a

text \<open>What the client sockets do during one poll, by slot.\<close>

record poll_script =
  sends :: "nat \<Rightarrow> nat io"
  recvs :: "nat \<Rightarrow> string io"
  envs :: "nat \<Rightarrow> http_env"

definition closed_client :: e1_http_client where
  "closed_client = \<lparr>fd = -1, request = [], response = None, response_sent = 0\<rparr>"

definition close_http_client :: "nat \<Rightarrow> http_server \<Rightarrow> http_server" where
  "close_http_client i s =
     s\<lparr>effects := effects s @
          (if fd (http_clients s ! i) \<ge> 0 then [Close_Fd (fd (http_clients s ! i))] else []),
       http_clients := (http_clients s)[i := closed_client]\<rparr>"

definition poll_send :: "nat io \<Rightarrow> nat \<Rightarrow> string \<Rightarrow> http_server \<Rightarrow> http_server" where
  "poll_send io i text s =
     (let c = http_clients s ! i; remaining = length text - response_sent c
      in case io of Again \<Rightarrow> s
         | Failed \<Rightarrow> close_http_client i s
         | Got n \<Rightarrow>
             (let count = min n remaining
              in if count = 0 then close_http_client i s
                 else let s = s\<lparr>http_clients := (http_clients s)[i := c
                                \<lparr>response_sent := response_sent c + count\<rparr>]\<rparr>
                      in if response_sent c + count = length text
                         then close_http_client i s else s))"

definition poll_recv ::
    "doomkeys \<Rightarrow> bool \<Rightarrow> string \<Rightarrow> string io \<Rightarrow> http_env \<Rightarrow> nat \<Rightarrow> http_server \<Rightarrow> http_server" where
  "poll_recv K standalone page io env i s =
     (let c = http_clients s ! i
      in case io of Again \<Rightarrow> s
         | Failed \<Rightarrow> close_http_client i s
         | Got bytes \<Rightarrow>
             (let data = take (E1_HTTP_REQUEST_SIZE - length (request c) - 1) bytes
              in if data = [] then close_http_client i s
                 else let req = request c @ data;
                          s = s\<lparr>http_clients := (http_clients s)[i := c\<lparr>request := req\<rparr>]\<rparr>
                      in if CHR 0x0A \<in> set (c_string req) \<or>
                            length req + 1 = E1_HTTP_REQUEST_SIZE
                         then http_route_request K standalone page env i s else s))"

definition poll_http_client ::
    "doomkeys \<Rightarrow> bool \<Rightarrow> string \<Rightarrow> poll_script \<Rightarrow> nat \<Rightarrow> http_server \<Rightarrow> http_server" where
  "poll_http_client K standalone page io i s =
     (if fd (http_clients s ! i) < 0 then s
      else case response (http_clients s ! i) of
          Some text \<Rightarrow> poll_send (sends io i) i text s
        | None \<Rightarrow> poll_recv K standalone page (recvs io i) (envs io i) i s)"

definition poll_http_clients ::
    "doomkeys \<Rightarrow> bool \<Rightarrow> string \<Rightarrow> poll_script \<Rightarrow> http_server \<Rightarrow> http_server" where
  "poll_http_clients K standalone page io s =
     fold (poll_http_client K standalone page io) [0..<E1_HTTP_MAX_CLIENTS] s"

text \<open>The results of the \<open>accept\<close> calls: no connection, an error, or a descriptor and whether
  its flags could be set.\<close>

datatype accepted = Accept_None | Accept_Fd nat bool

fun first_free :: "e1_http_client list \<Rightarrow> nat option" where
  "first_free [] = None"
| "first_free (c # cs) = (if fd c < 0 then Some 0 else map_option Suc (first_free cs))"

definition place_client :: "int \<Rightarrow> http_server \<Rightarrow> http_server" where
  "place_client f s =
     (case first_free (http_clients s) of
        Some i \<Rightarrow> s\<lparr>http_clients := (http_clients s)[i := (http_clients s ! i)\<lparr>fd := f\<rparr>]\<rparr>
      | None \<Rightarrow> s\<lparr>effects := effects s @ [Close_Fd f]\<rparr>)"

fun accept_loop :: "accepted list \<Rightarrow> http_server \<Rightarrow> http_server" where
  "accept_loop [] s = s"
| "accept_loop (Accept_None # as) s = s"
| "accept_loop (Accept_Fd f flags_ok # as) s =
     (if \<not> flags_ok then accept_loop as (s\<lparr>effects := effects s @ [Close_Fd (int f)]\<rparr>)
      else accept_loop as (place_client (int f) s))"

definition poll_http_listener ::
    "doomkeys \<Rightarrow> bool \<Rightarrow> string \<Rightarrow> accepted list \<Rightarrow> poll_script \<Rightarrow> http_server \<Rightarrow> http_server" where
  "poll_http_listener K standalone page as io s =
     (if \<not> http_listener s then s
      else poll_http_clients K standalone page io
             (accept_loop (take E1_HTTP_MAX_CLIENTS as) s))"

text \<open>\<open>close_http_server\<close>; the descriptor of the listener itself is not tracked.\<close>

definition close_http_server :: "http_server \<Rightarrow> http_server" where
  "close_http_server s =
     fold close_http_client [0..<E1_HTTP_MAX_CLIENTS] (s\<lparr>http_listener := False\<rparr>)"

section \<open>Starting the server\<close>

text \<open>\<open>strtol\<close> in base ten: the value and what is left. The range of \<open>long\<close> is wider than the
  ports the code accepts, so saturation cannot change the outcome.\<close>

definition strtol_10 :: "string \<Rightarrow> (int \<times> string) option" where
  "strtol_10 s =
     (let s = dropWhile isspace s;
          (neg, s) = (case s of c # cs \<Rightarrow> if c = CHR ''-'' then (True, cs)
                                         else if c = CHR ''+'' then (False, cs) else (False, s)
                      | [] \<Rightarrow> (False, s));
          ds = takeWhile digit s
      in if ds = [] then None
         else Some ((if neg then - atoi_from 0 ds else atoi_from 0 ds), drop (length ds) s))"

text \<open>The port of the environment, or the default; \<open>None\<close> when it is malformed.\<close>

definition E1_HTTP_DEFAULT_PORT :: int where [e1_consts]: "E1_HTTP_DEFAULT_PORT = 666"

definition configured_port :: "string option \<Rightarrow> int option" where
  "configured_port port_env =
     (case port_env of None \<Rightarrow> Some E1_HTTP_DEFAULT_PORT
      | Some text \<Rightarrow>
          (case strtol_10 text of None \<Rightarrow> None
           | Some (parsed, rest) \<Rightarrow>
               if rest \<noteq> [] \<or> parsed < 0 \<or> parsed > 65535 then None else Some parsed))"

text \<open>The listening socket opens, takes its flags, and binds and listens, or not.\<close>

definition init_http_server ::
    "string option \<Rightarrow> bool \<Rightarrow> bool \<Rightarrow> bool \<Rightarrow> http_server \<Rightarrow> http_server" where
  "init_http_server port_env socket_ok flags_ok bind_ok s =
     (let s = s\<lparr>http_clients := map (\<lambda>c. c\<lparr>fd := -1\<rparr>) (http_clients s)\<rparr>
      in case configured_port port_env of
           None \<Rightarrow> s
         | Some port \<Rightarrow>
             if port = 0 \<or> \<not> socket_ok then s
             else if \<not> flags_ok \<or> \<not> bind_ok
             then close_http_server (s\<lparr>http_listener := True\<rparr>)
             else s\<lparr>http_listener := True\<rparr>)"

text \<open>The storage before the first call is zero, descriptors included.\<close>

definition http_server_zero :: http_server where
  "http_server_zero = \<lparr>keys = http_keys_zero,
     http_clients = replicate E1_HTTP_MAX_CLIENTS
       \<lparr>fd = 0, request = [], response = None, response_sent = 0\<rparr>,
     http_listener = False, effects = []\<rparr>"

section \<open>Well-formed servers\<close>

text \<open>
  The bytes of a request and its terminator fit the buffer; while no response is set there is
  room for at least one more byte, so \<open>recv\<close> is never asked for none; a response is not
  overrun; a free slot is blank, so a new connection never sees the bytes of an old one.
\<close>

definition client_ok :: "e1_http_client \<Rightarrow> bool" where
  "client_ok c \<longleftrightarrow> length (request c) < E1_HTTP_REQUEST_SIZE \<and>
     (response c = None \<longrightarrow> length (request c) + 1 < E1_HTTP_REQUEST_SIZE \<and> response_sent c = 0) \<and>
     (\<forall>t. response c = Some t \<longrightarrow> response_sent c \<le> length t) \<and>
     (fd c < 0 \<longrightarrow> c = closed_client)"

definition wf_server :: "doomkeys \<Rightarrow> http_server \<Rightarrow> bool" where
  "wf_server K s \<longleftrightarrow> length (http_clients s) = E1_HTTP_MAX_CLIENTS \<and>
     (\<forall>c \<in> set (http_clients s). client_ok c) \<and> wf_keys K (keys s)"

lemma wf_update_client:
  assumes "wf_server K s" and "client_ok c" and "wf_keys K k"
  shows "wf_server K (s\<lparr>keys := k, http_clients := (http_clients s)[i := c], effects := e\<rparr>)"
  using assms set_update_subset_insert [of "http_clients s" i c] by (auto simp: wf_server_def)

lemma closed_ok [simp]: "client_ok closed_client"
  by (simp add: client_ok_def closed_client_def E1_HTTP_REQUEST_SIZE_def)

lemma wf_close: "wf_server K s \<Longrightarrow> wf_server K (close_http_client i s)"
  using wf_update_client [where K = K and c = closed_client and k = "keys s" and s = s and i = i]
  by (simp add: close_http_client_def wf_server_def)

text \<open>What a request can do to the keys.\<close>

definition route_keys :: "doomkeys \<Rightarrow> http_env \<Rightarrow> http_keys \<Rightarrow> http_keys \<Rightarrow> bool" where
  "route_keys K env k k' \<longleftrightarrow> k' = k \<or> k' = k\<lparr>http_last_activity_ms := clock_ms env\<rparr> \<or>
     k' = http_release_all K k \<or>
     mode_is env ''doom'' \<and> (\<exists>code down. k' = fst (http_apply_key K (clock_ms env) code down k))"

definition responded ::
    "http_server \<Rightarrow> nat \<Rightarrow> string \<Rightarrow> http_keys \<Rightarrow> input_effect list \<Rightarrow> http_server" where
  "responded s i r k e = s\<lparr>keys := k, http_clients := (http_clients s)[i :=
     (http_clients s ! i)\<lparr>response := Some r, response_sent := 0\<rparr>], effects := e\<rparr>"

lemma set_response_shape:
  "http_set_response i r s = responded s i r (keys s) (effects s)"
  by (simp add: http_set_response_def responded_def)

lemma responded_over:
  "responded (s\<lparr>keys := k'\<rparr>) i r k e = responded s i r k e"
  "responded (s\<lparr>effects := e'\<rparr>) i r k e = responded s i r k e"
  by (simp_all add: responded_def)

lemmas response_shape = set_response_shape responded_over

text \<open>The descriptors that were closed, and those of the slots in use.\<close>

fun closed_fds :: "input_effect list \<Rightarrow> int multiset" where
  "closed_fds [] = {#}"
| "closed_fds (Close_Fd f # es) = add_mset f (closed_fds es)"
| "closed_fds (_ # es) = closed_fds es"

lemma closed_fds_append [simp]: "closed_fds (es @ fs) = closed_fds es + closed_fds fs"
  by (induction es rule: closed_fds.induct) simp_all

definition open_fds :: "e1_http_client list \<Rightarrow> int multiset" where
  "open_fds cs = filter_mset (\<lambda>f. 0 \<le> f) (mset (map fd cs))"

text \<open>A request leaves one response in its slot, closes nothing and does one of these things to the keys.\<close>

definition routed :: "doomkeys \<Rightarrow> http_env \<Rightarrow> nat \<Rightarrow> http_server \<Rightarrow> http_server \<Rightarrow> bool" where
  "routed K env i s s' \<longleftrightarrow>
     (\<exists>r k e. s' = responded s i r k e \<and> route_keys K env (keys s) k \<and>
        closed_fds e = closed_fds (effects s))"

lemma routedI: "s' = responded s i r k e \<Longrightarrow> route_keys K env (keys s) k \<Longrightarrow>
    closed_fds e = closed_fds (effects s) \<Longrightarrow> routed K env i s s'"
  unfolding routed_def by blast

lemma routed_if: "routed K env i s a \<Longrightarrow> routed K env i s b \<Longrightarrow> routed K env i s (if c then a else b)"
  by simp

lemma route_keys_simps [simp]:
  "route_keys K env k k"
  "route_keys K env k (http_release_all K k)"
  "route_keys K env k (k\<lparr>http_last_activity_ms := clock_ms env\<rparr>)"
  by (simp_all add: route_keys_def)

lemma routed_key: "routed K env i s (route_key K env i code down s)"
proof (cases "mode_is env ''doom''")
  case True
  obtain k ok where r: "http_apply_key K (clock_ms env) code down (keys s) = (k, ok)" by force
  then have "route_keys K env (keys s) k"
    using True unfolding route_keys_def by (metis fst_conv)
  moreover have "route_key K env i code down s = responded s i
      (if ok then http_empty_response else http_not_found_response) k (effects s)"
    using True r by (simp add: route_key_def apply_key_def response_shape)
  ultimately show ?thesis by (simp add: routedI)
next
  case False
  then have "route_key K env i code down s =
      responded s i http_not_found_response (keys s) (effects s)"
    by (simp add: route_key_def response_shape)
  then show ?thesis by (simp add: routedI)
qed

lemma routed_start: "routed K env i s (route_start standalone env i s)"
  unfolding route_start_def write_runtime_request_def Let_def response_shape prod.case
  by (cases standalone) (simp_all add: response_shape routedI [OF refl])

lemma routed_camera: "routed K env i s (route_camera K env i s)"
  unfolding route_camera_def write_runtime_request_def release_all_def Let_def response_shape
    prod.case
  by (simp add: response_shape routedI [OF refl])

lemma routed_text: "routed K env i s (http_set_text_response i b s)"
  unfolding http_set_text_response_def Let_def response_shape
  by (simp add: routedI [OF refl])

lemma routed_response: "routed K env i s (http_set_response i r s)"
  unfolding response_shape by (simp add: response_shape routedI [OF refl])

lemma routed_path: "routed K env i s (route_path K standalone page env i path s)"
proof -
  have "routed K env i s (http_set_response i r (release_all K s))" for r
    unfolding release_all_def response_shape by (simp add: response_shape routedI [OF refl])
  moreover have "routed K env i s (http_set_response i r
      (s\<lparr>keys := (keys s)\<lparr>http_last_activity_ms := clock_ms env\<rparr>\<rparr>))" for r
    unfolding response_shape by (simp add: response_shape routedI [OF refl])
  ultimately show ?thesis
    unfolding route_path_def
    by (intro routed_if routed_start routed_camera routed_text routed_key routed_response)
qed

lemma routed_request: "routed K env i s (http_route_request K standalone page env i s)"
  unfolding http_route_request_def
  by (simp add: routed_response routed_path split: option.split prod.split)

lemma wf_route_keys: "wf_keys K k \<Longrightarrow> route_keys K env k k' \<Longrightarrow> wf_keys K k'"
proof -
  assume wf: "wf_keys K k" and "route_keys K env k k'"
  then consider "k' = k" | "k' = k\<lparr>http_last_activity_ms := clock_ms env\<rparr>"
    | "k' = http_release_all K k"
    | code down where "k' = fst (http_apply_key K (clock_ms env) code down k)"
    by (auto simp: route_keys_def)
  then show "wf_keys K k'"
  proof cases
    case 2
    with wf show ?thesis by (simp add: wf_keys_def)
  qed (use wf release_all_spec [OF wf] apply_key_spec [OF wf surjective_pairing] in auto)
qed

section \<open>One poll keeps the server well-formed and leaks no descriptor\<close>

definition fds_from :: "http_server \<Rightarrow> int multiset" where
  "fds_from s = open_fds (http_clients s) + closed_fds (effects s)"

text \<open>Replacing the client of a slot.\<close>

lemma open_fds_update:
  assumes "i < length cs"
  shows "open_fds (cs[i := c]) + (if 0 \<le> fd (cs ! i) then {#fd (cs ! i)#} else {#}) =
    open_fds cs + (if 0 \<le> fd c then {#fd c#} else {#})"
proof -
  have "mset ((map fd cs)[i := fd c]) + {#map fd cs ! i#} = mset (map fd cs) + {#fd c#}"
    using assms by (subst mset_update) (simp_all del: mset_map)
  then have "filter_mset (\<lambda>f. 0 \<le> f) (mset (map fd (cs[i := c])) + {#fd (cs ! i)#}) =
      filter_mset (\<lambda>f. 0 \<le> f) (mset (map fd cs) + {#fd c#})"
    using assms by (simp only: map_update nth_map)
  then show ?thesis by (simp only: open_fds_def filter_union_mset filter_single_mset)
qed

definition poll_keeps :: "doomkeys \<Rightarrow> http_server \<Rightarrow> http_server \<Rightarrow> bool" where
  "poll_keeps K s s' \<longleftrightarrow> wf_server K s' \<and> fds_from s' = fds_from s"

lemma slot_ok: "wf_server K s \<Longrightarrow> i < E1_HTTP_MAX_CLIENTS \<Longrightarrow>
   client_ok (http_clients s ! i) \<and> i < length (http_clients s)"
  by (simp add: wf_server_def)

lemma close_keeps:
  assumes "wf_server K s" and "i < E1_HTTP_MAX_CLIENTS"
  shows "poll_keeps K s (close_http_client i s)"
proof -
  from assms slot_ok have "i < length (http_clients s)" by blast
  from open_fds_update [OF this, of closed_client] wf_close [OF assms(1), of i]
  show ?thesis
    by (auto simp: poll_keeps_def fds_from_def close_http_client_def closed_client_def
        split: if_splits)
qed

text \<open>Updating a client in place, its descriptor unchanged.\<close>

lemma update_keeps:
  assumes wf: "wf_server K s" and i: "i < E1_HTTP_MAX_CLIENTS" and "client_ok c"
    and fd: "fd c = fd (http_clients s ! i)" and "wf_keys K k"
    and "closed_fds e = closed_fds (effects s)"
  shows "poll_keeps K s (s\<lparr>keys := k, http_clients := (http_clients s)[i := c], effects := e\<rparr>)"
proof -
  from wf i slot_ok have "i < length (http_clients s)" by blast
  from open_fds_update [OF this, of c] wf_update_client [OF wf \<open>client_ok c\<close> \<open>wf_keys K k\<close>] fd assms(6)
  show ?thesis by (simp add: poll_keeps_def fds_from_def split: if_splits)
qed

lemma keeps_trans: "poll_keeps K s s' \<Longrightarrow> poll_keeps K s' s'' \<Longrightarrow> poll_keeps K s s''"
  by (simp add: poll_keeps_def)

lemma keeps_refl: "wf_server K s \<Longrightarrow> poll_keeps K s s"
  by (simp add: poll_keeps_def)

lemma send_keeps:
  assumes wf: "wf_server K s" and i: "i < E1_HTTP_MAX_CLIENTS"
    and used: "0 \<le> fd (http_clients s ! i)" and resp: "response (http_clients s ! i) = Some text"
  shows "poll_keeps K s (poll_send io i text s)"
proof (cases io)
  case (Got n)
  let ?c = "http_clients s ! i"
  let ?count = "min n (length text - response_sent ?c)"
  let ?s1 = "s\<lparr>http_clients := (http_clients s)[i := ?c\<lparr>response_sent := response_sent ?c + ?count\<rparr>]\<rparr>"
  from slot_ok [OF wf i] have ok: "client_ok ?c" by simp
  then have "client_ok (?c\<lparr>response_sent := response_sent ?c + ?count\<rparr>)"
    using used resp by (auto simp: client_ok_def)
  from update_keeps [OF wf i this, of "keys s" "effects s"] wf
  have keep: "poll_keeps K s ?s1" by (simp add: wf_server_def)
  then have "wf_server K ?s1" by (simp add: poll_keeps_def)
  from keeps_trans [OF keep close_keeps [OF this i]] keep close_keeps [OF wf i] Got
  show ?thesis unfolding poll_send_def Let_def by (simp only: io.case if_split) blast
qed (use close_keeps [OF wf i] keeps_refl [OF wf] in \<open>simp_all add: poll_send_def Let_def\<close>)

lemma recv_keeps:
  assumes wf: "wf_server K s" and i: "i < E1_HTTP_MAX_CLIENTS"
    and used: "0 \<le> fd (http_clients s ! i)" and none: "response (http_clients s ! i) = None"
  shows "poll_keeps K s (poll_recv K standalone page io env i s)"
proof (cases io)
  case (Got bytes)
  let ?c = "http_clients s ! i"
  let ?data = "take (E1_HTTP_REQUEST_SIZE - length (request ?c) - 1) bytes"
  let ?c1 = "?c\<lparr>request := request ?c @ ?data\<rparr>"
  let ?s1 = "s\<lparr>http_clients := (http_clients s)[i := ?c1]\<rparr>"
  from slot_ok [OF wf i] have ok: "client_ok ?c" and len: "i < length (http_clients s)" by simp_all
  with none have room: "length (request ?c) + 1 < E1_HTTP_REQUEST_SIZE" by (simp add: client_ok_def)
  then have size: "length (request ?c1) < E1_HTTP_REQUEST_SIZE" by simp
  have "poll_keeps K s (http_route_request K standalone page env i ?s1)"
  proof -
    obtain r k e where route: "http_route_request K standalone page env i ?s1 = responded ?s1 i r k e"
      and k: "route_keys K env (keys s) k" and e: "closed_fds e = closed_fds (effects s)"
      using routed_request [of K env i ?s1 standalone page] by (auto simp: routed_def)
    let ?c2 = "?c1\<lparr>response := Some r, response_sent := 0\<rparr>"
    have "responded ?s1 i r k e =
        s\<lparr>keys := k, http_clients := (http_clients s)[i := ?c2], effects := e\<rparr>"
      using len by (simp add: responded_def)
    moreover have "client_ok ?c2" using size used by (simp add: client_ok_def)
    moreover have "wf_keys K k" using wf_route_keys [OF _ k] wf by (simp add: wf_server_def)
    ultimately show ?thesis using update_keeps [OF wf i, of ?c2 k e] route e by simp
  qed
  moreover have "poll_keeps K s ?s1" if "length (request ?c1) + 1 \<noteq> E1_HTTP_REQUEST_SIZE"
  proof -
    have "client_ok ?c1" using ok size used that none by (auto simp: client_ok_def)
    from update_keeps [OF wf i this, of "keys s" "effects s"] wf show ?thesis
      by (simp add: wf_server_def)
  qed
  ultimately show ?thesis using close_keeps [OF wf i] Got
    by (simp add: poll_recv_def Let_def)
qed (use close_keeps [OF wf i] keeps_refl [OF wf] in \<open>simp_all add: poll_recv_def Let_def\<close>)

lemma poll_client_keeps:
  "wf_server K s \<Longrightarrow> i < E1_HTTP_MAX_CLIENTS \<Longrightarrow>
   poll_keeps K s (poll_http_client K standalone page io i s)"
  by (auto simp: poll_http_client_def not_less intro: keeps_refl send_keeps recv_keeps
      split: option.split)

lemma poll_clients_keep:
  assumes "wf_server K s"
  shows "poll_keeps K s (poll_http_clients K standalone page io s)"
  unfolding poll_http_clients_def
proof (rule fold_invariant [where Q = "\<lambda>i. i < E1_HTTP_MAX_CLIENTS"])
  show "poll_keeps K s s" by (rule keeps_refl [OF assms])
next
  fix i s'
  assume "i < E1_HTTP_MAX_CLIENTS" and keep: "poll_keeps K s s'"
  then have "wf_server K s'" by (simp add: poll_keeps_def)
  from keeps_trans [OF keep poll_client_keeps [OF this \<open>i < E1_HTTP_MAX_CLIENTS\<close>]]
  show "poll_keeps K s (poll_http_client K standalone page io i s')" .
qed simp

lemma first_free_some: "first_free cs = Some i \<Longrightarrow> i < length cs \<and> fd (cs ! i) < 0"
  by (induction cs arbitrary: i) (auto split: if_splits)

lemma place_keeps:
  assumes wf: "wf_server K s"
  shows "wf_server K (place_client (int f) s) \<and>
    fds_from (place_client (int f) s) = fds_from s + {#int f#}"
proof (cases "first_free (http_clients s)")
  case None
  with wf show ?thesis by (simp add: place_client_def wf_server_def fds_from_def)
next
  case (Some i)
  let ?c = "(http_clients s ! i)\<lparr>fd := int f\<rparr>"
  from first_free_some [OF Some] have i: "i < length (http_clients s)" "fd (http_clients s ! i) < 0"
    by simp_all
  with wf have "client_ok (http_clients s ! i)" by (simp add: wf_server_def)
  with i have "http_clients s ! i = closed_client" by (simp add: client_ok_def)
  then have "client_ok ?c"
    by (simp add: client_ok_def closed_client_def E1_HTTP_REQUEST_SIZE_def)
  from wf_update_client [OF wf this, where k = "keys s" and i = i and e = "effects s"] wf open_fds_update [OF i(1), of ?c] i(2)
  show ?thesis by (simp add: place_client_def Some fds_from_def wf_server_def)
qed

text \<open>The connections a run of \<open>accept\<close> calls returns.\<close>

fun connections :: "accepted list \<Rightarrow> int multiset" where
  "connections [] = {#}"
| "connections (Accept_None # as) = {#}"
| "connections (Accept_Fd f ok # as) = add_mset (int f) (connections as)"

lemma accept_keeps:
  "wf_server K s \<Longrightarrow> wf_server K (accept_loop as s) \<and>
   fds_from (accept_loop as s) = fds_from s + connections as"
proof (induction as s rule: accept_loop.induct)
  case (3 f flags_ok as s)
  let ?s1 = "if flags_ok then place_client (int f) s else s\<lparr>effects := effects s @ [Close_Fd (int f)]\<rparr>"
  have "wf_server K ?s1 \<and> fds_from ?s1 = fds_from s + {#int f#}"
    using place_keeps [OF 3(3)] 3(3) by (simp add: wf_server_def fds_from_def)
  with 3 show ?case by (cases flags_ok) simp_all
qed simp_all

lemma listener_keeps:
  assumes "wf_server K s"
  shows "wf_server K (poll_http_listener K standalone page as io s) \<and>
    fds_from (poll_http_listener K standalone page as io s) = fds_from s +
      (if http_listener s then connections (take E1_HTTP_MAX_CLIENTS as) else {#})"
  using assms accept_keeps [OF assms, of "take E1_HTTP_MAX_CLIENTS as"] poll_clients_keep
  by (auto simp: poll_http_listener_def poll_keeps_def)

interpretation http_poll: event_machine
    "\<lambda>(as, io). poll_http_listener K standalone page as io" "wf_server K"
  by unfold_locales (auto simp: listener_keeps)

lemma server_zero_wf: "wf_server K (init_http_server port_env so fl bi http_server_zero)"
proof -
  let ?s = "http_server_zero\<lparr>http_clients := map (\<lambda>c. c\<lparr>fd := -1\<rparr>) (http_clients http_server_zero)\<rparr>"
  have wf: "wf_server K ?s"
    using keys_zero_wf [of K]
    by (simp add: http_server_zero_def wf_server_def client_ok_def closed_client_def
        E1_HTTP_REQUEST_SIZE_def E1_HTTP_MAX_CLIENTS_def)
  then have wf1: "wf_server K (?s\<lparr>http_listener := b\<rparr>)" for b by (simp add: wf_server_def)
  have "wf_server K (close_http_server (?s\<lparr>http_listener := True\<rparr>))"
    unfolding close_http_server_def
    by (rule fold_invariant [where Q = "\<lambda>_. True"]) (use wf1 wf_close in \<open>auto simp: wf_server_def\<close>)
  with wf wf1 show ?thesis
    by (simp add: init_http_server_def Let_def split: option.split)
qed

text \<open>C12. Memory safety of the HTTP server. From initialisation, whatever the sockets deliver in
  any number of polls, a request and its terminator stay within the 1024-byte buffer, \<open>recv\<close> is
  asked for at least one byte whenever it is called, no response is sent past its end, a slot
  without a connection is blank, and the key table and the game stay in step.\<close>

theorem http_server_safe:
  "wf_server K (fold (\<lambda>(as, io). poll_http_listener K standalone page as io) polls
     (init_http_server port_env so fl bi http_server_zero))"
  by (rule http_poll.run_inv) (rule server_zero_wf)

text \<open>No descriptor is leaked. In one poll of a well-formed server, the descriptors of the
  slots and the closed ones are together those from before the poll and those accepted in it,
  each exactly as often; without a listening socket nothing changes hands.\<close>

theorem http_fds_conserved:
  assumes "wf_server K s"
  shows "open_fds (http_clients (poll_http_listener K standalone page as io s)) +
      closed_fds (effects (poll_http_listener K standalone page as io s)) =
    open_fds (http_clients s) + closed_fds (effects s) +
      (if http_listener s then connections (take E1_HTTP_MAX_CLIENTS as) else {#})"
  using listener_keeps [OF assms, of standalone page as io] by (simp add: fds_from_def)

text \<open>One connection is accepted and stays silent.\<close>

definition silent_env :: http_env where
  "silent_env = \<lparr>mode_file = None, write_ok = False, clock_ms = 0\<rparr>"

definition silent :: poll_script where
  "silent = \<lparr>sends = \<lambda>_. Again, recvs = \<lambda>_. Again, envs = \<lambda>_. silent_env\<rparr>"

definition fresh_server :: http_server where
  "fresh_server = init_http_server None True True True http_server_zero"

definition demo_doomkeys :: doomkeys where
  "demo_doomkeys = \<lparr>NUMKEYS = 256, KEY_RIGHTARROW = 174, KEY_LEFTARROW = 172, KEY_UPARROW = 173,
     KEY_DOWNARROW = 175, KEY_ESCAPE = 27, KEY_ENTER = 13, KEY_TAB = 9, KEY_BACKSPACE = 127,
     KEY_RSHIFT = 182, KEY_RCTRL = 157, KEY_RALT = 184, KEY_CAPSLOCK = 186, KEY_HOME = 199,
     KEY_END = 207, KEY_PGUP = 201, KEY_PGDN = 209, KEY_INS = 210, KEY_DEL = 211,
     KEY_PAUSE = 255, KEY_F1 = 187\<rparr>"

lemma http_fds_conserved_witness:
  "open_fds (http_clients (poll_http_listener demo_doomkeys False ''page'' [Accept_Fd 7 True]
      silent fresh_server)) +
    closed_fds (effects (poll_http_listener demo_doomkeys False ''page'' [Accept_Fd 7 True]
      silent fresh_server)) = {#7#}"
proof -
  have "wf_server demo_doomkeys fresh_server" unfolding fresh_server_def by (rule server_zero_wf)
  from http_fds_conserved [OF this, of False "''page''" "[Accept_Fd 7 True]" silent]
  show ?thesis
    by (simp add: fresh_server_def init_http_server_def http_server_zero_def configured_port_def
        E1_HTTP_DEFAULT_PORT_def E1_HTTP_MAX_CLIENTS_def open_fds_def)
qed

section \<open>Requests from the first byte to the key\<close>

lemma scan_token_word:
  assumes "t \<noteq> []" and "\<forall>c \<in> set t. \<not> isspace c" and "length t \<le> n" and "isspace c"
  shows "scan_token n (t @ c # rest) = (t, c # rest)"
proof -
  have skip: "dropWhile isspace (t @ c # rest) = t @ c # rest"
    using assms(1,2) by (cases t) simp_all
  have "takeWhile (\<lambda>c. \<not> isspace c) (take n (t @ c # rest)) = t"
    using assms by (cases "n - length t") (simp_all add: takeWhile_append)
  then show ?thesis by (simp add: scan_token_def skip Let_def)
qed

lemma scan_token_blank: "isspace c \<Longrightarrow> scan_token n (c # s) = scan_token n s"
  by (simp add: scan_token_def)

definition plain :: "string \<Rightarrow> bool" where
  "plain s \<longleftrightarrow> (\<forall>c \<in> set s. \<not> isspace c \<and> c \<noteq> CHR 0x00)"

definition get_request :: "string \<Rightarrow> string" where
  "get_request path = ''GET '' @ path @ '' HTTP/1.1'' @ crlf @ crlf"

lemma scan_get_request:
  assumes "path \<noteq> []" and "plain path" and "length path \<le> 255"
  shows "scan_request (get_request path) = Some (''GET'', path)"
proof -
  let ?tail = "'' HTTP/1.1'' @ crlf @ crlf"
  have c: "c_string (get_request path) = ''GET'' @ CHR '' '' # path @ ?tail"
    using assms(2) by (auto simp: c_string_def get_request_def crlf_def plain_def takeWhile_append)
  have 1: "scan_token 7 (''GET'' @ CHR '' '' # path @ ?tail) = (''GET'', CHR '' '' # path @ ?tail)"
    by (rule scan_token_word) (auto simp: isspace_def)
  have 2: "scan_token 255 (CHR '' '' # path @ ?tail) = (path, ?tail)"
    using scan_token_word [of path 255 "CHR '' ''" "''HTTP/1.1'' @ crlf @ crlf"] assms
    by (simp add: scan_token_blank isspace_def plain_def)
  have 3: "fst (scan_token 15 ?tail) \<noteq> []"
    by (simp add: scan_token_def isspace_def crlf_def Let_def)
  show ?thesis
    using assms(1) 3 unfolding scan_request_def c Let_def
    by (simp add: 1 2 case_prod_unfold del: append.simps(2))
qed

lemma newline_in_request: "plain path \<Longrightarrow> CHR 0x0A \<in> set (c_string (get_request path))"
  by (auto simp: c_string_def get_request_def crlf_def plain_def takeWhile_append)

lemma mode_doom: "mode_is env ''doom'' \<longleftrightarrow> read_runtime_mode 32 (mode_file env) = Some ''doom''"
  by (simp add: mode_is_def)

lemma down_request:
  assumes wf: "wf_server K s" and i: "i < E1_HTTP_MAX_CLIENTS"
    and used: "0 \<le> fd (http_clients s ! i)" "response (http_clients s ! i) = None"
      "request (http_clients s ! i) = []"
    and code: "plain code" "accepts K (held_set (http_held_codes (keys s))) code"
    and recv: "recvs io i = Got (get_request (''/down/'' @ code))"
    and mode: "mode_is (envs io i) ''doom''"
  shows "response (http_clients (poll_http_client K standalone page io i s) ! i) =
      Some http_empty_response" (is ?response)
    and "wf_keys K (keys (poll_http_client K standalone page io i s))" (is ?wf)
    and "held_set (http_held_codes (keys (poll_http_client K standalone page io i s))) =
      insert code (held_set (http_held_codes (keys s)))" (is ?held)
    and "http_last_activity_ms (keys (poll_http_client K standalone page io i s)) =
      clock_ms (envs io i)" (is ?clock)
proof -
  let ?path = "''/down/'' @ code" and ?c = "http_clients s ! i"
  let ?req = "get_request ?path"
  from code have "length code < E1_HTTP_CODE_SIZE" by (simp add: accepts_def valid_code_def)
  then have size: "length ?req \<le> 64" and len: "length ?path \<le> 255"
    by (simp_all add: get_request_def crlf_def E1_HTTP_CODE_SIZE_def)
  from code have plain: "plain ?path" by (auto simp: plain_def isspace_def)
  from wf i have il: "i < length (http_clients s)" by (simp add: wf_server_def)
  let ?s1 = "s\<lparr>http_clients := (http_clients s)[i := ?c\<lparr>request := ?req\<rparr>]\<rparr>"
  have "?req \<noteq> []" by (simp add: get_request_def)
  then have "poll_http_client K standalone page io i s =
      http_route_request K standalone page (envs io i) i ?s1"
    using used recv size newline_in_request [OF plain]
    by (simp add: poll_http_client_def poll_recv_def Let_def E1_HTTP_REQUEST_SIZE_def)
  also have "\<dots> = route_key K (envs io i) i code True ?s1"
    using il scan_get_request [OF _ plain len]
    by (simp add: http_route_request_def route_path_def)
  finally have s': "poll_http_client K standalone page io i s = route_key K (envs io i) i code True ?s1" .
  obtain k ok where r: "http_apply_key K (clock_ms (envs io i)) code True (keys s) = (k, ok)"
    by force
  from wf have "wf_keys K (keys s)" by (simp add: wf_server_def)
  from apply_key_spec [OF this r] code
  have k: "ok" "wf_keys K k"
      "held_set (http_held_codes k) = insert code (held_set (http_held_codes (keys s)))"
      "http_last_activity_ms k = clock_ms (envs io i)"
    by simp_all
  have "poll_http_client K standalone page io i s = responded ?s1 i http_empty_response k (effects s)"
    using s' mode r k(1) by (simp add: route_key_def apply_key_def response_shape)
  then show ?response ?wf ?held ?clock using il k by (simp_all add: responded_def)
qed

text \<open>From the first byte to the key. A client that has sent nothing delivers
  \<open>GET /down/<code> HTTP/1.1\<close> in one read while the runtime mode is \<open>doom\<close>: when the code is a
  key the game knows and is held or there is room for it, the response is the empty one, the code
  is held, its key is down in the game and the dead-man clock restarts at this moment.\<close>

theorem http_down_end_to_end:
  assumes wf: "wf_server K s" and i: "i < E1_HTTP_MAX_CLIENTS"
    and used: "0 \<le> fd (http_clients s ! i)" "response (http_clients s ! i) = None"
      "request (http_clients s ! i) = []"
    and code: "plain code" "accepts K (held_set (http_held_codes (keys s))) code"
    and recv: "recvs io i = Got (get_request (''/down/'' @ code))"
    and mode: "mode_is (envs io i) ''doom''"
    and s': "s' = poll_http_client K standalone page io i s"
  shows "response (http_clients s' ! i) = Some http_empty_response \<and>
    held_set (http_held_codes (keys s')) = insert code (held_set (http_held_codes (keys s))) \<and>
    (\<exists>down. replay (posted (keys s')) {} = Some down \<and> http_key_for_code K code \<in> down) \<and>
    http_last_activity_ms (keys s') = clock_ms (envs io i)"
  using down_request [OF assms(1-9), of standalone page] unfolding s' wf_keys_def by simp

lemma send_keys [simp]: "keys (poll_send io i text s) = keys s"
  by (simp add: poll_send_def close_http_client_def Let_def split: io.split)

lemma recv_keys:
  obtains "keys (poll_recv K standalone page io env i s) = keys s"
  | t where "keys t = keys s"
      and "poll_recv K standalone page io env i s = http_route_request K standalone page env i t"
proof (cases io)
  case (Got bytes)
  let ?c = "http_clients s ! i"
  let ?data = "take (E1_HTTP_REQUEST_SIZE - length (request ?c) - 1) bytes"
  let ?t = "s\<lparr>http_clients := (http_clients s)[i := ?c\<lparr>request := request ?c @ ?data\<rparr>]\<rparr>"
  have "poll_recv K standalone page io env i s \<in>
      {close_http_client i s, http_route_request K standalone page env i ?t, ?t}"
    by (simp add: poll_recv_def Got Let_def)
  then consider "keys (poll_recv K standalone page io env i s) = keys s"
    | "poll_recv K standalone page io env i s = http_route_request K standalone page env i ?t"
    by (fastforce simp: close_http_client_def)
  then show ?thesis by cases (use that in \<open>auto intro: that(2) [of ?t]\<close>)
qed (use that in \<open>simp_all add: poll_recv_def close_http_client_def\<close>)

text \<open>The browser cannot touch a key outside the game: a poll in which the mode file never
  reads \<open>doom\<close> only ever removes codes from the table.\<close>

theorem http_keys_need_doom:
  assumes wf: "wf_server K s" and mode: "\<forall>i < E1_HTTP_MAX_CLIENTS. \<not> mode_is (envs io i) ''doom''"
  shows "held_set (http_held_codes (keys (poll_http_listener K standalone page as io s))) \<subseteq>
    held_set (http_held_codes (keys s))"
proof -
  let ?H = "\<lambda>s. held_set (http_held_codes (keys s))"
  have acc: "keys (accept_loop as s) = keys s" for as s
    by (induction as s rule: accept_loop.induct)
      (auto simp: place_client_def split: option.splits)
  have one: "?H (poll_http_client K standalone page io i t) \<subseteq> ?H t"
    if i: "i < E1_HTTP_MAX_CLIENTS" and t: "wf_server K t" for i t
  proof -
    have "?H (http_route_request K standalone page (envs io i) i t1) \<subseteq> ?H t1"
      if t1: "keys t1 = keys t" for t1
    proof -
      from routed_request [of K "envs io i" i t1 standalone page] obtain k
        where "keys (http_route_request K standalone page (envs io i) i t1) = k"
          and "route_keys K (envs io i) (keys t1) k" by (auto simp: routed_def responded_def)
      moreover have "wf_keys K (keys t1)" using t t1 by (simp add: wf_server_def)
      ultimately show ?thesis
        using mode i release_all_spec [of K "keys t1"] by (auto simp: route_keys_def)
    qed
    then have "?H (poll_recv K standalone page (recvs io i) (envs io i) i t) \<subseteq> ?H t"
      by (cases rule: recv_keys [of K standalone page "recvs io i" "envs io i" i t]) auto
    then show ?thesis by (simp add: poll_http_client_def split: option.split)
  qed
  have "?H (poll_http_clients K standalone page io t) \<subseteq> ?H t" if t: "wf_server K t" for t
  proof -
    have "wf_server K (fold (poll_http_client K standalone page io) [0..<E1_HTTP_MAX_CLIENTS] t) \<and>
        ?H (fold (poll_http_client K standalone page io) [0..<E1_HTTP_MAX_CLIENTS] t) \<subseteq> ?H t"
    proof (rule fold_invariant [where Q = "\<lambda>i. i < E1_HTTP_MAX_CLIENTS"])
      fix i t'
      assume i: "i < E1_HTTP_MAX_CLIENTS" and t': "wf_server K t' \<and> ?H t' \<subseteq> ?H t"
      with one [OF i] poll_client_keeps [of K t' i standalone page io]
      show "wf_server K (poll_http_client K standalone page io i t') \<and>
          ?H (poll_http_client K standalone page io i t') \<subseteq> ?H t"
        by (auto simp: poll_keeps_def)
    qed (use t in simp_all)
    then show ?thesis by (simp add: poll_http_clients_def)
  qed
  from this [of "accept_loop (take E1_HTTP_MAX_CLIENTS as) s"] accept_keeps [OF wf] acc
  have "?H (poll_http_clients K standalone page io (accept_loop (take E1_HTTP_MAX_CLIENTS as) s)) \<subseteq> ?H s"
    by simp
  then show ?thesis by (simp add: poll_http_listener_def)
qed

lemma http_keys_need_doom_witness:
  "held_set (http_held_codes (keys (poll_http_listener demo_doomkeys False ''page'' [] silent
     fresh_server))) = {}"
proof -
  have wf: "wf_server demo_doomkeys fresh_server" unfolding fresh_server_def by (rule server_zero_wf)
  have "\<forall>i < E1_HTTP_MAX_CLIENTS. \<not> mode_is (envs silent i) ''doom''"
    by (simp add: silent_def silent_env_def mode_is_def read_runtime_mode_def)
  from http_keys_need_doom [OF wf this, of False "''page''" "[]"]
  show ?thesis
    using keys_zero_wf
    by (simp add: fresh_server_def init_http_server_def http_server_zero_def configured_port_def
        E1_HTTP_DEFAULT_PORT_def)
qed

definition doom_env :: http_env where
  "doom_env = \<lparr>mode_file = Some (''doom'' @ [CHR 0x0A]), write_ok = True, clock_ms = 1000\<rparr>"

definition press_w :: poll_script where
  "press_w = \<lparr>sends = \<lambda>_. Again, recvs = \<lambda>_. Got (get_request ''/down/KeyW''), envs = \<lambda>_. doom_env\<rparr>"

definition one_client :: http_server where
  "one_client = place_client (int 7) fresh_server"

lemma one_client_simps:
  "http_clients one_client ! 0 = closed_client\<lparr>fd := 7\<rparr>" "keys one_client = http_keys_zero"
  by (simp_all add: one_client_def fresh_server_def init_http_server_def http_server_zero_def
      configured_port_def E1_HTTP_DEFAULT_PORT_def place_client_def E1_HTTP_MAX_CLIENTS_def
      closed_client_def eval_nat_numeral)

lemma press_w_ready:
  "wf_server demo_doomkeys one_client" "0 < E1_HTTP_MAX_CLIENTS"
  "0 \<le> fd (http_clients one_client ! 0)" "response (http_clients one_client ! 0) = None"
  "request (http_clients one_client ! 0) = []" "plain ''KeyW''"
  "accepts demo_doomkeys (held_set (http_held_codes (keys one_client))) ''KeyW''"
  "recvs press_w 0 = Got (get_request (''/down/'' @ ''KeyW''))"
  "mode_is (envs press_w 0) ''doom''"
proof -
  show "wf_server demo_doomkeys one_client"
    unfolding one_client_def fresh_server_def using place_keeps [OF server_zero_wf] by blast
  have "held_set (http_held_codes http_keys_zero) = {}" using keys_zero_wf by simp
  then show "accepts demo_doomkeys (held_set (http_held_codes (keys one_client))) ''KeyW''"
    by (simp add: accepts_def valid_code_def http_key_for_code_def one_client_simps
        char_at_def chr_def demo_doomkeys_def E1_HTTP_CODE_SIZE_def E1_HTTP_HELD_CODES_def)
qed (simp_all add: one_client_simps closed_client_def E1_HTTP_MAX_CLIENTS_def plain_def isspace_def
    mode_is_def press_w_def doom_env_def read_runtime_mode_def)

lemma http_down_end_to_end_witness:
  "response (http_clients (poll_http_client demo_doomkeys False ''page'' press_w 0 one_client) ! 0) =
     Some http_empty_response \<and>
   held_set (http_held_codes (keys
     (poll_http_client demo_doomkeys False ''page'' press_w 0 one_client))) = {''KeyW''}"
  using http_down_end_to_end [OF press_w_ready refl, of False "''page''"] keys_zero_wf
  by (simp add: one_client_simps)

end
