(* ===== verification/Input_Loop.thy ===== *)
theory Input_Loop
  imports Http_Server Ptz_Input Ptz_Event
begin

text \<open>
  The rest of \<open>src/platform/e1/i_input_e1.c\<close>: the datagrams of the input socket, the game's
  poll (\<open>I_StartTic\<close>), the standalone controller's loop and the dead-man timer of both. The
  events of the HTTP keys are in the key table's own list (\<open>Http_Keys\<close>); those of the socket are
  in \<open>socket_posted\<close>, each with where it came from. Within one poll the HTTP events come first.
\<close>

section \<open>Datagrams\<close>

definition E1_KEY_EVENT_MAGIC :: u32 where [e1_consts]: "E1_KEY_EVENT_MAGIC = 0x45314b59"
definition E1_KEY_EVENT_VERSION :: u32 where [e1_consts]: "E1_KEY_EVENT_VERSION = 1"
definition E1_KEY_EVENT_UP :: int where [e1_consts]: "E1_KEY_EVENT_UP = 0"
definition E1_KEY_EVENT_DOWN :: int where [e1_consts]: "E1_KEY_EVENT_DOWN = 1"

text \<open>\<open>struct e1_key_event\<close> as it lies in a datagram.\<close>

definition sizeof_key_event :: nat where "sizeof_key_event = 16"

definition key_event_bytes :: "int \<Rightarrow> evtype \<Rightarrow> u8 list" where
  "key_event_bytes key type =
     u32_bytes E1_KEY_EVENT_MAGIC @ u32_bytes E1_KEY_EVENT_VERSION @
     u32_bytes (word_of_int key) @
     u32_bytes (word_of_int (if type = ev_keydown then E1_KEY_EVENT_DOWN else E1_KEY_EVENT_UP))"

datatype game_packet = Key_Packet int evtype | Ptz_Packet int | Invalid_Packet

text \<open>The receive buffer is the union of both structs: a longer datagram is cut to its size.\<close>

definition decode_packet :: "doomkeys \<Rightarrow> u8 list \<Rightarrow> game_packet" where
  "decode_packet K datagram =
     (let p = take sizeof_ptz_event datagram;
          key = sint (read_u32_le p 8); action = sint (read_u32_le p 12)
      in if length p = sizeof_key_event \<and> read_u32_le p 0 = E1_KEY_EVENT_MAGIC \<and>
            read_u32_le p 4 = E1_KEY_EVENT_VERSION \<and> 0 \<le> key \<and> key < NUMKEYS K \<and>
            (action = E1_KEY_EVENT_UP \<or> action = E1_KEY_EVENT_DOWN)
         then Key_Packet key (if action = E1_KEY_EVENT_DOWN then ev_keydown else ev_keyup)
         else if length p \<noteq> sizeof_ptz_event \<or> read_u32_le p 0 \<noteq> E1_PTZ_EVENT_MAGIC \<or>
            read_u32_le p 4 \<noteq> E1_PTZ_EVENT_VERSION then Invalid_Packet
         else Ptz_Packet (sint (read_u32_le p 16)))"

section \<open>The game's input\<close>

text \<open>The event the game receives for a posted key.\<close>

record event_t =
  ev_type :: evtype
  data1 :: int
  data2 :: int

definition game_event :: "doomkeys \<Rightarrow> int \<Rightarrow> evtype \<Rightarrow> event_t" where
  "game_event K key type =
     \<lparr>ev_type = type, data1 = key,
      data2 = (if type = ev_keydown \<and> (key = KEY_ENTER K \<or> key = chr CHR '' '') then key else 0)\<rparr>"

definition key_mappings :: "doomkeys \<Rightarrow> (u32 \<times> int) list" where
  "key_mappings K =
     [(E1_PTZ_KEY_UP, KEY_UPARROW K), (E1_PTZ_KEY_DOWN, KEY_DOWNARROW K),
      (E1_PTZ_KEY_LEFT, KEY_LEFTARROW K), (E1_PTZ_KEY_RIGHT, KEY_RIGHTARROW K),
      (E1_PTZ_KEY_FIRE, KEY_RCTRL K), (E1_PTZ_KEY_USE, chr CHR '' ''),
      (E1_PTZ_KEY_ENTER, KEY_ENTER K), (E1_PTZ_KEY_ESCAPE, KEY_ESCAPE K)]"

definition post_delta :: "doomkeys \<Rightarrow> e1_ptz_input_delta \<Rightarrow> (int \<times> evtype) list" where
  "post_delta K d =
     map (\<lambda>m. (snd m, ev_keyup)) (filter (\<lambda>m. release d AND fst m \<noteq> 0) (key_mappings K)) @
     map (\<lambda>m. (snd m, ev_keydown)) (filter (\<lambda>m. press d AND fst m \<noteq> 0) (key_mappings K))"

datatype post_source = From_Ptz | From_Key

datatype audio_call = Call_S_StopMusic | Call_S_StopChannels | Call_SetExitAudioOnly
  | Call_S_StartSound_pldeth

record input_state =
  server :: http_server
  ptz_input :: e1_ptz_input_state
  ptz_socket :: bool
  input_initialized :: bool
  exit_audio_started :: bool
  demo_timer_active :: bool
  close_at_exit :: bool
  socket_posted :: "(post_source \<times> int \<times> evtype) list"
  audio_calls :: "audio_call list"

definition post_all :: "post_source \<Rightarrow> (int \<times> evtype) list \<Rightarrow> input_state \<Rightarrow> input_state" where
  "post_all src es s = s\<lparr>socket_posted := socket_posted s @ map (Pair src) es\<rparr>"

text \<open>The dead-man timer, with the clock sample \<open>now\<close> of the loop.\<close>

definition E1_HTTP_DEADMAN_MS :: u64 where [e1_consts]: "E1_HTTP_DEADMAN_MS = 2500"

definition deadman_expired :: "u64 \<Rightarrow> http_server \<Rightarrow> bool" where
  "deadman_expired now s \<longleftrightarrow> http_last_activity_ms (keys s) \<noteq> 0 \<and>
     now - http_last_activity_ms (keys s) > E1_HTTP_DEADMAN_MS"

definition release_and_disarm :: "doomkeys \<Rightarrow> http_server \<Rightarrow> http_server" where
  "release_and_disarm K s =
     (let s = release_all K s in s\<lparr>keys := (keys s)\<lparr>http_last_activity_ms := 0\<rparr>\<rparr>)"

definition check_deadman :: "doomkeys \<Rightarrow> u64 \<Rightarrow> http_server \<Rightarrow> http_server" where
  "check_deadman K now s = (if deadman_expired now s then release_and_disarm K s else s)"

definition poll_exit_transition_audio :: "string option \<Rightarrow> input_state \<Rightarrow> input_state" where
  "poll_exit_transition_audio file s =
     (case read_runtime_mode 32 file of
        None \<Rightarrow> s\<lparr>demo_timer_active := False\<rparr>
      | Some mode \<Rightarrow>
          (let s = s\<lparr>demo_timer_active := (mode = ''doom'')\<rparr>
           in if \<not> exit_audio_started s \<and> mode = ''exit-melt''
              then s\<lparr>audio_calls := audio_calls s @ [Call_S_StopMusic, Call_S_StopChannels,
                       Call_SetExitAudioOnly, Call_S_StartSound_pldeth],
                     exit_audio_started := True\<rparr>
              else s))"

definition handle_packet :: "doomkeys \<Rightarrow> u64 \<Rightarrow> u8 list \<Rightarrow> input_state \<Rightarrow> input_state" where
  "handle_packet K now datagram s =
     (case decode_packet K datagram of
        Key_Packet key type \<Rightarrow> post_all From_Key [(key, type)] s
      | Invalid_Packet \<Rightarrow> s
      | Ptz_Packet command \<Rightarrow>
          (let (p, d) = e1_ptz_apply_command (ptz_input s) command now
           in post_all From_Ptz (post_delta K d) (s\<lparr>ptz_input := p\<rparr>)))"

text \<open>What the world does during one poll; the datagrams end where \<open>recv\<close> fails.\<close>

record tic_world =
  tic_now :: u64
  tic_mode :: "string option"
  tic_accepts :: "accepted list"
  tic_io :: poll_script
  tic_datagrams :: "u8 list list"

definition max_datagrams :: nat where "max_datagrams = 64"

definition I_StartTic :: "doomkeys \<Rightarrow> string \<Rightarrow> tic_world \<Rightarrow> input_state \<Rightarrow> input_state" where
  "I_StartTic K page w s =
     (let now = tic_now w;
          s = poll_exit_transition_audio (tic_mode w) s;
          s = s\<lparr>server := poll_http_listener K False page (tic_accepts w) (tic_io w) (server s)\<rparr>;
          s = s\<lparr>server := check_deadman K now (server s)\<rparr>;
          s = (if ptz_socket s
               then fold (handle_packet K now) (take max_datagrams (tic_datagrams w)) s else s);
          (p, d) = e1_ptz_expire (ptz_input s) now
      in post_all From_Ptz (post_delta K d) (s\<lparr>ptz_input := p\<rparr>))"

definition I_E1ReturnToCamera :: "doomkeys \<Rightarrow> http_env \<Rightarrow> input_state \<Rightarrow> input_state" where
  "I_E1ReturnToCamera K env s =
     (let s = s\<lparr>server := release_all K (server s)\<rparr>
      in if mode_is env ''doom''
         then s\<lparr>server := fst (write_runtime_request env ''dashboard.camera'' (server s))\<rparr> else s)"

text \<open>The outcomes of the calls that set up the input socket.\<close>

record socket_setup =
  su_port_env :: "string option"
  su_http_socket :: bool
  su_http_flags :: bool
  su_http_bind :: bool
  su_socket :: bool
  su_flags :: bool
  su_path_fits :: bool
  su_bind :: bool

definition I_InitKeyboard :: "socket_setup \<Rightarrow> input_state \<Rightarrow> input_state" where
  "I_InitKeyboard u s =
     (if input_initialized s then s
      else let s = s\<lparr>input_initialized := True,
             server := init_http_server (su_port_env u) (su_http_socket u) (su_http_flags u)
               (su_http_bind u) (server s)\<rparr>
           in if \<not> su_socket u then s\<lparr>close_at_exit := True\<rparr>
              else if \<not> su_flags u \<or> \<not> su_path_fits u \<or> \<not> su_bind u
              then s\<lparr>ptz_socket := False\<rparr>
              else s\<lparr>ptz_socket := True, close_at_exit := True\<rparr>)"

definition input_zero :: input_state where
  "input_zero = \<lparr>server = http_server_zero, ptz_input = ptz_zero, ptz_socket = False,
     input_initialized = False, exit_audio_started = False, demo_timer_active = False,
     close_at_exit = False, socket_posted = [], audio_calls = []\<rparr>"

definition close_input :: "input_state \<Rightarrow> input_state" where
  "close_input s = s\<lparr>server := close_http_server (server s), ptz_socket := False\<rparr>"

section \<open>The standalone controller\<close>

text \<open>One turn of the loop: whether the release signal arrived, and the poll.\<close>

record controller_turn =
  ct_now :: u64
  ct_release :: bool
  ct_accepts :: "accepted list"
  ct_io :: poll_script

definition controller_step :: "doomkeys \<Rightarrow> string \<Rightarrow> controller_turn \<Rightarrow> http_server \<Rightarrow> http_server" where
  "controller_step K page t s =
     (let s = poll_http_listener K True page (ct_accepts t) (ct_io t) s;
          s = (if ct_release t then release_and_disarm K s else s)
      in check_deadman K (ct_now t) s)"

text \<open>\<open>main\<close> of the controller: the result, the server, and the turns until the stop signal.\<close>

definition controller_main ::
    "doomkeys \<Rightarrow> string \<Rightarrow> bool \<Rightarrow> (http_server \<Rightarrow> http_server) \<Rightarrow> http_env \<Rightarrow> controller_turn list \<Rightarrow>
     http_server \<Rightarrow> http_server \<times> int" where
  "controller_main K page sender_ok init env turns s =
     (if \<not> sender_ok then (s, 1)
      else let s = init s
           in if \<not> http_listener s then (close_http_server s, 1)
              else let (s, ok) = write_runtime_request env ''controller.ready'' s
                   in if \<not> ok then (close_http_server s, 1)
                      else (close_http_server
                              (release_all K (fold (controller_step K page) turns s)), 0))"

text \<open>In the controller build \<open>post_key\<close> sends the event to the game's socket.\<close>

definition controller_datagrams :: "http_server \<Rightarrow> u8 list list" where
  "controller_datagrams s = map (\<lambda>(key, type). key_event_bytes key type) (posted (keys s))"

section \<open>Datagrams survive the socket\<close>

lemma sint_small: "0 \<le> k \<Longrightarrow> k < 2 ^ 31 \<Longrightarrow> sint (word_of_int k :: u32) = k"
  by (simp add: signed_of_int signed_take_bit_int_eq_self)

lemma key_fields:
  "read_u32_le (key_event_bytes key type) 0 = E1_KEY_EVENT_MAGIC"
  "read_u32_le (key_event_bytes key type) 4 = E1_KEY_EVENT_VERSION"
  "read_u32_le (key_event_bytes key type) 8 = word_of_int key"
  "read_u32_le (key_event_bytes key type) 12 =
     word_of_int (if type = ev_keydown then E1_KEY_EVENT_DOWN else E1_KEY_EVENT_UP)"
proof -
  let ?v = "u32_bytes E1_KEY_EVENT_VERSION" and ?m = "u32_bytes E1_KEY_EVENT_MAGIC"
  let ?a = "word_of_int (if type = ev_keydown then E1_KEY_EVENT_DOWN else E1_KEY_EVENT_UP)"
  note b = key_event_bytes_def
  show "read_u32_le (key_event_bytes key type) 0 = E1_KEY_EVENT_MAGIC"
    unfolding b using read_u32_bytes [of 0 "[]"] by simp
  show "read_u32_le (key_event_bytes key type) 4 = E1_KEY_EVENT_VERSION"
    unfolding b by (rule read_u32_bytes) simp
  show "read_u32_le (key_event_bytes key type) 8 = word_of_int key"
    unfolding b using read_u32_bytes [of 8 "?m @ ?v"] by simp
  show "read_u32_le (key_event_bytes key type) 12 = ?a"
    unfolding b using read_u32_bytes [of 12 "?m @ ?v @ u32_bytes (word_of_int key)" ?a "[]"] by simp
qed

text \<open>C32. A key event that the controller sends is the key event the game posts: for a key the
  game knows, decoding the sixteen bytes of the datagram gives back the key and its direction.\<close>

theorem key_event_roundtrip:
  assumes "NUMKEYS K \<le> 2 ^ 31" and "0 \<le> key" and "key < NUMKEYS K"
  shows "decode_packet K (key_event_bytes key type) = Key_Packet key type"
proof -
  have "length (key_event_bytes key type) = 16" by (simp add: key_event_bytes_def)
  then have "take sizeof_ptz_event (key_event_bytes key type) = key_event_bytes key type"
    and "length (key_event_bytes key type) = sizeof_key_event"
    by (simp_all add: sizeof_ptz_event_def sizeof_key_event_def)
  moreover have "sint (word_of_int key :: u32) = key" using assms by (intro sint_small) simp_all
  moreover have "sint (word_of_int E1_KEY_EVENT_DOWN :: u32) = 1"
    "sint (word_of_int E1_KEY_EVENT_UP :: u32) = 0"
    by (simp_all add: E1_KEY_EVENT_DOWN_def E1_KEY_EVENT_UP_def)
  ultimately show ?thesis
    using assms by (cases type)
      (simp_all add: decode_packet_def Let_def key_fields E1_KEY_EVENT_DOWN_def E1_KEY_EVENT_UP_def)
qed

lemma key_event_roundtrip_witness:
  "decode_packet demo_doomkeys (key_event_bytes 119 ev_keydown) = Key_Packet 119 ev_keydown"
  by (rule key_event_roundtrip) (simp_all add: demo_doomkeys_def)

section \<open>The dead-man timer\<close>

lemma release_and_disarm_spec:
  assumes "wf_keys K (keys s)"
  shows "wf_keys K (keys (release_and_disarm K s)) \<and>
    held_set (http_held_codes (keys (release_and_disarm K s))) = {} \<and>
    http_last_activity_ms (keys (release_and_disarm K s)) = 0"
  using release_all_spec [OF assms] by (simp add: release_and_disarm_def release_all_def wf_keys_def)

text \<open>The dead-man timer with samples in order: when the last activity is not later than the
  loop's clock sample, the timer releases every key and disarms itself exactly when it is armed and
  more than 2500 ms have passed, and otherwise leaves the server as it is.\<close>

theorem deadman_in_order:
  assumes wf: "wf_keys K (keys s)" and order: "http_last_activity_ms (keys s) \<le> now"
  shows "if http_last_activity_ms (keys s) \<noteq> 0 \<and>
      unat (http_last_activity_ms (keys s)) + 2500 < unat now
    then held_set (http_held_codes (keys (check_deadman K now s))) = {} \<and>
      replay (posted (keys (check_deadman K now s))) {} = Some {} \<and>
      http_last_activity_ms (keys (check_deadman K now s)) = 0
    else check_deadman K now s = s"
proof -
  have "deadman_expired now s \<longleftrightarrow> http_last_activity_ms (keys s) \<noteq> 0 \<and>
      unat (http_last_activity_ms (keys s)) + 2500 < unat now"
    using elapsed_gt_iff [OF order, of 2500] by (simp add: deadman_expired_def E1_HTTP_DEADMAN_MS_def)
  with release_and_disarm_spec [OF wf] show ?thesis by (auto simp: check_deadman_def wf_keys_def)
qed

text \<open>A server that last heard from the browser at 1000 ms, and W held.\<close>

definition holding_w :: http_server where
  "holding_w = poll_http_client demo_doomkeys False ''page'' press_w 0 one_client"

lemma holding_w: "wf_keys demo_doomkeys (keys holding_w)"
  "http_last_activity_ms (keys holding_w) = 1000"
  "held_set (http_held_codes (keys holding_w)) = {''KeyW''}"
  using down_request [OF press_w_ready, of False "''page''"] keys_zero_wf
  by (simp_all add: holding_w_def one_client_simps press_w_def doom_env_def)

lemma deadman_in_order_witness:
  "held_set (http_held_codes (keys (check_deadman demo_doomkeys 4000 holding_w))) = {}"
proof -
  have "http_last_activity_ms (keys holding_w) \<le> 4000" by (simp add: holding_w)
  from deadman_in_order [OF holding_w(1) this] show ?thesis by (simp add: holding_w)
qed

text \<open>
  The loops take the clock sample before they serve the clients, so a request served one
  millisecond later stores a time stamp the sample is behind, and the unsigned difference wraps.
\<close>



section \<open>The keys of the camera's buttons\<close>

definition mapped :: "doomkeys \<Rightarrow> u32 \<Rightarrow> (u32 \<times> int) set" where
  "mapped K m = {e \<in> set (key_mappings K). m AND fst e \<noteq> 0}"

definition mapped_keys :: "doomkeys \<Rightarrow> u32 \<Rightarrow> int set" where
  "mapped_keys K m = snd ` mapped K m"

definition ptz_events :: "input_state \<Rightarrow> (int \<times> evtype) list" where
  "ptz_events s = map snd (filter (\<lambda>e. fst e = From_Ptz) (socket_posted s))"

lemma mapping_bit:
  assumes "e \<in> set (key_mappings K)"
  obtains j where "\<And>m. m AND fst e \<noteq> 0 \<longleftrightarrow> j \<in> keys_of m"
proof -
  have "\<exists>j. fst e = 2 ^ j"
    using assms
    by (auto simp: key_mappings_def e1_consts intro: exI [of _ 0] exI [of _ 1] exI [of _ 2]
        exI [of _ 3] exI [of _ 4] exI [of _ 5] exI [of _ 6] exI [of _ 7])
  then obtain j where "fst e = 2 ^ j" by blast
  then have "m AND fst e \<noteq> 0 \<longleftrightarrow> j \<in> keys_of m" for m
    by (simp add: and_exp_eq_0_iff_not_bit keys_of_def)
  then show ?thesis using that by blast
qed

lemma mapped_clean:
  assumes "clean_delta d (keys_of h)" and "game_keys d (keys_of h) = keys_of h'"
  shows "mapped K (release d) \<subseteq> mapped K h"
    and "mapped K (press d) \<inter> mapped K h = {}"
    and "mapped K h' = (mapped K h - mapped K (release d)) \<union> mapped K (press d)"
proof -
  have "e \<in> mapped K (release d) \<Longrightarrow> e \<in> mapped K h"
    and "\<not> (e \<in> mapped K (press d) \<and> e \<in> mapped K h)"
    and "e \<in> mapped K h' \<longleftrightarrow> e \<in> mapped K h \<and> e \<notin> mapped K (release d) \<or> e \<in> mapped K (press d)"
    for e
  proof -
    have "(e \<in> mapped K (release d) \<longrightarrow> e \<in> mapped K h) \<and>
        \<not> (e \<in> mapped K (press d) \<and> e \<in> mapped K h) \<and>
        (e \<in> mapped K h' \<longleftrightarrow> e \<in> mapped K h \<and> e \<notin> mapped K (release d) \<or> e \<in> mapped K (press d))"
    proof (cases "e \<in> set (key_mappings K)")
      case True
      then obtain j where "\<And>m. m AND fst e \<noteq> 0 \<longleftrightarrow> j \<in> keys_of m" by (rule mapping_bit) blast
      with True have "\<And>m. e \<in> mapped K m \<longleftrightarrow> j \<in> keys_of m" by (simp add: mapped_def)
      with assms show ?thesis by (auto simp: clean_delta_def game_keys_def)
    next
      case False
      then have "\<And>m. e \<notin> mapped K m" by (simp add: mapped_def)
      then show ?thesis by simp
    qed
    then show "e \<in> mapped K (release d) \<Longrightarrow> e \<in> mapped K h"
      and "\<not> (e \<in> mapped K (press d) \<and> e \<in> mapped K h)"
      and "e \<in> mapped K h' \<longleftrightarrow> e \<in> mapped K h \<and> e \<notin> mapped K (release d) \<or> e \<in> mapped K (press d)"
      by blast+
  qed
  then show "mapped K (release d) \<subseteq> mapped K h" "mapped K (press d) \<inter> mapped K h = {}"
    "mapped K h' = (mapped K h - mapped K (release d)) \<union> mapped K (press d)"
    by blast+
qed

lemma replay_presses:
  "distinct ks \<Longrightarrow> set ks \<inter> S = {} \<Longrightarrow> replay (map (\<lambda>k. (k, ev_keydown)) ks) S = Some (S \<union> set ks)"
  by (induction ks arbitrary: S) auto

text \<open>The eight mapped keys are different keys.\<close>

definition distinct_mapping :: "doomkeys \<Rightarrow> bool" where
  "distinct_mapping K \<longleftrightarrow> distinct (map snd (key_mappings K))"

lemma delta_replay:
  assumes K: "distinct_mapping K" and call: "pi_call e s = (s', d)"
  shows "replay (post_delta K d) (mapped_keys K (held s)) = Some (mapped_keys K (held s'))"
proof -
  from call_game [OF refl call] have g: "game_keys d (keys_of (held s)) = keys_of (held s')"
    and c: "clean_delta d (keys_of (held s))" by simp_all
  note m = mapped_clean [OF c g, of K]
  let ?list = "\<lambda>m. map snd (filter (\<lambda>e. m AND fst e \<noteq> 0) (key_mappings K))"
  have inj: "inj_on snd (set (key_mappings K))"
    using K by (simp add: distinct_mapping_def distinct_map)
  have set_list: "set (?list m) = mapped_keys K m" for m
    by (simp add: mapped_keys_def mapped_def)
  have dist: "distinct (?list m)" for m
    using K by (simp add: distinct_mapping_def distinct_map_filter)
  have sub: "mapped K m \<subseteq> set (key_mappings K)" for m by (auto simp: mapped_def)
  have diff: "snd ` (mapped K a - mapped K b) = mapped_keys K a - mapped_keys K b" for a b
    unfolding mapped_keys_def by (rule inj_on_image_set_diff [OF inj]) (use sub in auto)
  have "replay (map (\<lambda>k. (k, ev_keyup)) (?list (release d))) (mapped_keys K (held s)) =
      Some (mapped_keys K (held s) - mapped_keys K (release d))"
    using replay_releases [OF dist, of "release d" "mapped_keys K (held s)"] m(1)
    unfolding set_list by (auto simp: mapped_keys_def)
  moreover have "mapped_keys K (press d) \<inter> (mapped_keys K (held s) - mapped_keys K (release d)) = {}"
  proof -
    have "snd ` mapped K (press d) \<inter> snd ` mapped K (held s) = {}"
      using inj_on_image_Int [OF inj sub sub, of "press d" "held s"] m(2) by simp
    then show ?thesis by (auto simp: mapped_keys_def)
  qed
  then have "replay (map (\<lambda>k. (k, ev_keydown)) (?list (press d)))
      (mapped_keys K (held s) - mapped_keys K (release d)) =
      Some (mapped_keys K (held s) - mapped_keys K (release d) \<union> mapped_keys K (press d))"
    using replay_presses [OF dist, of "press d"] unfolding set_list by simp
  moreover have "mapped_keys K (held s') =
      mapped_keys K (held s) - mapped_keys K (release d) \<union> mapped_keys K (press d)"
    using m(3) diff by (simp add: mapped_keys_def image_Un)
  ultimately show ?thesis
    by (simp add: post_delta_def replay_append comp_def)
qed

section \<open>The game's poll keeps both sources in step\<close>

definition input_ok :: "doomkeys \<Rightarrow> input_state \<Rightarrow> bool" where
  "input_ok K s \<longleftrightarrow> wf_server K (server s) \<and>
     replay (ptz_events s) {} = Some (mapped_keys K (held (ptz_input s)))"

lemma post_ptz_ok:
  assumes "distinct_mapping K" and "input_ok K s" and "pi_call e (ptz_input s) = (p, d)"
  shows "input_ok K (post_all From_Ptz (post_delta K d) (s\<lparr>ptz_input := p\<rparr>))"
proof -
  have "ptz_events (post_all From_Ptz (post_delta K d) (s\<lparr>ptz_input := p\<rparr>)) =
      ptz_events s @ post_delta K d"
    by (simp add: ptz_events_def post_all_def filter_map comp_def)
  moreover have "server (post_all From_Ptz (post_delta K d) (s\<lparr>ptz_input := p\<rparr>)) = server s"
    and "ptz_input (post_all From_Ptz (post_delta K d) (s\<lparr>ptz_input := p\<rparr>)) = p"
    by (simp_all add: post_all_def)
  ultimately show ?thesis
    using assms(2) delta_replay [OF assms(1,3)] by (simp add: input_ok_def replay_append)
qed

lemma packet_ok:
  assumes "distinct_mapping K" and "input_ok K s"
  shows "input_ok K (handle_packet K now bytes s)"
proof (cases "decode_packet K bytes")
  case (Key_Packet key type)
  with assms show ?thesis
    by (simp add: handle_packet_def post_all_def input_ok_def ptz_events_def)
next
  case (Ptz_Packet command)
  obtain p d where call: "e1_ptz_apply_command (ptz_input s) command now = (p, d)" by force
  then have "pi_call (PI_Command command now) (ptz_input s) = (p, d)" by simp
  from post_ptz_ok [OF assms this] call Ptz_Packet show ?thesis by (simp add: handle_packet_def)
qed (use assms in \<open>simp add: handle_packet_def\<close>)

lemma deadman_wf: "wf_server K s \<Longrightarrow> wf_server K (check_deadman K now s)"
  using release_and_disarm_spec [of K s]
  by (auto simp: check_deadman_def wf_server_def release_and_disarm_def release_all_def Let_def)

lemma start_tic_ok:
  assumes K: "distinct_mapping K" and ok: "input_ok K s"
  shows "input_ok K (I_StartTic K page w s)"
proof -
  let ?s1 = "poll_exit_transition_audio (tic_mode w) s"
  let ?s2 = "?s1\<lparr>server := poll_http_listener K False page (tic_accepts w) (tic_io w) (server ?s1)\<rparr>"
  let ?s3 = "?s2\<lparr>server := check_deadman K (tic_now w) (server ?s2)\<rparr>"
  let ?s4 = "if ptz_socket ?s3
    then fold (handle_packet K (tic_now w)) (take max_datagrams (tic_datagrams w)) ?s3 else ?s3"
  have "input_ok K ?s1"
    using ok by (simp add: input_ok_def poll_exit_transition_audio_def ptz_events_def Let_def
        split: option.split)
  then have "input_ok K ?s2" using listener_keeps by (simp add: input_ok_def ptz_events_def)
  then have "input_ok K ?s3" using deadman_wf by (simp add: input_ok_def ptz_events_def)
  then have "input_ok K (fold (handle_packet K (tic_now w)) ds ?s3)" for ds
    by (rule fold_invariant [where Q = "\<lambda>_. True", rotated]) (simp_all add: packet_ok [OF K])
  with \<open>input_ok K ?s3\<close> have ok4: "input_ok K ?s4" by (simp split: if_split)
  obtain p d where call: "e1_ptz_expire (ptz_input ?s4) (tic_now w) = (p, d)" by force
  then have "pi_call (PI_Expire (tic_now w)) (ptz_input ?s4) = (p, d)" by simp
  from post_ptz_ok [OF K ok4 this]
  have "input_ok K (post_all From_Ptz (post_delta K d) (?s4\<lparr>ptz_input := p\<rparr>))" .
  moreover have "I_StartTic K page w s = post_all From_Ptz (post_delta K d) (?s4\<lparr>ptz_input := p\<rparr>)"
    using call unfolding I_StartTic_def Let_def by (simp only: prod.case)
  ultimately show ?thesis by simp
qed

definition game_tic :: "doomkeys \<Rightarrow> string \<Rightarrow> tic_world \<Rightarrow> input_state \<Rightarrow> input_state" where
  "game_tic K page w s = (if distinct_mapping K then I_StartTic K page w s else s)"

interpretation tics: event_machine "game_tic K page" "input_ok K"
  by unfold_locales (simp add: game_tic_def start_tic_ok)

lemma input_zero_ok: "input_ok K (I_InitKeyboard u input_zero)"
proof -
  have "mapped_keys K 0 = {}" by (auto simp: mapped_keys_def mapped_def)
  then show ?thesis using server_zero_wf [of K "su_port_env u" "su_http_socket u" "su_http_flags u"]
    by (simp add: I_InitKeyboard_def input_zero_def input_ok_def ptz_events_def ptz_zero_def Let_def)
qed

text \<open>C11. From initialisation, after any number of tics and whatever the sockets, the mode file and
  the clock do in them, the events that the camera's buttons posted never press a key that is down
  nor release one that is up, and they leave down exactly the keys of the decoder's held mask; the
  browser's keys stay in step too.\<close>

theorem game_input_in_step:
  assumes "distinct_mapping K" and "s = fold (I_StartTic K page) ws (I_InitKeyboard u input_zero)"
  shows "replay (ptz_events s) {} = Some (mapped_keys K (held (ptz_input s))) \<and>
    replay (posted (keys (server s))) {} =
      Some (http_key_for_code K ` held_set (http_held_codes (keys (server s))))"
proof -
  have "I_StartTic K page = game_tic K page" using assms(1) by (intro ext) (simp add: game_tic_def)
  with tics.run_inv [OF input_zero_ok, of K page ws u] assms(2) have "input_ok K s" by simp
  then show ?thesis by (simp add: input_ok_def wf_server_def wf_keys_def)
qed

lemma game_input_in_step_witness:
  "replay (ptz_events (fold (I_StartTic demo_doomkeys ''page'')
      [\<lparr>tic_now = 5, tic_mode = None, tic_accepts = [], tic_io = silent, tic_datagrams = []\<rparr>]
      (I_InitKeyboard \<lparr>su_port_env = None, su_http_socket = True, su_http_flags = True,
         su_http_bind = True, su_socket = True, su_flags = True, su_path_fits = True,
         su_bind = True\<rparr> input_zero))) {} \<noteq> None"
proof -
  have "distinct_mapping demo_doomkeys"
    by (simp add: distinct_mapping_def key_mappings_def demo_doomkeys_def chr_def)
  from game_input_in_step [OF this refl] show ?thesis by (metis option.distinct(1))
qed

text \<open>The death sound of the exit transition starts at most once.\<close>

lemma exit_audio_once:
  assumes "count_list (audio_calls s) Call_S_StartSound_pldeth = (if exit_audio_started s then 1 else 0)"
  shows "count_list (audio_calls (poll_exit_transition_audio file s)) Call_S_StartSound_pldeth =
    (if exit_audio_started (poll_exit_transition_audio file s) then 1 else 0)"
  using assms by (simp add: poll_exit_transition_audio_def Let_def split: option.split)

end
