(* ===== verification/Ptz_Path.thy ===== *)
theory Ptz_Path
  imports Ptz_Drain Input_Loop
begin

text \<open>
  A button from the camera's hook to the game: the worker's drain (\<open>Ptz_Drain\<close>), the datagram
  (\<open>Ptz_Event\<close>) and the game's handler (\<open>Input_Loop\<close>) composed. The socket delivers a datagram as
  it was sent.
\<close>

lemma sint_command: "- (2 ^ 31) \<le> c \<Longrightarrow> c < 2 ^ 31 \<Longrightarrow> sint (word_of_int c :: u32) = c"
  by (simp add: sint_sbintrunc' signed_take_bit_int_eq_self)

lemma ptz_datagram_decodes:
  assumes "pe_magic e = E1_PTZ_EVENT_MAGIC" and "pe_version e = E1_PTZ_EVENT_VERSION"
  shows "decode_packet K (ptz_event_bytes e) = Ptz_Packet (sint (pe_command e))"
proof -
  have "take sizeof_ptz_event (ptz_event_bytes e) = ptz_event_bytes e" by simp
  then show ?thesis unfolding decode_packet_def Let_def
    using read_ptz_event [of e] assms by (simp add: sizeof_ptz_event_def sizeof_key_event_def)
qed

lemma doom_forwards:
  assumes "mode control = E1_RUNTIME_DOOM"
    and "mode (fst (e1_runtime_observe_raw_ptz control c now)) = E1_RUNTIME_DOOM"
  shows "mode (fst (control_event c now control)) = E1_RUNTIME_DOOM \<or>
    snd (control_event c now control) AND E1_RUNTIME_ACTION_FORWARD \<noteq> 0"
proof -
  obtain c1 a1 where o1: "e1_runtime_observe_raw_ptz control c now = (c1, a1)" by force
  obtain c2 a2 where o2: "e1_runtime_apply_ptz c1 c now = (c2, a2)" by force
  have "emits a2 E1_RUNTIME_ACTION_FORWARD"
    using assms(2) o1 o2
    by (auto simp: e1_runtime_apply_ptz_def emits_def e1_consts Let_def split: if_splits)
  then have "emits (a1 OR a2) E1_RUNTIME_ACTION_FORWARD" by (simp add: emits_or)
  then show ?thesis using assms(1) by (simp add: control_event_def o1 o2 emits_def Let_def)
qed

text \<open>C20. A button works in the game: while Doom runs, a command that the hook queued is sent by the
  worker's drain as one datagram, unless it is the stop that completes the exit gesture, and the
  game's handler applies exactly that command to its decoder and posts the keys the decoder
  reports.\<close>

theorem button_reaches_game:
  assumes "mode control = E1_RUNTIME_DOOM" and "queued_commands ring t [c]"
    and "mode (fst (e1_runtime_observe_raw_ptz control c now)) = E1_RUNTIME_DOOM"
    and "- (2 ^ 31) \<le> c" and "c < 2 ^ 31"
  shows "\<exists>e. ds_sent (drain_ptz_events [(ring, now)] True
      \<lparr>ds_ticket = t, ds_control = control, ds_actions = 0, ds_sent = []\<rparr>) = [e] \<and>
    handle_packet K later (ptz_event_bytes e) s =
      post_all From_Ptz (post_delta K (snd (e1_ptz_apply_command (ptz_input s) c later)))
        (s\<lparr>ptz_input := fst (e1_ptz_apply_command (ptz_input s) c later)\<rparr>)"
proof -
  let ?slot = "ring ! ring_index t"
  let ?e = "event_of_slot ?slot now"
  from assms(2) have slot: "committed ?slot = t + 1" "t + 1 \<noteq> 0" "rs_command ?slot = c"
    by (simp_all add: Let_def)
  obtain c1 a1 where ev: "control_event c now control = (c1, a1)" by force
  with doom_forwards [OF assms(1,3)]
  have "mode c1 = E1_RUNTIME_DOOM \<or> a1 AND E1_RUNTIME_ACTION_FORWARD \<noteq> 0" by simp
  then have "ds_sent (drain_ptz_events [(ring, now)] True
      \<lparr>ds_ticket = t, ds_control = control, ds_actions = 0, ds_sent = []\<rparr>) = [?e]"
    using slot ev by (simp add: drain_ptz_events_def PTZ_RING_SIZE_def ring_verdict_of_def drain_event_def)
  moreover have "decode_packet K (ptz_event_bytes ?e) = Ptz_Packet c"
    using ptz_datagram_decodes [of ?e K] sint_command [OF assms(4,5)] slot(3)
    by (simp add: event_of_slot_def)
  then have "handle_packet K later (ptz_event_bytes ?e) s =
      post_all From_Ptz (post_delta K (snd (e1_ptz_apply_command (ptz_input s) c later)))
        (s\<lparr>ptz_input := fst (e1_ptz_apply_command (ptz_input s) c later)\<rparr>)"
    by (simp add: handle_packet_def case_prod_unfold Let_def)
  ultimately show ?thesis by blast
qed

lemma button_reaches_game_witness:
  "\<exists>e. ds_sent (drain_ptz_events [(tap_ring, 7)] True
      \<lparr>ds_ticket = 0, ds_control = rc_zero E1_RUNTIME_DOOM, ds_actions = 0, ds_sent = []\<rparr>) = [e] \<and>
    handle_packet demo_doomkeys 9 (ptz_event_bytes e) input_zero =
      post_all From_Ptz (post_delta demo_doomkeys (snd (e1_ptz_apply_command (ptz_input input_zero) 3 9)))
        (input_zero\<lparr>ptz_input := fst (e1_ptz_apply_command (ptz_input input_zero) 3 9)\<rparr>)"
proof (rule button_reaches_game)
  show "queued_commands tap_ring 0 [3]" using tap_ring_queued by (simp add: Let_def)
qed (simp_all add: rc_zero_def e1_runtime_observe_raw_ptz_def e1_runtime_reset_stop_only_def)

end
