(* ===== verification/Audio_Hook.thy ===== *)
theory Audio_Hook
  imports Audio_Link Call_Counter
begin

text \<open>
  The audio hook of \<open>src/camera/e1-doom-injected.c\<close>: \<open>e1_audio_pcm_hook_route\<close>, which the stock
  audio thread calls with the microphone's samples, and the side of the worker that starts and
  stops it (\<open>start_stock_audio_tone\<close>, \<open>start_stock_audio_doom\<close>, \<open>cleanup_stock_audio_hook\<close>).

  The hook is given twice: as a function, for a call that no other thread interrupts, and as its
  atomic operations, which interleave with the worker's. The atomic operations are taken in one
  order that all threads see. A mapping of the ring is a number; a load from a ring that is no
  longer mapped is a fault.
\<close>

section \<open>Data\<close>

definition STOCK_AUDIO_TONE_FRAMES :: u32 where [e1_consts]: "STOCK_AUDIO_TONE_FRAMES = 256"

datatype audio_pcm_mode = AUDIO_PCM_PASS_THROUGH | AUDIO_PCM_TONE | AUDIO_PCM_DOOM

record pcm_hook =
  pcm_active :: u32
  pcm_frames :: u32
  pcm_mode :: audio_pcm_mode
  readback_positive :: int
  readback_negative :: int
  pcm_ring :: "nat option"
  pcm_last :: u32
  pcm_dropped :: u32
  pcm_underflows :: u32

section \<open>The hook as a function\<close>

text \<open>\<open>views\<close> is what the reader of the ring loads; the buffer is \<open>None\<close> for \<open>NULL\<close>.\<close>

definition pcm_tone :: "int list \<Rightarrow> pcm_hook \<Rightarrow> pcm_hook \<times> int list" where
  "pcm_tone buffer h =
     (let frame = pcm_frames h; h = h\<lparr>pcm_frames := frame + 1\<rparr>
      in if frame < STOCK_AUDIO_TONE_FRAMES
         then (let buffer = e1_fill_tone_1khz_s16 buffer (unat E1_AUDIO_SAMPLES_PER_FRAME)
               in (h\<lparr>readback_positive := buffer ! 4, readback_negative := buffer ! 12\<rparr>, buffer))
         else (h\<lparr>pcm_mode := AUDIO_PCM_PASS_THROUGH\<rparr>, buffer))"

definition pcm_doom :: "ring_view \<times> ring_view \<Rightarrow> int list \<Rightarrow> pcm_hook \<Rightarrow> pcm_hook \<times> int list" where
  "pcm_doom views buffer h =
     (let r = e1_audio_ring_read_next (map_option (\<lambda>_. views) (pcm_ring h)) (pcm_last h) buffer 0
      in if rr_status r = 1
         then (h\<lparr>pcm_last := rr_last r, pcm_frames := pcm_frames h + 1,
                 pcm_dropped := pcm_dropped h + rr_dropped r\<rparr>, rr_output r)
         else (h\<lparr>pcm_underflows := pcm_underflows h + 1\<rparr>, silence))"

definition e1_audio_pcm_hook_route ::
    "ring_view \<times> ring_view \<Rightarrow> int list option \<Rightarrow> int \<Rightarrow> pcm_hook \<Rightarrow> pcm_hook \<times> int list option" where
  "e1_audio_pcm_hook_route views buffer bytes h =
     (let h = h\<lparr>pcm_active := pcm_active h + 1\<rparr>; m = pcm_mode h;
          (h, buffer) =
            (case buffer of
               Some pcm \<Rightarrow>
                 if bytes = int (unat E1_AUDIO_PCM_BYTES_PER_FRAME) \<and> m = AUDIO_PCM_TONE
                 then (let (h, pcm) = pcm_tone pcm h in (h, Some pcm))
                 else if bytes = int (unat E1_AUDIO_PCM_BYTES_PER_FRAME) \<and> m = AUDIO_PCM_DOOM
                 then (let (h, pcm) = pcm_doom views pcm h in (h, Some pcm))
                 else (h, Some pcm)
             | None \<Rightarrow> (h, None))
      in (h\<lparr>pcm_active := pcm_active h - 1\<rparr>, buffer))"

section \<open>The hook as atomic operations\<close>

datatype pcm_pc =
    Pcm_Entered
  | Pcm_Counted
  | Pcm_Tone
  | Pcm_Fill
  | Pcm_Positive
  | Pcm_Negative
  | Pcm_Expire
  | Pcm_Doom
  | Pcm_Ring "nat option"
  | Pcm_Read nat u32
  | Pcm_Got u32 u32
  | Pcm_Advanced u32
  | Pcm_Tallied u32
  | Pcm_Underflow
  | Pcm_Leaving
  | Pcm_Done

record pcm_call =
  buf :: "int list option"
  byte_count :: int
  pcm_at :: pcm_pc

text \<open>One operation. \<open>answer\<close> is \<open>None\<close> for a load from the ring after which the read goes on, and
  the result of \<open>e1_audio_ring_read_next\<close> for the load that ends it.\<close>

definition full_frame :: "pcm_call \<Rightarrow> bool" where
  "full_frame c \<longleftrightarrow> buf c \<noteq> None \<and> byte_count c = int (unat E1_AUDIO_PCM_BYTES_PER_FRAME)"

fun pcm_op :: "read_result option \<Rightarrow> pcm_pc \<Rightarrow> pcm_call \<Rightarrow> pcm_hook \<Rightarrow> pcm_hook \<times> pcm_call" where
  "pcm_op answer Pcm_Entered c h = (h\<lparr>pcm_active := pcm_active h + 1\<rparr>, c\<lparr>pcm_at := Pcm_Counted\<rparr>)"
| "pcm_op answer Pcm_Counted c h =
     (h, c\<lparr>pcm_at := if full_frame c \<and> pcm_mode h = AUDIO_PCM_TONE then Pcm_Tone
                    else if full_frame c \<and> pcm_mode h = AUDIO_PCM_DOOM then Pcm_Doom
                    else Pcm_Leaving\<rparr>)"
| "pcm_op answer Pcm_Tone c h =
     (h\<lparr>pcm_frames := pcm_frames h + 1\<rparr>,
      c\<lparr>pcm_at := if pcm_frames h < STOCK_AUDIO_TONE_FRAMES then Pcm_Fill else Pcm_Expire\<rparr>)"
| "pcm_op answer Pcm_Fill c h =
     (h, c\<lparr>buf := map_option (\<lambda>b. e1_fill_tone_1khz_s16 b (unat E1_AUDIO_SAMPLES_PER_FRAME)) (buf c),
           pcm_at := Pcm_Positive\<rparr>)"
| "pcm_op answer Pcm_Positive c h =
     (h\<lparr>readback_positive := the (buf c) ! 4\<rparr>, c\<lparr>pcm_at := Pcm_Negative\<rparr>)"
| "pcm_op answer Pcm_Negative c h =
     (h\<lparr>readback_negative := the (buf c) ! 12\<rparr>, c\<lparr>pcm_at := Pcm_Leaving\<rparr>)"
| "pcm_op answer Pcm_Expire c h =
     (h\<lparr>pcm_mode := AUDIO_PCM_PASS_THROUGH\<rparr>, c\<lparr>pcm_at := Pcm_Leaving\<rparr>)"
| "pcm_op answer Pcm_Doom c h = (h, c\<lparr>pcm_at := Pcm_Ring (pcm_ring h)\<rparr>)"
| "pcm_op answer (Pcm_Ring r) c h =
     (h, c\<lparr>pcm_at := (case r of None \<Rightarrow> Pcm_Underflow | Some m \<Rightarrow> Pcm_Read m (pcm_last h))\<rparr>)"
| "pcm_op answer (Pcm_Read m prev) c h =
     (h, case answer of
           None \<Rightarrow> c
         | Some r \<Rightarrow> c\<lparr>buf := Some (rr_output r),
                       pcm_at := if rr_status r = 1 then Pcm_Got (rr_last r) (rr_dropped r)
                                 else Pcm_Underflow\<rparr>)"
| "pcm_op answer (Pcm_Got newest dropped) c h =
     (h\<lparr>pcm_last := newest\<rparr>, c\<lparr>pcm_at := Pcm_Advanced dropped\<rparr>)"
| "pcm_op answer (Pcm_Advanced dropped) c h =
     (h\<lparr>pcm_frames := pcm_frames h + 1\<rparr>, c\<lparr>pcm_at := Pcm_Tallied dropped\<rparr>)"
| "pcm_op answer (Pcm_Tallied dropped) c h =
     (h\<lparr>pcm_dropped := pcm_dropped h + dropped\<rparr>, c\<lparr>pcm_at := Pcm_Leaving\<rparr>)"
| "pcm_op answer Pcm_Underflow c h =
     (h\<lparr>pcm_underflows := pcm_underflows h + 1\<rparr>,
      c\<lparr>buf := Some silence, pcm_at := Pcm_Leaving\<rparr>)"
| "pcm_op answer Pcm_Leaving c h = (h\<lparr>pcm_active := pcm_active h - 1\<rparr>, c\<lparr>pcm_at := Pcm_Done\<rparr>)"
| "pcm_op answer Pcm_Done c h = (h, c)"

text \<open>The operations of an uninterrupted call.\<close>

fun pcm_run :: "nat \<Rightarrow> read_result option \<Rightarrow> pcm_call \<Rightarrow> pcm_hook \<Rightarrow> pcm_hook \<times> pcm_call" where
  "pcm_run 0 answer c h = (h, c)"
| "pcm_run (Suc n) answer c h =
     (let (h, c) = pcm_op answer (pcm_at c) c h in pcm_run n answer c h)"

section \<open>The worker's operations\<close>

text \<open>Where the worker is: the stores of \<open>start_stock_audio_doom\<close> after a valid ring has been mapped,
  those of \<open>start_stock_audio_tone\<close>, and those of \<open>cleanup_stock_audio_hook\<close>, whose loop has made
  \<open>n\<close> loads. The mapping is the one \<open>state->ring\<close> points to. \<open>Stop_Held\<close> is the state after the
  loop has given up.\<close>

datatype owner_pc =
    Own_Idle
  | Doom_Frames nat
  | Doom_Last nat
  | Doom_Dropped nat
  | Doom_Underflows nat
  | Doom_Ring nat
  | Doom_Mode nat
  | Doom_Marker nat
  | Doom_Running nat
  | Undo_Mode nat
  | Undo_Ring nat
  | Undo_Unmap nat
  | Tone_Frames
  | Tone_Positive
  | Tone_Negative
  | Tone_Mode
  | Tone_Marker
  | Tone_Running
  | Tone_Undo
  | Stop_Mode "nat option"
  | Stop_Wait nat "nat option"
  | Stop_Ring "nat option"
  | Stop_Unmap "nat option"
  | Stop_Held "nat option"

text \<open>The hook, the current call of each thread, the worker, the mappings that exist, the number of
  mappings made so far, and whether a load has faulted.\<close>

record pcm_world =
  pcm :: pcm_hook
  pcm_calls :: "nat \<Rightarrow> pcm_call"
  owner :: owner_pc
  mapped :: "nat set"
  mappings :: nat
  faulted :: bool

text \<open>\<open>ok\<close>: the marker was written.\<close>

fun owner_step :: "bool \<Rightarrow> owner_pc \<Rightarrow> pcm_world \<Rightarrow> pcm_world" where
  "owner_step ok (Doom_Frames r) w = w\<lparr>pcm := (pcm w)\<lparr>pcm_frames := 0\<rparr>, owner := Doom_Last r\<rparr>"
| "owner_step ok (Doom_Last r) w = w\<lparr>pcm := (pcm w)\<lparr>pcm_last := 0\<rparr>, owner := Doom_Dropped r\<rparr>"
| "owner_step ok (Doom_Dropped r) w =
     w\<lparr>pcm := (pcm w)\<lparr>pcm_dropped := 0\<rparr>, owner := Doom_Underflows r\<rparr>"
| "owner_step ok (Doom_Underflows r) w =
     w\<lparr>pcm := (pcm w)\<lparr>pcm_underflows := 0\<rparr>, owner := Doom_Ring r\<rparr>"
| "owner_step ok (Doom_Ring r) w = w\<lparr>pcm := (pcm w)\<lparr>pcm_ring := Some r\<rparr>, owner := Doom_Mode r\<rparr>"
| "owner_step ok (Doom_Mode r) w =
     w\<lparr>pcm := (pcm w)\<lparr>pcm_mode := AUDIO_PCM_DOOM\<rparr>, owner := Doom_Marker r\<rparr>"
| "owner_step ok (Doom_Marker r) w = w\<lparr>owner := if ok then Doom_Running r else Undo_Mode r\<rparr>"
| "owner_step ok (Undo_Mode r) w =
     w\<lparr>pcm := (pcm w)\<lparr>pcm_mode := AUDIO_PCM_PASS_THROUGH\<rparr>, owner := Undo_Ring r\<rparr>"
| "owner_step ok (Undo_Ring r) w = w\<lparr>pcm := (pcm w)\<lparr>pcm_ring := None\<rparr>, owner := Undo_Unmap r\<rparr>"
| "owner_step ok (Undo_Unmap r) w = w\<lparr>mapped := mapped w - {r}, owner := Own_Idle\<rparr>"
| "owner_step ok Tone_Frames w = w\<lparr>pcm := (pcm w)\<lparr>pcm_frames := 0\<rparr>, owner := Tone_Positive\<rparr>"
| "owner_step ok Tone_Positive w =
     w\<lparr>pcm := (pcm w)\<lparr>readback_positive := 0\<rparr>, owner := Tone_Negative\<rparr>"
| "owner_step ok Tone_Negative w = w\<lparr>pcm := (pcm w)\<lparr>readback_negative := 0\<rparr>, owner := Tone_Mode\<rparr>"
| "owner_step ok Tone_Mode w =
     w\<lparr>pcm := (pcm w)\<lparr>pcm_mode := AUDIO_PCM_TONE\<rparr>, owner := Tone_Marker\<rparr>"
| "owner_step ok Tone_Marker w = w\<lparr>owner := if ok then Tone_Running else Tone_Undo\<rparr>"
| "owner_step ok Tone_Undo w =
     w\<lparr>pcm := (pcm w)\<lparr>pcm_mode := AUDIO_PCM_PASS_THROUGH\<rparr>, owner := Own_Idle\<rparr>"
| "owner_step ok Tone_Running w =
     (if pcm_mode (pcm w) = AUDIO_PCM_PASS_THROUGH then w\<lparr>owner := Own_Idle\<rparr> else w)"
| "owner_step ok (Stop_Mode r) w =
     w\<lparr>pcm := (pcm w)\<lparr>pcm_mode := AUDIO_PCM_PASS_THROUGH\<rparr>, owner := Stop_Wait 0 r\<rparr>"
| "owner_step ok (Stop_Wait n r) w =
     w\<lparr>owner := if n \<ge> 100 then Stop_Held r
                else if pcm_active (pcm w) = 0 then Stop_Ring r else Stop_Wait (Suc n) r\<rparr>"
| "owner_step ok (Stop_Ring r) w = w\<lparr>pcm := (pcm w)\<lparr>pcm_ring := None\<rparr>, owner := Stop_Unmap r\<rparr>"
| "owner_step ok (Stop_Unmap r) w = w\<lparr>mapped := mapped w - set_option r, owner := Own_Idle\<rparr>"
| "owner_step ok Own_Idle w = w"
| "owner_step ok (Doom_Running r) w = w"
| "owner_step ok (Stop_Held r) w = w"

text \<open>\<open>Hook_Enter\<close>: a thread calls the hook. \<open>Hook_Step\<close>: its next operation. The starts happen only
  when \<open>audio_has_resources\<close> says no.\<close>

datatype pcm_event =
    Hook_Enter nat "int list option" int
  | Hook_Step nat "read_result option"
  | Start_Doom
  | Start_Tone
  | Stop_Audio
  | Owner_Step bool

definition can_start :: "owner_pc \<Rightarrow> bool" where
  "can_start p \<longleftrightarrow> p = Own_Idle \<or> p = Stop_Held None"

fun stop_from :: "owner_pc \<Rightarrow> owner_pc" where
  "stop_from Own_Idle = Stop_Mode None"
| "stop_from Tone_Running = Stop_Mode None"
| "stop_from (Doom_Running r) = Stop_Mode (Some r)"
| "stop_from (Stop_Held r) = Stop_Mode r"
| "stop_from p = p"

definition reads_from :: "pcm_pc \<Rightarrow> nat set" where
  "reads_from p = (case p of Pcm_Read m prev \<Rightarrow> {m} | _ \<Rightarrow> {})"

definition call_op :: "nat \<Rightarrow> read_result option \<Rightarrow> pcm_world \<Rightarrow> pcm_world" where
  "call_op i answer w =
     (let c = pcm_calls w i; (h, c') = pcm_op answer (pcm_at c) c (pcm w)
      in w\<lparr>pcm := h, pcm_calls := (pcm_calls w)(i := c'),
           faulted := faulted w \<or> \<not> reads_from (pcm_at c) \<subseteq> mapped w\<rparr>)"

fun pcm_step :: "pcm_event \<Rightarrow> pcm_world \<Rightarrow> pcm_world" where
  "pcm_step (Hook_Enter i b n) w =
     (if pcm_at (pcm_calls w i) = Pcm_Done
      then w\<lparr>pcm_calls := (pcm_calls w)(i := \<lparr>buf = b, byte_count = n, pcm_at = Pcm_Entered\<rparr>)\<rparr>
      else w)"
| "pcm_step (Hook_Step i answer) w = call_op i answer w"
| "pcm_step Start_Doom w =
     (if can_start (owner w)
      then w\<lparr>owner := Doom_Frames (mappings w), mapped := insert (mappings w) (mapped w),
             mappings := Suc (mappings w)\<rparr>
      else w)"
| "pcm_step Start_Tone w = (if can_start (owner w) then w\<lparr>owner := Tone_Frames\<rparr> else w)"
| "pcm_step Stop_Audio w = w\<lparr>owner := stop_from (owner w)\<rparr>"
| "pcm_step (Owner_Step ok) w = owner_step ok (owner w) w"

definition pcm_start :: pcm_world where
  "pcm_start = \<lparr>pcm = \<lparr>pcm_active = 0, pcm_frames = 0, pcm_mode = AUDIO_PCM_PASS_THROUGH,
       readback_positive = 0, readback_negative = 0, pcm_ring = None, pcm_last = 0,
       pcm_dropped = 0, pcm_underflows = 0\<rparr>,
     pcm_calls = (\<lambda>i. \<lparr>buf = None, byte_count = 0, pcm_at = Pcm_Done\<rparr>),
     owner = Own_Idle, mapped = {}, mappings = 0, faulted = False\<rparr>"


section \<open>The operations add up to the function\<close>

text \<open>The number of operations of an uninterrupted call whose read takes one answer.\<close>

lemma pcm_run_add: "pcm_run (m + n) answer c h = (let (h, c) = pcm_run m answer c h in pcm_run n answer c h)"
  by (induction m arbitrary: c h) (auto split: prod.split)

lemma fill_nonempty: "buf c = Some b \<Longrightarrow> the (buf c) = b"
  by simp

definition read_of :: "ring_view \<times> ring_view \<Rightarrow> pcm_call \<Rightarrow> pcm_hook \<Rightarrow> read_result" where
  "read_of views c h =
     e1_audio_ring_read_next (map_option (\<lambda>_. views) (pcm_ring h)) (pcm_last h) (the (buf c)) 0"

lemma pcm_done [simp]: "pcm_at c = Pcm_Done \<Longrightarrow> pcm_run n answer c h = (h, c)"
  by (induction n) simp_all

theorem pcm_route_refined:
  assumes "c = \<lparr>buf = b, byte_count = n, pcm_at = Pcm_Entered\<rparr>" and "r = read_of views c h"
  shows "pcm_run 9 (Some r) c h =
    (fst (e1_audio_pcm_hook_route views b n h),
     \<lparr>buf = snd (e1_audio_pcm_hook_route views b n h), byte_count = n, pcm_at = Pcm_Done\<rparr>)"
proof (cases "full_frame c \<and> pcm_mode h = AUDIO_PCM_DOOM")
  case True
  then obtain x where b: "b = Some x" by (auto simp: full_frame_def assms(1))
  show ?thesis
  proof (cases "pcm_ring h")
    case None
    with True b show ?thesis
      by (simp add: eval_nat_numeral full_frame_def assms e1_audio_pcm_hook_route_def pcm_doom_def
          e1_audio_ring_read_next_def Let_def)
  next
    case (Some m)
    have r: "r = e1_audio_ring_read_next (Some views) (pcm_last h) x 0"
      by (simp add: assms read_of_def Some b)
    show ?thesis using True b Some
      by (simp add: eval_nat_numeral full_frame_def assms(1) e1_audio_pcm_hook_route_def pcm_doom_def
          r [symmetric] Let_def)
  qed
next
  case False
  show ?thesis
  proof (cases "full_frame c")
    case full: True
    with False obtain x where "b = Some x" "pcm_mode h \<noteq> AUDIO_PCM_DOOM" by (auto simp: full_frame_def assms(1))
    with full show ?thesis
      by (cases "pcm_mode h") (simp_all add: eval_nat_numeral full_frame_def assms(1)
          e1_audio_pcm_hook_route_def pcm_tone_def Let_def)
  next
    case small: False
    then show ?thesis
      by (cases b) (simp_all add: eval_nat_numeral full_frame_def assms(1)
          e1_audio_pcm_hook_route_def Let_def)
  qed
qed

section \<open>What the stock encoder gets\<close>

lemma read_output_fresh: "read_attempts vs prev out1 d = read_attempts vs prev out2 d"
proof (induction vs arbitrary: out1 out2 d)
  case (Cons v vs)
  obtain t d' where target: "read_target (published_frame (at_published v)) prev d = (t, d')" by force
  show ?case
    unfolding read_attempts.simps(2) Let_def target prod.case Cons.IH [of out1 d' out2] by (rule refl)
qed simp

lemma doom_output_fresh: "pcm_doom views a h = pcm_doom views b h"
proof (cases "pcm_ring h")
  case None
  then show ?thesis by (simp add: pcm_doom_def e1_audio_ring_read_next_def Let_def)
next
  case (Some m)
  have "e1_audio_ring_read_next (Some views) prev a d = e1_audio_ring_read_next (Some views) prev b d" for prev d
    unfolding e1_audio_ring_read_next_def option.case
    by (cases views) (simp only: prod.case read_output_fresh [of _ prev a d b])
  with Some show ?thesis by (simp add: pcm_doom_def)
qed

text \<open>What a full frame becomes, in each mode. Without the game the microphone's samples pass
  unchanged; the tone replaces the first 256 frames and then turns itself off; and in the game's
  mode the result is a frame of the ring or silence and does not depend on what the microphone
  recorded.\<close>

theorem hook_output:
  assumes "length a = 1024" and "length b = 1024"
    and "hook = (\<lambda>x. e1_audio_pcm_hook_route views (Some x) 2048 h)"
  shows "(pcm_mode h = AUDIO_PCM_PASS_THROUGH \<longrightarrow> hook a = (h, Some a)) \<and>
    (pcm_mode h = AUDIO_PCM_TONE \<and> pcm_frames h < 256 \<longrightarrow>
       snd (hook a) = Some (map (\<lambda>i. tone_wave ! (i mod 16)) [0..<1024]) \<and>
       pcm_mode (fst (hook a)) = AUDIO_PCM_TONE) \<and>
    (pcm_mode h = AUDIO_PCM_TONE \<and> \<not> pcm_frames h < 256 \<longrightarrow>
       snd (hook a) = Some a \<and> pcm_mode (fst (hook a)) = AUDIO_PCM_PASS_THROUGH) \<and>
    (pcm_mode h = AUDIO_PCM_DOOM \<longrightarrow> hook a = hook b)"
proof -
  have bytes: "(2048 :: int) = int (unat E1_AUDIO_PCM_BYTES_PER_FRAME)" by (simp add: e1_consts E1_AUDIO_PCM_BYTES_PER_FRAME_def)
  have tone: "e1_fill_tone_1khz_s16 a 1024 = map (\<lambda>i. tone_wave ! (i mod 16)) [0..<1024]"
    proof (rule nth_equalityI)
    show len: "length (e1_fill_tone_1khz_s16 a 1024) = length (map (\<lambda>i. tone_wave ! (i mod 16)) [0..<1024])"
      by (simp add: e1_fill_tone_1khz_s16_def assms(1))
    fix i assume "i < length (e1_fill_tone_1khz_s16 a 1024)"
    then have "i < 1024" unfolding len by simp
    with tone_nth [of i 1024 a] show "e1_fill_tone_1khz_s16 a 1024 ! i =
        map (\<lambda>i. tone_wave ! (i mod 16)) [0..<1024] ! i"
      by (simp add: assms(1))
  qed
  have doom: "pcm_doom views a h' = pcm_doom views b h'" for h' by (rule doom_output_fresh)
  show ?thesis
    unfolding assms(3) e1_audio_pcm_hook_route_def bytes
    by (auto simp: Let_def pcm_tone_def tone doom e1_consts)
qed


section \<open>The active calls\<close>

definition pcm_counted :: "pcm_pc \<Rightarrow> bool" where
  "pcm_counted p \<longleftrightarrow> p \<noteq> Pcm_Entered \<and> p \<noteq> Pcm_Done"

definition pcm_inside :: "pcm_world \<Rightarrow> nat set" where
  "pcm_inside w = {i. pcm_counted (pcm_at (pcm_calls w i))}"

lemma owner_step_frame [e1_frame]:
  "pcm_calls (owner_step ok p w) = pcm_calls w"
  "pcm_active (pcm (owner_step ok p w)) = pcm_active (pcm w)"
  "faulted (owner_step ok p w) = faulted w"
  by (cases "(ok, p, w)" rule: owner_step.cases; simp)+

lemma op_counts:
  "(pcm_counted (pcm_at c), pcm_counted (pcm_at (snd (pcm_op answer (pcm_at c) c h))),
    pcm_active (fst (pcm_op answer (pcm_at c) c h))) \<in>
     {(False, True, pcm_active h + 1), (True, False, pcm_active h - 1),
      (False, False, pcm_active h), (True, True, pcm_active h)}"
  by (cases "pcm_at c") (auto simp: pcm_counted_def split: option.split)

lemma inside_call_op:
  assumes "pcm_op answer (pcm_at (pcm_calls w i)) (pcm_calls w i) (pcm w) = (h, c)"
  shows "pcm_inside (call_op i answer w) =
    (if pcm_counted (pcm_at c) then insert i (pcm_inside w) else pcm_inside w - {i})"
  by (auto simp: call_op_def pcm_inside_def assms Let_def)

lemma pcm_step_shape:
  "pcm_inside (pcm_step e w) = pcm_inside w \<and> pcm_active (pcm (pcm_step e w)) = pcm_active (pcm w) \<or>
   (\<exists>i. i \<notin> pcm_inside w \<and> pcm_inside (pcm_step e w) = insert i (pcm_inside w) \<and>
      pcm_active (pcm (pcm_step e w)) = pcm_active (pcm w) + 1) \<or>
   (\<exists>i. i \<in> pcm_inside w \<and> pcm_inside (pcm_step e w) = pcm_inside w - {i} \<and>
      pcm_active (pcm (pcm_step e w)) = pcm_active (pcm w) - 1)"
proof (cases e)
  case (Hook_Step i answer)
  let ?c = "pcm_calls w i"
  obtain h c where op: "pcm_op answer (pcm_at ?c) ?c (pcm w) = (h, c)" by force
  have active: "pcm_active (pcm (pcm_step e w)) = pcm_active h"
    by (simp add: Hook_Step call_op_def op Let_def)
  have ins: "pcm_inside (pcm_step e w) =
      (if pcm_counted (pcm_at c) then insert i (pcm_inside w) else pcm_inside w - {i})"
    by (simp add: Hook_Step inside_call_op [OF op])
  have "i \<in> pcm_inside w \<longleftrightarrow> pcm_counted (pcm_at ?c)" by (simp add: pcm_inside_def)
  with op_counts [of ?c answer "pcm w"] show ?thesis
    unfolding active ins op fst_conv snd_conv by (auto simp: insert_absorb)
next
  case (Hook_Enter i b n)
  then show ?thesis by (auto simp: pcm_inside_def pcm_counted_def)
qed (simp_all add: pcm_inside_def e1_frame)

interpretation pcm_counter: call_counter pcm_inside "\<lambda>w. pcm_active (pcm w)" pcm_step
  by unfold_locales (rule pcm_step_shape)

section \<open>The mapping of the ring\<close>

text \<open>The mapping the worker holds, the states in which the hook can see it, in which the mode can be
  the game's, and in which a call may be on its way to the ring.\<close>

fun ring_of :: "owner_pc \<Rightarrow> nat option" where
  "ring_of (Doom_Frames r) = Some r" | "ring_of (Doom_Last r) = Some r"
| "ring_of (Doom_Dropped r) = Some r" | "ring_of (Doom_Underflows r) = Some r"
| "ring_of (Doom_Ring r) = Some r" | "ring_of (Doom_Mode r) = Some r"
| "ring_of (Doom_Marker r) = Some r" | "ring_of (Doom_Running r) = Some r"
| "ring_of (Undo_Mode r) = Some r" | "ring_of (Undo_Ring r) = Some r" | "ring_of (Undo_Unmap r) = Some r"
| "ring_of (Stop_Mode r) = r" | "ring_of (Stop_Wait n r) = r" | "ring_of (Stop_Ring r) = r"
| "ring_of (Stop_Unmap r) = r" | "ring_of (Stop_Held r) = r"
| "ring_of _ = None"

definition ring_published :: "owner_pc \<Rightarrow> bool" where
  "ring_published p \<longleftrightarrow> (case p of
     Doom_Mode r \<Rightarrow> True | Doom_Marker r \<Rightarrow> True | Doom_Running r \<Rightarrow> True | Stop_Mode r \<Rightarrow> True
   | Stop_Wait n r \<Rightarrow> True | Stop_Ring r \<Rightarrow> True | Stop_Held r \<Rightarrow> True | _ \<Rightarrow> False)"

definition doom_phase :: "owner_pc \<Rightarrow> bool" where
  "doom_phase p \<longleftrightarrow> (case p of
     Doom_Marker r \<Rightarrow> True | Doom_Running r \<Rightarrow> True | Stop_Mode (Some r) \<Rightarrow> True | _ \<Rightarrow> False)"

definition pending_phase :: "owner_pc \<Rightarrow> bool" where
  "pending_phase p \<longleftrightarrow> doom_phase p \<or> (case p of
     Stop_Wait n (Some r) \<Rightarrow> True | Stop_Held (Some r) \<Rightarrow> True | _ \<Rightarrow> False)"

definition undoing :: "owner_pc \<Rightarrow> bool" where
  "undoing p \<longleftrightarrow> (case p of
     Undo_Mode r \<Rightarrow> True | Undo_Ring r \<Rightarrow> True | Undo_Unmap r \<Rightarrow> True | _ \<Rightarrow> False)"

lemmas phase_defs = ring_published_def doom_phase_def pending_phase_def undoing_def

text \<open>A call that goes to the ring, and the mapping it has loaded.\<close>

fun ring_bound :: "pcm_pc \<Rightarrow> bool" where
  "ring_bound Pcm_Doom = True"
| "ring_bound (Pcm_Ring r) = True"
| "ring_bound (Pcm_Read m prev) = True"
| "ring_bound _ = False"

fun ring_loaded :: "pcm_pc \<Rightarrow> nat set" where
  "ring_loaded (Pcm_Ring r) = set_option r"
| "ring_loaded (Pcm_Read m prev) = {m}"
| "ring_loaded _ = {}"

definition owner_ok :: "owner_pc \<Rightarrow> pcm_hook \<Rightarrow> bool" where
  "owner_ok p h \<longleftrightarrow> \<not> undoing p \<and> pcm_ring h = (if ring_published p then ring_of p else None) \<and>
     (pcm_mode h = AUDIO_PCM_DOOM \<longrightarrow> doom_phase p)"

definition call_in_phase :: "owner_pc \<Rightarrow> pcm_pc \<Rightarrow> bool" where
  "call_in_phase p c \<longleftrightarrow> ring_bound c \<longrightarrow> pending_phase p \<and> ring_loaded c \<subseteq> set_option (ring_of p)"

definition mapping_inv :: "pcm_world \<Rightarrow> bool" where
  "mapping_inv w \<longleftrightarrow> counts (pcm_inside w) (pcm_active (pcm w)) \<and> \<not> faulted w \<and>
     mapped w = set_option (ring_of (owner w)) \<and> owner_ok (owner w) (pcm w) \<and>
     (\<forall>i. call_in_phase (owner w) (pcm_at (pcm_calls w i)))"

text \<open>The runs in which the marker of \<open>start_stock_audio_doom\<close> can be written, with fewer than
  2^32 threads inside the hook.\<close>

definition marker_written :: "pcm_event \<Rightarrow> pcm_world \<Rightarrow> bool" where
  "marker_written e w \<longleftrightarrow> e \<noteq> Owner_Step False \<or> (\<forall>r. owner w \<noteq> Doom_Marker r)"

inductive pcm_reach :: "pcm_world \<Rightarrow> bool" where
  Pcm_Start: "pcm_reach pcm_start"
| Pcm_Next: "pcm_reach w \<Longrightarrow> marker_written e w \<Longrightarrow> card (pcm_inside (pcm_step e w)) < 2 ^ 32 \<Longrightarrow>
    pcm_reach (pcm_step e w)"

lemma pcm_reach_card: "pcm_reach w \<Longrightarrow> card (pcm_inside w) < 2 ^ 32"
  by (induction rule: pcm_reach.induct) (simp_all add: pcm_start_def pcm_inside_def pcm_counted_def)

text \<open>One operation of a call: it goes to the ring only in the game's mode, with the mapping the
  hook shows.\<close>

lemma op_in_phase:
  assumes "owner_ok p h" and "call_in_phase p (pcm_at c)"
  shows "owner_ok p (fst (pcm_op answer (pcm_at c) c h)) \<and>
    call_in_phase p (pcm_at (snd (pcm_op answer (pcm_at c) c h)))"
proof (cases "pcm_at c")
  case Pcm_Counted
  with assms show ?thesis
    by (auto simp: call_in_phase_def owner_ok_def pending_phase_def)
next
  case Pcm_Doom
  with assms show ?thesis by (simp add: call_in_phase_def owner_ok_def)
next
  case (Pcm_Ring r)
  with assms show ?thesis by (cases r) (simp_all add: call_in_phase_def owner_ok_def)
next
  case (Pcm_Read m prev)
  with assms show ?thesis by (cases answer) (simp_all add: call_in_phase_def owner_ok_def)
qed (use assms in \<open>simp_all add: call_in_phase_def owner_ok_def\<close>)

lemma not_pending: "call_in_phase p c \<Longrightarrow> \<not> pending_phase p \<Longrightarrow> call_in_phase q c"
  by (simp add: call_in_phase_def)

lemma not_bound: "\<not> ring_bound c \<Longrightarrow> call_in_phase q c"
  by (simp add: call_in_phase_def)

lemma keeps_phase:
  "call_in_phase p c \<Longrightarrow> ring_of q = ring_of p \<Longrightarrow> (pending_phase p \<Longrightarrow> pending_phase q) \<Longrightarrow> call_in_phase q c"
  by (auto simp: call_in_phase_def)

lemma bound_counted: "ring_bound c \<Longrightarrow> pcm_counted c"
  by (cases c) (simp_all add: pcm_counted_def)

lemma owner_step_inv:
  assumes "mapping_inv w" and "marker_written (Owner_Step ok) w" and "card (pcm_inside w) < 2 ^ 32"
  shows "mapped (owner_step ok (owner w) w) = set_option (ring_of (owner (owner_step ok (owner w) w))) \<and>
    owner_ok (owner (owner_step ok (owner w) w)) (pcm (owner_step ok (owner w) w)) \<and>
    (\<forall>i. call_in_phase (owner (owner_step ok (owner w) w)) (pcm_at (pcm_calls w i)))"
proof (cases "owner w")
  case (Stop_Wait n r)
  have "\<not> ring_bound (pcm_at (pcm_calls w i))" if "pcm_active (pcm w) = 0" for i
  proof -
    have "pcm_inside w = {}" using assms that by (intro pcm_counter.none_inside) (simp_all add: mapping_inv_def)
    then show ?thesis using bound_counted by (auto simp: pcm_inside_def)
  qed
  with assms(1) Stop_Wait show ?thesis
    by (auto simp: mapping_inv_def owner_ok_def phase_defs not_bound intro: keeps_phase split: option.splits)
qed (use assms(1,2) in \<open>auto simp: mapping_inv_def owner_ok_def phase_defs marker_written_def
    intro: keeps_phase not_pending split: option.splits\<close>)


lemma stop_from_ok:
  assumes "mapping_inv w"
  shows "ring_of (stop_from (owner w)) = ring_of (owner w) \<and> owner_ok (stop_from (owner w)) (pcm w) \<and>
    (pending_phase (owner w) \<longrightarrow> pending_phase (stop_from (owner w)))"
  using assms
  by (cases "owner w") (auto simp: mapping_inv_def owner_ok_def phase_defs split: option.splits)

lemma can_start_ok:
  assumes "mapping_inv w" and "can_start (owner w)"
  shows "mapped w = {} \<and> pcm_ring (pcm w) = None \<and> pcm_mode (pcm w) \<noteq> AUDIO_PCM_DOOM \<and>
    \<not> pending_phase (owner w)"
  using assms by (auto simp: mapping_inv_def owner_ok_def can_start_def phase_defs)

lemma mapping_inv_step:
  assumes inv: "mapping_inv w" and "marker_written e w" and few: "card (pcm_inside w) < 2 ^ 32"
  shows "mapping_inv (pcm_step e w)"
proof -
  have "counts (pcm_inside (pcm_step e w)) (pcm_active (pcm (pcm_step e w)))"
    using inv by (intro pcm_counter.counts_step) (simp add: mapping_inv_def)
  moreover have "\<not> faulted (pcm_step e w) \<and> mapped (pcm_step e w) = set_option (ring_of (owner (pcm_step e w))) \<and>
      owner_ok (owner (pcm_step e w)) (pcm (pcm_step e w)) \<and>
      (\<forall>i. call_in_phase (owner (pcm_step e w)) (pcm_at (pcm_calls (pcm_step e w) i)))"
  proof (cases e)
    case (Hook_Enter i b n)
    with inv show ?thesis by (auto simp: mapping_inv_def intro: not_bound)
  next
    case (Hook_Step i answer)
    let ?c = "pcm_calls w i"
    obtain h c where op: "pcm_op answer (pcm_at ?c) ?c (pcm w) = (h, c)" by force
    from inv have ok: "owner_ok (owner w) (pcm w)" and ph: "call_in_phase (owner w) (pcm_at ?c)"
      by (simp_all add: mapping_inv_def)
    have "reads_from (pcm_at ?c) \<subseteq> mapped w"
      using ph inv by (cases "pcm_at ?c") (auto simp: mapping_inv_def call_in_phase_def reads_from_def)
    with inv op_in_phase [OF ok ph, of answer] op show ?thesis
      by (simp add: Hook_Step call_op_def mapping_inv_def)
  next
    case Start_Doom
    with inv can_start_ok [OF inv] show ?thesis
      by (auto simp: mapping_inv_def owner_ok_def phase_defs intro: not_pending)
  next
    case Start_Tone
    with inv can_start_ok [OF inv] show ?thesis
      by (auto simp: mapping_inv_def owner_ok_def phase_defs intro: not_pending)
  next
    case Stop_Audio
    with inv stop_from_ok [OF inv] show ?thesis
      by (auto simp: mapping_inv_def intro: keeps_phase)
  next
    case (Owner_Step ok)
    with owner_step_inv [OF inv, of ok] assms show ?thesis
      by (simp add: mapping_inv_def e1_frame)
  qed
  ultimately show ?thesis by (simp add: mapping_inv_def)
qed

lemma mapping_inv_start: "mapping_inv pcm_start"
  by (simp add: mapping_inv_def pcm_start_def pcm_inside_def pcm_counted_def owner_ok_def phase_defs
      call_in_phase_def)

lemma pcm_reach_inv: "pcm_reach w \<Longrightarrow> mapping_inv w"
proof (induction rule: pcm_reach.induct)
  case (Pcm_Next w e)
  from Pcm_Next.IH Pcm_Next.hyps(2) pcm_reach_card [OF Pcm_Next.hyps(1)] show ?case
    by (rule mapping_inv_step)
qed (rule mapping_inv_start)


text \<open>Runs with one stock thread in which every marker can be written.\<close>

definition plain_event :: "pcm_event \<Rightarrow> bool" where
  "plain_event e \<longleftrightarrow> (case e of Hook_Enter i b n \<Rightarrow> i = 0 | Hook_Step i a \<Rightarrow> i = 0
     | Owner_Step ok \<Rightarrow> ok | _ \<Rightarrow> True)"

lemma plain_inside:
  assumes "plain_event e" and "pcm_inside w \<subseteq> {0}"
  shows "pcm_inside (pcm_step e w) \<subseteq> {0}"
proof (cases e)
  case (Hook_Step i answer)
  obtain h c where "pcm_op answer (pcm_at (pcm_calls w i)) (pcm_calls w i) (pcm w) = (h, c)" by force
  from inside_call_op [OF this] assms Hook_Step show ?thesis by (auto simp: plain_event_def)
qed (use assms in \<open>auto simp: plain_event_def pcm_inside_def e1_frame split: if_splits\<close>)

lemma plain_run_reach:
  "pcm_reach w \<Longrightarrow> pcm_inside w \<subseteq> {0} \<Longrightarrow> list_all plain_event es \<Longrightarrow> pcm_reach (fold pcm_step es w)"
proof (induction es arbitrary: w)
  case (Cons e es)
  from Cons.prems have plain: "plain_event e" by simp
  have "card (pcm_inside (pcm_step e w)) \<le> card {0 :: nat}"
    by (intro card_mono plain_inside plain Cons.prems) simp
  moreover have "marker_written e w" using plain by (cases e) (simp_all add: plain_event_def marker_written_def)
  ultimately have "pcm_reach (pcm_step e w)" using Cons.prems(1) by (intro Pcm_Next) simp_all
  with Cons.IH plain_inside [OF plain Cons.prems(2)] Cons.prems(3) show ?case by simp
qed simp

definition doom_audio_events :: "pcm_event list" where
  "doom_audio_events = [Start_Doom, Owner_Step True, Owner_Step True, Owner_Step True,
     Owner_Step True, Owner_Step True, Owner_Step True, Hook_Enter 0 (Some silence) 2048,
     Hook_Step 0 None, Hook_Step 0 None, Hook_Step 0 None, Hook_Step 0 None]"

lemma doom_audio_reading:
  "pcm_at (pcm_calls (fold pcm_step doom_audio_events pcm_start) 0) = Pcm_Read 0 0 \<and>
   mapped (fold pcm_step doom_audio_events pcm_start) = {0} \<and>
   owner (fold pcm_step doom_audio_events pcm_start) = Doom_Marker 0"
  by (simp add: doom_audio_events_def pcm_start_def can_start_def call_op_def
      reads_from_def full_frame_def e1_consts E1_AUDIO_PCM_BYTES_PER_FRAME_def)



end
