(* ===== verification/Injected_World.thy ===== *)
theory Injected_World
  imports Frame_Buffer Ptz_Path Audio_Hook
begin

text \<open>
  The surroundings of the worker of \<open>src/camera/e1-doom-injected.c\<close>: the vendor's media library,
  the file system, the clock and the memory other processes write.

  Every call into them is an element of \<open>call\<close>, and the worker's operations append the calls they
  make to a trace. What a call returns is the environment's choice: the functions of \<open>injected_env\<close>
  take the trace that ends with the call, so that the answer may depend on everything that happened
  before. The environment is an argument of every operation, and every theorem holds for all of
  them. A marker is a file of the state directory. The log files are not modelled.
\<close>

text \<open>The calls of the overlay's memory and encoder path.\<close>

datatype video_call =
    Alloc_Osg u32
  | Free_Osg
  | Venc_Open nat
  | Venc_Set_Buffer u32 u32
  | Venc_Set_Image "u16 list"
  | Venc_Set_Attribute
  | Venc_Start
  | Venc_Stop
  | Venc_Close

text \<open>The calls of the audio encoder, and the audio ring's file and mapping.\<close>

datatype audio_call =
    Alloc_Pcm u32
  | Free_Pcm
  | Aenc_Open
  | Aenc_Set_Path
  | Aenc_Set_In
  | Aenc_Set_Out
  | Aenc_Start
  | Aenc_Get_Buffer
  | Map_Output u32 u32
  | Unmap_Output
  | Aenc_Push nat
  | Aenc_Pull
  | Aenc_Release
  | Aenc_Stop
  | Aenc_Close
  | Open_Ring_File
  | Map_Ring_File
  | Unmap_Ring_File
  | Close_Ring_File

text \<open>The calls that deliver and store pictures: the heap, the camera's frame, the game's frames.\<close>

datatype picture_call =
    New_Pixels string u32
  | Delete_Pixels
  | Pull_Frame
  | Release_Frame
  | Open_Devmem
  | Close_Devmem
  | Map_Physical u32 u32
  | Unmap_Physical
  | Open_Frame_File
  | Stat_Frame_File
  | Map_Frame_File
  | Load_Frame
  | Unmap_Frame_File
  | Close_Frame_File

text \<open>Markers, time, commands and the PTZ hook.\<close>

datatype world_call =
    Write_Marker string string
  | Remove_Marker string
  | Test_Marker string
  | Take_Marker string
  | Read_Clock
  | Nap
  | Stat_Heartbeat
  | Open_Command
  | Take_Command
  | Read_Frame_Rate
  | Resolve_Sites
  | Open_Sender
  | Close_Sender
  | Store_Ptz_Mode ptz_hook_mode
  | Load_Ptz_Active
  | Load_Ptz_Ring

text \<open>The audio hook's variables and the vendor's device manager.\<close>

datatype hook_access =
    Load_Manager
  | Stat_Ring_File
  | Store_Pcm_Counters
  | Store_Pcm_Mode audio_pcm_mode
  | Store_Pcm_Ring bool
  | Load_Pcm_Active
  | Load_Pcm_Mode
  | Load_Pcm_Counters

datatype call =
    Video video_call
  | Audio audio_call
  | Picture picture_call
  | World world_call
  | Hook hook_access

type_synonym trace = "call list"

text \<open>A frame of the camera, as \<open>videoproc_pull\<close> fills it in.\<close>

record camera_frame =
  cf_yuv420 :: bool
  cf_width :: u32
  cf_height :: u32
  cf_luma_pitch :: u32
  cf_chroma_pitch :: u32
  cf_luma_rows :: u32
  cf_chroma_rows :: u32
  cf_luma_address :: u32
  cf_chroma_address :: u32

text \<open>A bitstream of the stock encoder, as \<open>audioenc_pull\<close> fills it in.\<close>

record audio_bitstream =
  bs_aac :: bool
  bs_address :: u32
  bs_size :: u32
  bs_timestamp :: u64

text \<open>\<open>succeeds\<close>: the call returns success; \<open>errno_at\<close>: the \<open>errno\<close> of one that does not. The others
  are the values some calls deliver: the clock in
  milliseconds, the physical address of an allocation or of the encoder's buffer and the size of
  that buffer, the pulled frame and bitstream, the page size, the bytes of mapped memory, the
  headers and slots of the game's frame buffer and the audio ring as they are loaded, the contents
  of memory fresh from \<open>malloc\<close>, the heartbeat's time, the bytes of the command file (\<open>None\<close>: the
  read failed), the configured frame rate, the hook's counters, and what the loads of
  \<open>drain_ptz_events\<close> see.\<close>

record injected_env =
  succeeds :: "trace \<Rightarrow> bool"
  errno_at :: "trace \<Rightarrow> int"
  clock_at :: "trace \<Rightarrow> u64"
  address_at :: "trace \<Rightarrow> u32"
  length_at :: "trace \<Rightarrow> u32"
  camera_at :: "trace \<Rightarrow> camera_frame"
  bitstream_at :: "trace \<Rightarrow> audio_bitstream"
  page_size :: int
  memory_at :: "trace \<Rightarrow> u8 list"
  buffer_at :: "trace \<Rightarrow> e1_framebuffer"
  slot_at_load :: "trace \<Rightarrow> nat \<Rightarrow> e1_frame_slot"
  frame_at :: "trace \<Rightarrow> frame_view"
  ring_at :: "trace \<Rightarrow> e1_audio_ring"
  fresh_at :: "trace \<Rightarrow> nat \<Rightarrow> u16"
  mtime_at :: "trace \<Rightarrow> int"
  command_at :: "trace \<Rightarrow> string option"
  configured_rate :: "string option"
  hook_at :: "trace \<Rightarrow> pcm_hook"
  ptz_active_at :: "trace \<Rightarrow> u32"
  ptz_views_at :: "trace \<Rightarrow> (ptz_ring_slot list \<times> u64) list"

text \<open>A call and whether it succeeded.\<close>

definition attempt :: "injected_env \<Rightarrow> call \<Rightarrow> trace \<Rightarrow> trace \<times> bool" where
  "attempt env c t = (t @ [c], succeeds env (t @ [c]))"

definition note_call :: "call \<Rightarrow> trace \<Rightarrow> trace" where
  "note_call c t = t @ [c]"

definition read_clock :: "injected_env \<Rightarrow> trace \<Rightarrow> trace \<times> u64" where
  "read_clock env t = (t @ [World Read_Clock], clock_at env (t @ [World Read_Clock]))"

lemma attempt_trace [simp]: "fst (attempt env c t) = t @ [c]"
  by (simp add: attempt_def)

end
