(* ===== verification/Vendor_Protocol.thy ===== *)
theory Vendor_Protocol
  imports Injected_World
begin

text \<open>
  What the vendor's media library asks of its caller, as two automata that read the trace of the
  worker's calls: memory is allocated before a path is opened and freed after it is closed, a path
  is started, stopped and closed in this order, and nothing is done twice. A call that comes in the
  wrong state makes the automaton reject. The files of the game (the audio ring) are tracked with
  the audio.
\<close>

datatype path_state = Path_Closed | Path_Opened | Path_Started

record video_hw =
  osg_memory :: bool
  venc_path :: path_state
  video_legal :: bool

record audio_hw =
  pcm_memory :: bool
  aenc_path :: path_state
  output_map :: bool
  ring_file :: bool
  ring_map :: bool
  audio_legal :: bool

text \<open>A path after a call that succeeds only if \<open>ok\<close>.\<close>

definition goes :: "bool \<Rightarrow> 'a \<Rightarrow> 'a \<Rightarrow> 'a" where
  "goes ok new old = (if ok then new else old)"

definition video_call_step :: "video_call \<Rightarrow> bool \<times> u32 \<Rightarrow> video_hw \<Rightarrow> video_hw" where
  "video_call_step c a h =
     (case c of
        Alloc_Osg n \<Rightarrow> h\<lparr>osg_memory := goes (fst a) True (osg_memory h),
                          video_legal := video_legal h \<and> \<not> osg_memory h\<rparr>
      | Free_Osg \<Rightarrow> h\<lparr>osg_memory := goes (fst a) False (osg_memory h),
                       video_legal := video_legal h \<and> osg_memory h \<and> venc_path h = Path_Closed\<rparr>
      | Venc_Open e \<Rightarrow> h\<lparr>venc_path := goes (fst a) Path_Opened (venc_path h),
                          video_legal := video_legal h \<and> osg_memory h \<and> venc_path h = Path_Closed\<rparr>
      | Venc_Set_Buffer pa n \<Rightarrow>
          h\<lparr>video_legal := video_legal h \<and> osg_memory h \<and> venc_path h = Path_Opened\<rparr>
      | Venc_Set_Image p \<Rightarrow> h\<lparr>video_legal := video_legal h \<and> venc_path h \<noteq> Path_Closed\<rparr>
      | Venc_Set_Attribute \<Rightarrow> h\<lparr>video_legal := video_legal h \<and> venc_path h \<noteq> Path_Closed\<rparr>
      | Venc_Start \<Rightarrow> h\<lparr>venc_path := goes (fst a) Path_Started (venc_path h),
                         video_legal := video_legal h \<and> venc_path h = Path_Opened\<rparr>
      | Venc_Stop \<Rightarrow> h\<lparr>venc_path := goes (fst a) Path_Opened (venc_path h),
                        video_legal := video_legal h \<and> venc_path h = Path_Started\<rparr>
      | Venc_Close \<Rightarrow> h\<lparr>venc_path := goes (fst a) Path_Closed (venc_path h),
                         video_legal := video_legal h \<and> venc_path h \<noteq> Path_Closed\<rparr>)"

definition audio_call_step :: "audio_call \<Rightarrow> bool \<times> u32 \<Rightarrow> audio_hw \<Rightarrow> audio_hw" where
  "audio_call_step c a h =
     (case c of
        Alloc_Pcm n \<Rightarrow> h\<lparr>pcm_memory := goes (fst a \<and> snd a \<noteq> 0) True (pcm_memory h),
                          audio_legal := audio_legal h \<and> \<not> pcm_memory h\<rparr>
      | Free_Pcm \<Rightarrow> h\<lparr>pcm_memory := goes (fst a) False (pcm_memory h),
                       audio_legal := audio_legal h \<and> pcm_memory h \<and> aenc_path h = Path_Closed\<rparr>
      | Aenc_Open \<Rightarrow> h\<lparr>aenc_path := goes (fst a) Path_Opened (aenc_path h),
                        audio_legal := audio_legal h \<and> pcm_memory h \<and> aenc_path h = Path_Closed\<rparr>
      | Aenc_Set_Path \<Rightarrow> h\<lparr>audio_legal := audio_legal h \<and> aenc_path h = Path_Opened\<rparr>
      | Aenc_Set_In \<Rightarrow> h\<lparr>audio_legal := audio_legal h \<and> aenc_path h = Path_Opened\<rparr>
      | Aenc_Set_Out \<Rightarrow> h\<lparr>audio_legal := audio_legal h \<and> aenc_path h = Path_Opened\<rparr>
      | Aenc_Start \<Rightarrow> h\<lparr>aenc_path := goes (fst a) Path_Started (aenc_path h),
                         audio_legal := audio_legal h \<and> aenc_path h = Path_Opened\<rparr>
      | Aenc_Get_Buffer \<Rightarrow> h\<lparr>audio_legal := audio_legal h \<and> aenc_path h = Path_Started\<rparr>
      | Map_Output pa n \<Rightarrow> h\<lparr>output_map := goes (fst a) True (output_map h),
                              audio_legal := audio_legal h \<and> \<not> output_map h \<and> aenc_path h = Path_Started\<rparr>
      | Unmap_Output \<Rightarrow> h\<lparr>output_map := goes (fst a) False (output_map h),
                           audio_legal := audio_legal h \<and> output_map h \<and> aenc_path h \<noteq> Path_Started\<rparr>
      | Aenc_Push i \<Rightarrow> h\<lparr>audio_legal := audio_legal h \<and> aenc_path h = Path_Started \<and> output_map h\<rparr>
      | Aenc_Pull \<Rightarrow> h\<lparr>audio_legal := audio_legal h \<and> aenc_path h = Path_Started\<rparr>
      | Aenc_Release \<Rightarrow> h\<lparr>audio_legal := audio_legal h \<and> aenc_path h = Path_Started\<rparr>
      | Aenc_Stop \<Rightarrow> h\<lparr>aenc_path := goes (fst a) Path_Opened (aenc_path h),
                        audio_legal := audio_legal h \<and> aenc_path h = Path_Started\<rparr>
      | Aenc_Close \<Rightarrow> h\<lparr>aenc_path := goes (fst a) Path_Closed (aenc_path h),
                         audio_legal := audio_legal h \<and> aenc_path h = Path_Opened \<and> \<not> output_map h\<rparr>
      | Open_Ring_File \<Rightarrow> h\<lparr>ring_file := goes (fst a) True (ring_file h),
                             audio_legal := audio_legal h \<and> \<not> ring_file h\<rparr>
      | Close_Ring_File \<Rightarrow> h\<lparr>ring_file := False, audio_legal := audio_legal h \<and> ring_file h\<rparr>
      | Map_Ring_File \<Rightarrow> h\<lparr>ring_map := goes (fst a) True (ring_map h),
                            audio_legal := audio_legal h \<and> ring_file h \<and> \<not> ring_map h\<rparr>
      | Unmap_Ring_File \<Rightarrow> h\<lparr>ring_map := False, audio_legal := audio_legal h \<and> ring_map h\<rparr>)"

definition video_step :: "call \<Rightarrow> bool \<times> u32 \<Rightarrow> video_hw \<Rightarrow> video_hw" where
  "video_step c a h = (case c of Video v \<Rightarrow> video_call_step v a h | _ \<Rightarrow> h)"

definition audio_hw_step :: "call \<Rightarrow> bool \<times> u32 \<Rightarrow> audio_hw \<Rightarrow> audio_hw" where
  "audio_hw_step c a h = (case c of Audio v \<Rightarrow> audio_call_step v a h | _ \<Rightarrow> h)"

text \<open>An automaton along a trace, with the answers of the environment.\<close>

fun run_backwards :: "(call \<Rightarrow> bool \<times> u32 \<Rightarrow> 'h \<Rightarrow> 'h) \<Rightarrow> 'h \<Rightarrow> injected_env \<Rightarrow> trace \<Rightarrow> 'h" where
  "run_backwards step h env [] = h"
| "run_backwards step h env (c # r) =
     step c (succeeds env (rev (c # r)), address_at env (rev (c # r))) (run_backwards step h env r)"

definition video_idle :: video_hw where
  "video_idle = \<lparr>osg_memory = False, venc_path = Path_Closed, video_legal = True\<rparr>"

definition audio_idle :: audio_hw where
  "audio_idle = \<lparr>pcm_memory = False, aenc_path = Path_Closed, output_map = False, ring_file = False,
     ring_map = False, audio_legal = True\<rparr>"

definition video_of :: "injected_env \<Rightarrow> trace \<Rightarrow> video_hw" where
  "video_of env t = run_backwards video_step video_idle env (rev t)"

definition audio_of :: "injected_env \<Rightarrow> trace \<Rightarrow> audio_hw" where
  "audio_of env t = run_backwards audio_hw_step audio_idle env (rev t)"

lemma video_of_Nil [simp]: "video_of env [] = video_idle"
  by (simp add: video_of_def)

lemma audio_of_Nil [simp]: "audio_of env [] = audio_idle"
  by (simp add: audio_of_def)

text \<open>The last call of a trace; an equation for traces that end with a list of calls.\<close>

lemma video_of_calls [simp]:
  "video_of env (t @ c # cs) =
     video_step (last (c # cs)) (succeeds env (t @ c # cs), address_at env (t @ c # cs))
       (video_of env (t @ butlast (c # cs)))"
  by (cases cs rule: rev_cases) (simp_all add: video_of_def butlast_append)

lemma audio_of_calls [simp]:
  "audio_of env (t @ c # cs) =
     audio_hw_step (last (c # cs)) (succeeds env (t @ c # cs), address_at env (t @ c # cs))
       (audio_of env (t @ butlast (c # cs)))"
  by (cases cs rule: rev_cases) (simp_all add: audio_of_def butlast_append)

lemma goes_simps [simp]: "goes True new old = new" "goes False new old = old"
  by (simp_all add: goes_def)

text \<open>A call of neither automaton; the calls of one leave the other alone.\<close>

fun neutral :: "call \<Rightarrow> bool" where
  "neutral (Video c) = False"
| "neutral (Audio c) = False"
| "neutral c = True"

lemma neutral_step [simp]:
  "neutral c \<Longrightarrow> video_step c a v = v" "neutral c \<Longrightarrow> audio_hw_step c a h = h"
  by (cases c; simp add: video_step_def audio_hw_step_def)+

lemma other_step [simp]: "audio_hw_step (Video c) a h = h" "video_step (Audio d) a v = v"
  by (simp_all add: video_step_def audio_hw_step_def)

text \<open>The automata, call by call.\<close>

lemma audio_hw_simps:
  "audio_hw_step (Audio (Alloc_Pcm n)) a h = h\<lparr>pcm_memory := goes (fst a
     \<and> snd a \<noteq> 0) True (pcm_memory h), audio_legal := audio_legal h
     \<and> \<not> pcm_memory h\<rparr>"
  "audio_hw_step (Audio Free_Pcm) a h = h\<lparr>pcm_memory := goes (fst a) False (pcm_memory h),
     audio_legal := audio_legal h \<and> pcm_memory h \<and> aenc_path h = Path_Closed\<rparr>"
  "audio_hw_step (Audio Aenc_Open) a h = h\<lparr>aenc_path := goes (fst a) Path_Opened (aenc_path h),
     audio_legal := audio_legal h \<and> pcm_memory h \<and> aenc_path h = Path_Closed\<rparr>"
  "audio_hw_step (Audio Aenc_Set_Path) a h = h\<lparr>audio_legal := audio_legal h
     \<and> aenc_path h = Path_Opened\<rparr>"
  "audio_hw_step (Audio Aenc_Set_In) a h = h\<lparr>audio_legal := audio_legal h
     \<and> aenc_path h = Path_Opened\<rparr>"
  "audio_hw_step (Audio Aenc_Set_Out) a h = h\<lparr>audio_legal := audio_legal h
     \<and> aenc_path h = Path_Opened\<rparr>"
  "audio_hw_step (Audio Aenc_Start) a h = h\<lparr>aenc_path := goes (fst a) Path_Started (aenc_path h),
     audio_legal := audio_legal h \<and> aenc_path h = Path_Opened\<rparr>"
  "audio_hw_step (Audio Aenc_Get_Buffer) a h = h\<lparr>audio_legal := audio_legal h
     \<and> aenc_path h = Path_Started\<rparr>"
  "audio_hw_step (Audio (Map_Output pa n)) a h = h\<lparr>output_map := goes (fst a) True (output_map h),
     audio_legal := audio_legal h \<and> \<not> output_map h \<and> aenc_path h = Path_Started\<rparr>"
  "audio_hw_step (Audio Unmap_Output) a h = h\<lparr>output_map := goes (fst a) False (output_map h),
     audio_legal := audio_legal h \<and> output_map h \<and> aenc_path h \<noteq> Path_Started\<rparr>"
  "audio_hw_step (Audio (Aenc_Push i)) a h = h\<lparr>audio_legal := audio_legal h
     \<and> aenc_path h = Path_Started \<and> output_map h\<rparr>"
  "audio_hw_step (Audio Aenc_Pull) a h = h\<lparr>audio_legal := audio_legal h
     \<and> aenc_path h = Path_Started\<rparr>"
  "audio_hw_step (Audio Aenc_Release) a h = h\<lparr>audio_legal := audio_legal h
     \<and> aenc_path h = Path_Started\<rparr>"
  "audio_hw_step (Audio Aenc_Stop) a h = h\<lparr>aenc_path := goes (fst a) Path_Opened (aenc_path h),
     audio_legal := audio_legal h \<and> aenc_path h = Path_Started\<rparr>"
  "audio_hw_step (Audio Aenc_Close) a h = h\<lparr>aenc_path := goes (fst a) Path_Closed (aenc_path h),
     audio_legal := audio_legal h \<and> aenc_path h = Path_Opened
     \<and> \<not> output_map h\<rparr>"
  "audio_hw_step (Audio Open_Ring_File) a h = h\<lparr>ring_file := goes (fst a) True (ring_file h),
     audio_legal := audio_legal h \<and> \<not> ring_file h\<rparr>"
  "audio_hw_step (Audio Close_Ring_File) a h = h\<lparr>ring_file := False,
     audio_legal := audio_legal h \<and> ring_file h\<rparr>"
  "audio_hw_step (Audio Map_Ring_File) a h = h\<lparr>ring_map := goes (fst a) True (ring_map h),
     audio_legal := audio_legal h \<and> ring_file h \<and> \<not> ring_map h\<rparr>"
  "audio_hw_step (Audio Unmap_Ring_File) a h = h\<lparr>ring_map := False,
     audio_legal := audio_legal h \<and> ring_map h\<rparr>"
  by (simp_all add: audio_hw_step_def audio_call_step_def)

lemma video_hw_simps:
  "video_step (Video (Alloc_Osg n)) a h = h\<lparr>osg_memory := goes (fst a) True (osg_memory h),
     video_legal := video_legal h \<and> \<not> osg_memory h\<rparr>"
  "video_step (Video Free_Osg) a h = h\<lparr>osg_memory := goes (fst a) False (osg_memory h),
     video_legal := video_legal h \<and> osg_memory h \<and> venc_path h = Path_Closed\<rparr>"
  "video_step (Video (Venc_Open e)) a h = h\<lparr>venc_path := goes (fst a) Path_Opened (venc_path h),
     video_legal := video_legal h \<and> osg_memory h \<and> venc_path h = Path_Closed\<rparr>"
  "video_step (Video (Venc_Set_Buffer pa n)) a h = h\<lparr>video_legal := video_legal h
     \<and> osg_memory h \<and> venc_path h = Path_Opened\<rparr>"
  "video_step (Video (Venc_Set_Image p)) a h = h\<lparr>video_legal := video_legal h
     \<and> venc_path h \<noteq> Path_Closed\<rparr>"
  "video_step (Video Venc_Set_Attribute) a h = h\<lparr>video_legal := video_legal h
     \<and> venc_path h \<noteq> Path_Closed\<rparr>"
  "video_step (Video Venc_Start) a h = h\<lparr>venc_path := goes (fst a) Path_Started (venc_path h),
     video_legal := video_legal h \<and> venc_path h = Path_Opened\<rparr>"
  "video_step (Video Venc_Stop) a h = h\<lparr>venc_path := goes (fst a) Path_Opened (venc_path h),
     video_legal := video_legal h \<and> venc_path h = Path_Started\<rparr>"
  "video_step (Video Venc_Close) a h = h\<lparr>venc_path := goes (fst a) Path_Closed (venc_path h),
     video_legal := video_legal h \<and> venc_path h \<noteq> Path_Closed\<rparr>"
  by (simp_all add: video_step_def video_call_step_def)

text \<open>Traces that differ by neutral calls only.\<close>

definition same_hw :: "injected_env \<Rightarrow> trace \<Rightarrow> trace \<Rightarrow> bool" where
  "same_hw env t t' \<longleftrightarrow> video_of env t' = video_of env t \<and> audio_of env t' = audio_of env t"

lemma same_hw_refl [simp]: "same_hw env t t"
  by (simp add: same_hw_def)

lemma same_hw_trans: "same_hw env t t' \<Longrightarrow> same_hw env t' t'' \<Longrightarrow> same_hw env t t''"
  by (simp add: same_hw_def)

lemma same_hw_call [simp]: "neutral c \<Longrightarrow> same_hw env t (t @ [c])"
  by (simp add: same_hw_def)

lemma same_hw_note [simp]: "neutral c \<Longrightarrow> same_hw env t (note_call c t)"
  by (simp add: note_call_def)

lemma same_hw_list: "list_all neutral cs \<Longrightarrow> same_hw env t (t @ cs)"
proof (induction cs rule: rev_induct)
  case (snoc c cs)
  then have "same_hw env t (t @ cs)" and c: "neutral c" by simp_all
  from same_hw_trans [OF this(1) same_hw_call [OF c]] show ?case by simp
qed simp

lemma same_hw_then: "neutral c \<Longrightarrow> same_hw env (note_call c t) t' \<Longrightarrow> same_hw env t t'"
  by (rule same_hw_trans [OF same_hw_note])

end
