(* ===== verification/Media_Path.thy ===== *)
theory Media_Path
  imports Vendor_Protocol Melt
begin

text \<open>
  The video side of \<open>src/camera/e1-doom-injected.c\<close>: the game's frame buffer as a source, the
  snapshot of the camera, the overlay image and the resources it needs (\<open>start_media\<close>,
  \<open>cleanup_media\<close>).
\<close>

section \<open>Data\<close>

text \<open>\<open>struct media_state\<close>. The part that reads frames is the field \<open>src\<close>, whose \<open>source_open\<close>
  says that \<open>framebuffer\<close> is mapped; \<open>frame_fd\<close> says that the file is open.\<close>

record media_state =
  src :: frame_source
  frame_fd :: bool
  media_pa :: u32
  media_size :: u32
  pixels :: "u16 list option"
  doom_pixels :: "u16 list option"
  camera_pixels :: "u16 list option"
  img_width :: u32
  img_height :: u32
  encoder :: nat
  phase :: u32
  allocated :: bool
  path_open :: bool
  path_started :: bool
  checkerboard :: bool
  doom_frames :: bool
  entry_melt :: bool
  video_published_frames :: u32
  video_publish_errors :: u32
  video_stats_started_ms :: u64
  melt :: e1_melt_state
  melt_last_ms :: u64
  melt_tick_remainder :: u64

definition media_zero :: media_state where
  "media_zero = \<lparr>src = \<lparr>source_open = False, last_frame_sequence = 0, source_width = 0,
       source_height = 0, x_map = replicate E1_OSG_WIDTH 0, y_map = replicate E1_OSG_HEIGHT 0,
       video_retries = 0, video_source_drops = 0, video_source_frames = 0\<rparr>,
     frame_fd = False, media_pa = 0, media_size = 0, pixels = None, doom_pixels = None,
     camera_pixels = None, img_width = 0, img_height = 0, encoder = 0, phase = 0,
     allocated = False, path_open = False, path_started = False, checkerboard = False,
     doom_frames = False, entry_melt = False, video_published_frames = 0,
     video_publish_errors = 0, video_stats_started_ms = 0,
     melt = \<lparr>row = replicate E1_MELT_COLUMNS 0\<rparr>, melt_last_ms = 0, melt_tick_remainder = 0\<rparr>"

section \<open>The game's frames\<close>

definition close_frame_source :: "media_state \<Rightarrow> trace \<Rightarrow> media_state \<times> trace" where
  "close_frame_source s t =
     (let t = (if source_open (src s) then note_call (Picture Unmap_Frame_File) t else t);
          t = (if frame_fd s then note_call (Picture Close_Frame_File) t else t)
      in (s\<lparr>src := (src s)\<lparr>source_open := False, last_frame_sequence := 0, source_width := 0,
                         source_height := 0\<rparr>,
            frame_fd := False, doom_frames := False\<rparr>, t))"

text \<open>The wait for a closed slot; the trace tells the attempts apart.\<close>

fun settle_slot :: "injected_env \<Rightarrow> nat \<Rightarrow> trace \<Rightarrow> trace" where
  "settle_slot env 0 t = t"
| "settle_slot env (Suc n) t =
     (if fr_sequence (slot_at_load env t 0) AND 1 \<noteq> 0 then settle_slot env n (note_call (World Nap) t) else t)"

definition refuse_source :: "media_state \<Rightarrow> trace \<Rightarrow> media_state \<times> trace \<times> bool" where
  "refuse_source s t = (let (s, t) = close_frame_source s t in (s, t, False))"

text \<open>The mapped frame buffer's active slot.\<close>

definition accept_source :: "injected_env \<Rightarrow> media_state \<Rightarrow> trace \<Rightarrow> media_state \<times> trace \<times> bool" where
  "accept_source env s t =
     (let t = settle_slot env 40 t; slot = slot_at_load env t;
          (xm, ym, built) = e1_build_scale_maps (unat (fr_width (slot 2)))
            (unat (fr_height (slot 3))) (x_map (src s)) (y_map (src s));
          settled = (fr_sequence (slot 1) AND 1 = 0);
          s = (if settled then s\<lparr>src := (src s)\<lparr>x_map := xm, y_map := ym\<rparr>\<rparr> else s)
      in if \<not> settled \<or> built \<noteq> 0 \<or> fr_pitch (slot 4) < fr_width (slot 5) \<or>
            unat (fr_pitch (slot 6)) * unat (fr_height (slot 7)) > E1_FRAME_MAX_PIXELS
         then refuse_source s t
         else (s\<lparr>src := (src s)\<lparr>source_width := fr_width (slot 8),
                               source_height := fr_height (slot 9)\<rparr>,
                 doom_frames := True\<rparr>, t, True))"

definition open_frame_source :: "injected_env \<Rightarrow> media_state \<Rightarrow> trace \<Rightarrow> media_state \<times> trace \<times> bool" where
  "open_frame_source env s t =
     (let (t, opened) = attempt env (Picture Open_Frame_File) t;
          s = s\<lparr>frame_fd := opened\<rparr>;
          (t, stat) = (if opened then attempt env (Picture Stat_Frame_File) t else (t, False));
          (t, mapped) = (if stat then attempt env (Picture Map_Frame_File) t else (t, False))
      in if \<not> mapped then refuse_source s t
         else
           (let s = s\<lparr>src := (src s)\<lparr>source_open := True\<rparr>\<rparr>; fb = buffer_at env t
            in if fb_magic fb \<noteq> E1_FRAME_MAGIC \<or> fb_version fb \<noteq> E1_FRAME_VERSION \<or>
                  fb_structure_size fb \<noteq> sizeof_framebuffer \<or> frame_sequence fb = 0
               then refuse_source s t else accept_source env s t))"

text \<open>One conversion into a buffer of the state.\<close>

definition load_frame ::
    "injected_env \<Rightarrow> media_state \<Rightarrow> u16 list option \<Rightarrow> trace \<Rightarrow>
     media_state \<times> u16 list option \<times> trace \<times> int" where
  "load_frame env s out t =
     (let t = note_call (Picture Load_Frame) t; (f, out, status) = convert_doom_frame (src s) (frame_at env t) out
      in (s\<lparr>src := f\<rparr>, out, t, status))"

fun wait_for_frame ::
    "nat \<Rightarrow> injected_env \<Rightarrow> media_state \<Rightarrow> u16 list option \<Rightarrow> trace \<Rightarrow>
     media_state \<times> u16 list option \<times> trace \<times> bool" where
  "wait_for_frame 0 env s out t = (s, out, t, False)"
| "wait_for_frame (Suc n) env s out t =
     (let (s, out, t, status) = load_frame env s out t
      in if status = 0 then (s, out, t, True) else wait_for_frame n env s out (note_call (World Nap) t))"

definition wait_for_stable_doom_frame ::
    "injected_env \<Rightarrow> media_state \<Rightarrow> u16 list option \<Rightarrow> trace \<Rightarrow>
     media_state \<times> u16 list option \<times> trace \<times> bool" where
  "wait_for_stable_doom_frame = wait_for_frame 40"

section \<open>The camera's frame\<close>

text \<open>A mapping of physical memory: its first byte, its size and the offset of the bytes asked for.\<close>

record e1_read_mapping =
  map_base :: u32
  map_size :: u32
  map_offset :: u32

definition map_physical_readonly ::
    "injected_env \<Rightarrow> bool \<Rightarrow> u32 \<Rightarrow> u32 \<Rightarrow> trace \<Rightarrow> trace \<times> e1_read_mapping option" where
  "map_physical_readonly env descriptor physical_address sz t =
     (let page = word_of_int (page_size env) :: u32
      in if \<not> descriptor \<or> physical_address = 0 \<or> sz = 0 \<or> page_size env \<le> 0 \<or>
            page AND (page - 1) \<noteq> 0 then (t, None)
         else
           (let aligned = physical_address AND NOT (page - 1); offset = physical_address - aligned
            in if offset > 0xffffffff - sz then (t, None)
               else (let (t, mapped) = attempt env (Picture (Map_Physical aligned (offset + sz))) t
                     in (t, if mapped then Some \<lparr>map_base = aligned, map_size = offset + sz,
                                                 map_offset = offset\<rparr> else None))))"

definition unmap_physical_readonly :: "e1_read_mapping option \<Rightarrow> trace \<Rightarrow> trace" where
  "unmap_physical_readonly m t = (case m of None \<Rightarrow> t | Some _ \<Rightarrow> note_call (Picture Unmap_Physical) t)"

definition frame_usable :: "camera_frame \<Rightarrow> bool" where
  "frame_usable f \<longleftrightarrow> \<not> (\<not> cf_yuv420 f \<or>
     cf_width f \<noteq> word_of_nat E1_OSG_WIDTH \<or> cf_height f \<noteq> word_of_nat E1_OSG_HEIGHT \<or>
     cf_luma_pitch f < word_of_nat E1_OSG_WIDTH \<or> cf_chroma_pitch f < word_of_nat E1_OSG_WIDTH \<or>
     cf_luma_rows f < word_of_nat E1_OSG_HEIGHT \<or> cf_chroma_rows f < word_of_nat (E1_OSG_HEIGHT div 2) \<or>
     cf_luma_address f = 0 \<or> cf_chroma_address f = 0 \<or>
     cf_luma_pitch f > 0xffffffff div cf_luma_rows f \<or>
     cf_chroma_pitch f > 0xffffffff div cf_chroma_rows f)"

text \<open>The bytes behind a mapping, from its offset on.\<close>

definition mapped_bytes :: "injected_env \<Rightarrow> trace \<Rightarrow> e1_read_mapping \<Rightarrow> u8 list" where
  "mapped_bytes env t m = drop (unat (map_offset m)) (take (unat (map_size m)) (memory_at env t))"

definition convert_camera ::
    "injected_env \<Rightarrow> camera_frame \<Rightarrow> media_state \<Rightarrow> trace \<Rightarrow> media_state \<times> trace \<times> int" where
  "convert_camera env f s t =
     (let luma_size = cf_luma_pitch f * cf_luma_rows f;
          chroma_size = cf_chroma_pitch f * cf_chroma_rows f;
          (t, fd) = attempt env (Picture Open_Devmem) t;
          (t, luma) = (if fd then map_physical_readonly env True (cf_luma_address f) luma_size t
                       else (t, None));
          luma_bytes = map_option (mapped_bytes env t) luma;
          (t, chroma) = (if luma \<noteq> None
                         then map_physical_readonly env True (cf_chroma_address f) chroma_size t
                         else (t, None));
          chroma_bytes = map_option (mapped_bytes env t) chroma;
          (out, result) =
            (if chroma = None then (camera_pixels s, -1)
             else e1_convert_nv12_argb4444 (camera_pixels s) luma_bytes chroma_bytes
                    (unat (cf_width f)) (unat (cf_height f)) (unat (cf_luma_pitch f))
                    (unat (cf_chroma_pitch f)));
          t = unmap_physical_readonly luma (unmap_physical_readonly chroma t);
          t = (if fd then note_call (Picture Close_Devmem) t else t)
      in (s\<lparr>camera_pixels := out\<rparr>, t, result))"

definition capture_camera_snapshot ::
    "injected_env \<Rightarrow> media_state \<Rightarrow> trace \<Rightarrow> media_state \<times> trace \<times> bool" where
  "capture_camera_snapshot env s t =
     (if camera_pixels s = None then (s, t, False)
      else
        (let (t, pulled) = attempt env (Picture Pull_Frame) t
         in if \<not> pulled then (s, t, False)
            else (let f = camera_at env t;
                      (s, t, result) = (if frame_usable f then convert_camera env f s t else (s, t, -1));
                      (t, released) = attempt env (Picture Release_Frame) t
                  in (s, t, released \<and> result = 0))))"

section \<open>The overlay\<close>

definition required_buffer_size :: "u32 \<Rightarrow> u32 \<Rightarrow> u32" where
  "required_buffer_size width height =
     (let line = (ucast width * 2 + 63) AND NOT 63 :: u64;
          total = (line * ucast height * 2 + 127) AND NOT 127
      in if total = 0 \<or> total > 0xffffffff then 0 else ucast total)"

definition fill_value :: "bool \<Rightarrow> u32 \<Rightarrow> nat \<Rightarrow> nat \<Rightarrow> u16" where
  "fill_value transparent ph x y =
     (if transparent then 0
      else if (word_of_nat (x div 32) + word_of_nat (y div 32) + ph) AND (1 :: u32) = 0 then 0xffff
      else 0xf05f)"

text \<open>\<open>fill_pixels\<close> on the buffer; the caller has allocated it.\<close>

definition fill_pixels :: "media_state \<Rightarrow> bool \<Rightarrow> media_state" where
  "fill_pixels s transparent =
     s\<lparr>pixels := map_option (fold (\<lambda>y. fold (\<lambda>x out.
         out[y * unat (img_width s) + x := fill_value transparent (phase s) x y])
       [0..<unat (img_width s)]) [0..<unat (img_height s)]) (pixels s)\<rparr>"

definition publish_image :: "injected_env \<Rightarrow> media_state \<Rightarrow> trace \<Rightarrow> media_state \<times> trace \<times> bool" where
  "publish_image env s t =
     (let (t, ok) = attempt env (Video (Venc_Set_Image (case pixels s of None \<Rightarrow> [] | Some p \<Rightarrow> p))) t;
          s = (if doom_frames s
               then if ok then s\<lparr>video_published_frames := video_published_frames s + 1\<rparr>
                    else s\<lparr>video_publish_errors := video_publish_errors s + 1\<rparr>
               else s)
      in (s, t, ok))"

definition reset_video_stats :: "injected_env \<Rightarrow> media_state \<Rightarrow> u64 \<Rightarrow> trace \<Rightarrow> media_state \<times> trace" where
  "reset_video_stats env s now t =
     (let f = (src s)\<lparr>video_source_frames := 0, video_source_drops := 0, video_retries := 0\<rparr>;
          f = (if source_open f then f\<lparr>last_frame_sequence := frame_sequence (buffer_at env t)\<rparr> else f)
      in (s\<lparr>src := f, video_published_frames := 0, video_publish_errors := 0,
            video_stats_started_ms := now\<rparr>, note_call (World (Remove_Marker ''video.stats'')) t))"

definition allocate_media ::
    "injected_env \<Rightarrow> media_state \<Rightarrow> u32 \<Rightarrow> u32 \<Rightarrow> trace \<Rightarrow> media_state \<times> trace \<times> bool" where
  "allocate_media env s width height t =
     (let s = s\<lparr>media_size := required_buffer_size width height\<rparr>
      in if media_size s = 0 then (s, t, False)
         else (let (t, ok) = attempt env (Video (Alloc_Osg (media_size s))) t
               in if \<not> ok then (s, t, False)
                  else (let s = s\<lparr>media_pa := address_at env t, allocated := True\<rparr>
                        in (s, t, media_pa s AND 0x7f = 0))))"

text \<open>\<open>malloc\<close> of a picture.\<close>

definition new_pixels :: "injected_env \<Rightarrow> string \<Rightarrow> nat \<Rightarrow> trace \<Rightarrow> trace \<times> u16 list option" where
  "new_pixels env name n t =
     (let (t, ok) = attempt env (Picture (New_Pixels name (word_of_nat (n * 2)))) t
      in (t, if ok then Some (map (fresh_at env t) [0..<n]) else None))"

text \<open>The buffers of \<open>start_media\<close>: the picture, and for the game the game's frame and, before the
  entry melt, the camera's.\<close>

definition start_doom_pixels :: "injected_env \<Rightarrow> media_state \<Rightarrow> nat \<Rightarrow> trace \<Rightarrow> media_state \<times> trace \<times> bool" where
  "start_doom_pixels env s n t =
     (let (t, d) = new_pixels env ''doom'' n t; s = s\<lparr>doom_pixels := d\<rparr>
      in if d = None then (s, t, False)
         else
           (let (s, d, t, stable) = wait_for_stable_doom_frame env s (doom_pixels s) t;
                s = s\<lparr>doom_pixels := d\<rparr>
            in if \<not> stable then (s, t, False)
               else if entry_melt s then
                 (let (t, c) = new_pixels env ''camera'' n t; s = s\<lparr>camera_pixels := c\<rparr>
                  in if c = None then (s, t, False)
                     else (let (s, t, ok) = capture_camera_snapshot env s t
                           in if ok then (s\<lparr>pixels := camera_pixels s\<rparr>, t, True) else (s, t, False)))
               else (s\<lparr>pixels := doom_pixels s\<rparr>, t, True)))"

definition start_pixels :: "injected_env \<Rightarrow> media_state \<Rightarrow> bool \<Rightarrow> trace \<Rightarrow> media_state \<times> trace \<times> bool" where
  "start_pixels env s transparent t =
     (let n = unat (img_width s) * unat (img_height s);
          (t, p) = new_pixels env ''overlay'' n t; s = s\<lparr>pixels := p\<rparr>
      in if p = None then (s, t, False)
         else (let s = fill_pixels s transparent
               in if doom_frames s then start_doom_pixels env s n t else (s, t, True)))"

text \<open>The encoder's path of \<open>start_media\<close>.\<close>

definition start_path :: "injected_env \<Rightarrow> media_state \<Rightarrow> bool \<Rightarrow> trace \<Rightarrow> media_state \<times> trace \<times> bool" where
  "start_path env s transparent t =
     (let (t, ok) = attempt env (Video (Venc_Open (encoder s))) t
      in if \<not> ok then (s, t, False)
         else let s = s\<lparr>path_open := True\<rparr>; (t, ok) = attempt env (Video (Venc_Set_Buffer (media_pa s) (media_size s))) t
         in if \<not> ok then (s, t, False)
         else let (s, t, ok) = publish_image env s t
         in if \<not> ok then (s, t, False)
         else let (t, ok) = attempt env (Video Venc_Set_Attribute) t
         in if \<not> ok then (s, t, False)
         else let (t, ok) = attempt env (Video Venc_Start) t
         in if \<not> ok then (s, t, False)
         else let s = s\<lparr>path_started := True\<rparr>; (s, t, ok) = publish_image env s t
         in if \<not> ok then (s, t, False)
         else let (t, ok) = attempt env (World (Write_Marker ''media.active''
                (if doom_frames s then ''doom-osg''
                 else if transparent then ''transparent-osg'' else ''checkerboard-osg''))) t
         in (s, t, ok))"

definition start_media ::
    "injected_env \<Rightarrow> media_state \<Rightarrow> nat \<Rightarrow> u32 \<Rightarrow> u32 \<Rightarrow> bool \<Rightarrow> bool \<Rightarrow> trace \<Rightarrow>
     media_state \<times> trace \<times> bool" where
  "start_media env s enc width height transparent allocation_only t =
     (if allocated s \<or> path_open s \<or> path_started s \<or> enc > 3 \<or> width < 8 \<or> width > 640 \<or>
         height < 8 \<or> height > 512 then (s, t, False)
      else
        let s = s\<lparr>encoder := enc, img_width := width, img_height := height, checkerboard := \<not> transparent\<rparr>;
            (s, t, ok) = allocate_media env s width height t
        in if \<not> ok then (s, t, False)
        else if allocation_only
        then (let (t, ok) = attempt env (World (Write_Marker ''media.active'' ''allocation-only'')) t in (s, t, ok))
        else let (s, t, ok) = start_pixels env s transparent t
        in if \<not> ok then (s, t, False) else start_path env s transparent t)"

text \<open>\<open>cleanup_media\<close>: the three resources, then the buffers and the source.\<close>

definition stop_path :: "injected_env \<Rightarrow> media_state \<Rightarrow> trace \<Rightarrow> media_state \<times> trace \<times> bool" where
  "stop_path env s t =
     (if path_started s
      then (let (t, ok) = attempt env (Video Venc_Stop) t
            in if ok then (s\<lparr>path_started := False\<rparr>, t, True) else (s, t, False))
      else (s, t, True))"

definition close_path :: "injected_env \<Rightarrow> media_state \<Rightarrow> trace \<Rightarrow> media_state \<times> trace \<times> bool" where
  "close_path env s t =
     (if path_open s
      then (let (t, ok) = attempt env (Video Venc_Close) t
            in if ok then (s\<lparr>path_open := False, path_started := False\<rparr>, t, True) else (s, t, False))
      else (s, t, True))"

definition free_media :: "injected_env \<Rightarrow> media_state \<Rightarrow> trace \<Rightarrow> media_state \<times> trace \<times> bool" where
  "free_media env s t =
     (if allocated s \<and> \<not> path_open s \<and> \<not> path_started s
      then (let (t, ok) = attempt env (Video Free_Osg) t
            in if ok then (s\<lparr>allocated := False, media_pa := 0, media_size := 0\<rparr>, t, True)
               else (s, t, False))
      else (s, t, \<not> allocated s))"

definition free_pixels :: "u16 list option \<Rightarrow> trace \<Rightarrow> trace" where
  "free_pixels p t = (case p of None \<Rightarrow> t | Some _ \<Rightarrow> note_call (Picture Delete_Pixels) t)"

definition cleanup_media :: "injected_env \<Rightarrow> media_state \<Rightarrow> trace \<Rightarrow> media_state \<times> trace \<times> bool" where
  "cleanup_media env s t =
     (let (s, t, stopped) = stop_path env s t;
          (s, t, closed) = close_path env s t;
          (s, t, freed) = free_media env s t
      in if stopped \<and> closed \<and> freed then
           (let t = free_pixels (camera_pixels s) (free_pixels (doom_pixels s) (free_pixels (pixels s) t));
                s = s\<lparr>pixels := None, doom_pixels := None, camera_pixels := None, checkerboard := False,
                      entry_melt := False, melt_last_ms := 0, melt_tick_remainder := 0\<rparr>;
                (s, t) = close_frame_source s t;
                t = note_call (World (Remove_Marker ''media.active'')) t;
                t = note_call (World (Write_Marker ''media.restored'' ''complete'')) t
            in (s, t, True))
         else
           (let (s, t) = close_frame_source s t
            in (s, note_call (World (Write_Marker ''injected.error'' ''cleanup-failed'')) t, False)))"


section \<open>The vendor's protocol\<close>

definition media_flags :: "media_state \<Rightarrow> bool \<times> bool \<times> bool" where
  "media_flags s = (allocated s, path_open s, path_started s)"

text \<open>The flags are the state of the hardware, and no call came in the wrong state.\<close>

definition media_ok :: "injected_env \<Rightarrow> media_state \<Rightarrow> trace \<Rightarrow> bool" where
  "media_ok env s t \<longleftrightarrow> video_legal (video_of env t) \<and> allocated s = osg_memory (video_of env t) \<and>
     path_open s = (venc_path (video_of env t) \<noteq> Path_Closed) \<and>
     path_started s = (venc_path (video_of env t) = Path_Started) \<and> (path_open s \<longrightarrow> allocated s)"

lemma media_ok_same:
  "media_ok env s t \<Longrightarrow> same_hw env t t' \<Longrightarrow> media_flags s' = media_flags s \<Longrightarrow> media_ok env s' t'"
  unfolding media_ok_def same_hw_def media_flags_def by auto

text \<open>The operations that only read and write memory and files.\<close>

lemma attempt_same: "neutral c \<Longrightarrow> attempt env c t = (t', ok) \<Longrightarrow> same_hw env t t'"
  by (auto simp: attempt_def)

lemma close_source_same:
  "close_frame_source s t = (s', t') \<Longrightarrow> same_hw env t t' \<and> media_flags s' = media_flags s"
  by (auto simp: close_frame_source_def media_flags_def same_hw_def note_call_def Let_def)

lemma settle_same: "same_hw env t (settle_slot env n t)"
  by (induction n arbitrary: t) (simp_all add: same_hw_then [of "World Nap"])

lemma refuse_same:
  "refuse_source s t = (s', t', ok) \<Longrightarrow> same_hw env t t' \<and> media_flags s' = media_flags s"
  by (auto simp: refuse_source_def split: prod.splits dest: close_source_same [where env = env])

lemma accept_same:
  assumes "accept_source env s t = (s', t', ok)"
  shows "same_hw env t t' \<and> media_flags s' = media_flags s"
proof -
  let ?t = "settle_slot env 40 t" and ?slot = "slot_at_load env (settle_slot env 40 t)"
  obtain xm ym built where maps: "e1_build_scale_maps (unat (fr_width (?slot 2)))
      (unat (fr_height (?slot 3))) (x_map (src s)) (y_map (src s)) = (xm, ym, built)" by (metis prod_cases3)
  let ?s = "if fr_sequence (?slot 1) AND 1 = 0 then s\<lparr>src := (src s)\<lparr>x_map := xm, y_map := ym\<rparr>\<rparr> else s"
  have "media_flags ?s = media_flags s" by (simp add: media_flags_def)
  then show ?thesis
    using assms settle_same [of env t 40] refuse_same [of ?s ?t s' t' ok env]
    unfolding accept_source_def Let_def maps prod.case
    by (auto simp: media_flags_def split: if_splits intro: same_hw_trans)
qed

lemma open_source_same:
  assumes "open_frame_source env s t = (s', t', ok)"
  shows "same_hw env t t' \<and> media_flags s' = media_flags s"
proof -
  obtain t1 opened where 1: "attempt env (Picture Open_Frame_File) t = (t1, opened)" by force
  obtain t2 stat where 2: "(if opened then attempt env (Picture Stat_Frame_File) t1 else (t1, False)) = (t2, stat)"
    by force
  obtain t3 map where 3: "(if stat then attempt env (Picture Map_Frame_File) t2 else (t2, False)) = (t3, map)"
    by force
  have same: "same_hw env t t3"
    using 1 2 3 by (auto simp: attempt_def same_hw_def split: if_splits)
  show ?thesis
    using assms same unfolding open_frame_source_def 1 2 3 Let_def prod.case
    by (auto split: if_splits dest!: refuse_same [where env = env] accept_same simp: media_flags_def
        intro: same_hw_trans)
qed

lemma load_frame_same:
  "load_frame env s out t = (s', out', t', status) \<Longrightarrow> same_hw env t t' \<and> media_flags s' = media_flags s"
  by (auto simp: load_frame_def media_flags_def Let_def split: prod.splits)

lemma wait_frame_same:
  "wait_for_frame n env s out t = (s', out', t', ok) \<Longrightarrow> same_hw env t t' \<and> media_flags s' = media_flags s"
proof (induction n arbitrary: s out t)
  case (Suc n)
  obtain s1 out1 t1 status where load: "load_frame env s out t = (s1, out1, t1, status)" by (metis prod_cases4)
  note same = load_frame_same [OF load]
  show ?case
  proof (cases "status = 0")
    case False
    with Suc.prems have "wait_for_frame n env s1 out1 (note_call (World Nap) t1) = (s', out', t', ok)" by (simp add: load)
    from Suc.IH [OF this] have "same_hw env t1 t' \<and> media_flags s' = media_flags s1"
      by (simp add: same_hw_then [of "World Nap"])
    with same show ?thesis by (auto intro: same_hw_trans)
  qed (use same Suc.prems in \<open>simp add: load\<close>)
qed simp

lemma map_physical_same:
  "map_physical_readonly env d pa sz t = (t', m) \<Longrightarrow> same_hw env t t'"
  by (auto simp: map_physical_readonly_def attempt_def Let_def split: if_splits)

lemma unmap_same: "same_hw env t (unmap_physical_readonly m t)"
  by (simp add: unmap_physical_readonly_def split: option.split)


lemma convert_camera_same:
  assumes "convert_camera env f s t = (s', t', r)"
  shows "same_hw env t t' \<and> media_flags s' = media_flags s"
proof -
  obtain t1 fd where 1: "attempt env (Picture Open_Devmem) t = (t1, fd)" by force
  let ?luma = "cf_luma_pitch f * cf_luma_rows f" and ?chroma = "cf_chroma_pitch f * cf_chroma_rows f"
  obtain t2 luma where 2: "(if fd then map_physical_readonly env True (cf_luma_address f) ?luma t1
      else (t1, None)) = (t2, luma)" by force
  obtain t3 chroma where 3: "(if luma \<noteq> None then map_physical_readonly env True (cf_chroma_address f) ?chroma t2
      else (t2, None)) = (t3, chroma)" by force
  let ?t4 = "unmap_physical_readonly luma (unmap_physical_readonly chroma t3)"
  have "same_hw env t t1" using 1 by (auto simp: attempt_def)
  moreover have "same_hw env t1 t2" using 2 map_physical_same by (auto split: if_splits)
  moreover have "same_hw env t2 t3" using 3 map_physical_same by (auto split: if_splits)
  moreover have "same_hw env t3 ?t4" by (rule same_hw_trans [OF unmap_same unmap_same])
  moreover have "same_hw env ?t4 (if fd then note_call (Picture Close_Devmem) ?t4 else ?t4)" by simp
  ultimately have "same_hw env t (if fd then note_call (Picture Close_Devmem) ?t4 else ?t4)"
    by (blast intro: same_hw_trans)
  with assms show ?thesis
    unfolding convert_camera_def Let_def 1 2 3 prod.case
    by (auto simp: media_flags_def split: prod.splits)
qed

lemma snapshot_same:
  assumes "capture_camera_snapshot env s t = (s', t', ok)"
  shows "same_hw env t t' \<and> media_flags s' = media_flags s"
proof (cases "camera_pixels s = None \<or> \<not> snd (attempt env (Picture Pull_Frame) t)")
  case True
  with assms show ?thesis by (auto simp: capture_camera_snapshot_def attempt_def split: if_splits)
next
  case False
  let ?t1 = "t @ [Picture Pull_Frame]" and ?f = "camera_at env (t @ [Picture Pull_Frame])"
  obtain s2 t2 r where 2: "(if frame_usable ?f then convert_camera env ?f s ?t1 else (s, ?t1, -1)) = (s2, t2, r)"
    by (metis prod_cases3)
  have "same_hw env ?t1 t2 \<and> media_flags s2 = media_flags s"
    using 2 convert_camera_same by (auto split: if_splits)
  moreover have "same_hw env t ?t1" by simp
  ultimately have "same_hw env t t2" by (blast intro: same_hw_trans)
  then have "same_hw env t (t2 @ [Picture Release_Frame])" by (rule same_hw_trans) simp
  with assms False 2 \<open>same_hw env ?t1 t2 \<and> media_flags s2 = media_flags s\<close> show ?thesis
    by (auto simp: capture_camera_snapshot_def attempt_def Let_def)
qed

lemma new_pixels_same: "new_pixels env name n t = (t', p) \<Longrightarrow> same_hw env t t'"
  by (auto simp: new_pixels_def attempt_def Let_def)

lemma fill_pixels_flags [simp]: "media_flags (fill_pixels s tr) = media_flags s"
  by (simp add: fill_pixels_def media_flags_def)

lemma reset_stats_same:
  "reset_video_stats env s now t = (s', t') \<Longrightarrow> same_hw env t t' \<and> media_flags s' = media_flags s"
  by (auto simp: reset_video_stats_def media_flags_def Let_def)

lemma doom_pixels_same:
  assumes "start_doom_pixels env s n t = (s', t', ok)"
  shows "same_hw env t t' \<and> media_flags s' = media_flags s"
proof -
  obtain t1 d where 1: "new_pixels env ''doom'' n t = (t1, d)" by force
  obtain s2 d2 t2 stable where 2: "wait_for_stable_doom_frame env (s\<lparr>doom_pixels := d\<rparr>) d t1 = (s2, d2, t2, stable)"
    by (metis prod_cases4)
  obtain t3 c where 3: "new_pixels env ''camera'' n t2 = (t3, c)" by force
  obtain s4 t4 got where 4: "capture_camera_snapshot env (s2\<lparr>doom_pixels := d2, camera_pixels := c\<rparr>) t3 = (s4, t4, got)"
    by (metis prod_cases3)
  have h1: "same_hw env t t1" using new_pixels_same [OF 1] .
  have h2: "same_hw env t t2 \<and> media_flags s2 = media_flags s"
    using wait_frame_same [OF 2 [unfolded wait_for_stable_doom_frame_def]] h1
    by (auto simp: media_flags_def intro: same_hw_trans)
  have h3: "same_hw env t t3" using new_pixels_same [OF 3] h2 by (blast intro: same_hw_trans)
  have h4: "same_hw env t t4 \<and> media_flags s4 = media_flags s"
    using snapshot_same [OF 4] h2 h3 by (auto simp: media_flags_def intro: same_hw_trans)
  show ?thesis using assms h1 h2 h3 h4
    unfolding start_doom_pixels_def Let_def 1 prod.case
    by (auto simp: 2 3 4 media_flags_def split: if_splits)
qed

lemma start_pixels_same:
  assumes "start_pixels env s tr t = (s', t', ok)"
  shows "same_hw env t t' \<and> media_flags s' = media_flags s"
proof -
  let ?n = "unat (img_width s) * unat (img_height s)"
  obtain t1 p where 1: "new_pixels env ''overlay'' ?n t = (t1, p)" by force
  let ?s1 = "fill_pixels (s\<lparr>pixels := p\<rparr>) tr"
  have h1: "same_hw env t t1" using new_pixels_same [OF 1] .
  have flags: "media_flags ?s1 = media_flags s" by (simp add: media_flags_def fill_pixels_def)
  show ?thesis
  proof (cases "p \<noteq> None \<and> doom_frames ?s1")
    case True
    with assms have "start_doom_pixels env ?s1 ?n t1 = (s', t', ok)"
      by (simp add: start_pixels_def 1 Let_def)
    from doom_pixels_same [OF this] h1 flags show ?thesis by (auto intro: same_hw_trans)
  next
    case False
    with assms h1 flags show ?thesis
      by (auto simp: start_pixels_def 1 Let_def media_flags_def split: if_splits)
  qed
qed

section \<open>The steps of the protocol\<close>

definition audio_kept :: "injected_env \<Rightarrow> trace \<Rightarrow> trace \<Rightarrow> bool" where
  "audio_kept env t t' \<longleftrightarrow> audio_of env t' = audio_of env t"

lemma publish_ok:
  assumes "media_ok env s t" and "path_open s" and "publish_image env s t = (s', t', ok)"
  shows "media_ok env s' t' \<and> audio_kept env t t' \<and> media_flags s' = media_flags s"
  using assms
  by (auto simp: publish_image_def attempt_def media_ok_def video_hw_simps audio_kept_def media_flags_def
      Let_def split: if_splits)

lemma allocate_ok:
  assumes "media_ok env s t" and "\<not> allocated s" and "allocate_media env s w h t = (s', t', ok)"
  shows "media_ok env s' t' \<and> audio_kept env t t' \<and> path_open s' = path_open s \<and>
    (ok \<longrightarrow> allocated s' \<and> media_pa s' AND 0x7f = 0)"
  using assms
  by (auto simp: allocate_media_def attempt_def media_ok_def video_hw_simps audio_kept_def
      Let_def split: if_splits)

lemma stop_ok:
  assumes "media_ok env s t" and "stop_path env s t = (s', t', ok)"
  shows "media_ok env s' t' \<and> audio_kept env t t' \<and> (ok \<longrightarrow> \<not> path_started s')"
  using assms
  by (auto simp: stop_path_def attempt_def media_ok_def video_hw_simps audio_kept_def Let_def split: if_splits)

lemma close_ok:
  assumes "media_ok env s t" and "close_path env s t = (s', t', ok)"
  shows "media_ok env s' t' \<and> audio_kept env t t' \<and> (ok \<longrightarrow> \<not> path_open s' \<and> \<not> path_started s')"
  using assms
  by (auto simp: close_path_def attempt_def media_ok_def video_hw_simps audio_kept_def Let_def split: if_splits)

lemma free_ok:
  assumes "media_ok env s t" and "free_media env s t = (s', t', ok)"
  shows "media_ok env s' t' \<and> audio_kept env t t' \<and> (ok \<longrightarrow> \<not> allocated s')"
  using assms
  by (auto simp: free_media_def attempt_def media_ok_def video_hw_simps audio_kept_def Let_def split: if_splits)


lemma media_ok_note:
  "media_ok env s t \<Longrightarrow> same_hw env t t' \<Longrightarrow> media_flags s' = media_flags s \<Longrightarrow>
   media_ok env s' t' \<and> audio_kept env t t'"
  by (simp add: media_ok_same audio_kept_def) (simp add: same_hw_def)

lemma audio_kept_trans: "audio_kept env t t' \<Longrightarrow> audio_kept env t' t'' \<Longrightarrow> audio_kept env t t''"
  by (simp add: audio_kept_def)

lemma same_audio_kept: "same_hw env t t' \<Longrightarrow> audio_kept env t t'"
  by (simp add: audio_kept_def same_hw_def)

lemma path_ok:
  assumes "media_ok env s t" and "allocated s" and "\<not> path_open s"
    and "start_path env s tr t = (s', t', ok)"
  shows "media_ok env s' t' \<and> audio_kept env t t' \<and> (ok \<longrightarrow> path_started s')"
proof -
  let ?t1 = "t @ [Video (Venc_Open (encoder s))]"
  let ?s1 = "s\<lparr>path_open := True\<rparr>"
  let ?t2 = "?t1 @ [Video (Venc_Set_Buffer (media_pa ?s1) (media_size ?s1))]"
  obtain s3 t3 ok3 where 3: "publish_image env ?s1 ?t2 = (s3, t3, ok3)" by (metis prod_cases3)
  let ?t4 = "t3 @ [Video Venc_Set_Attribute]"
  let ?t5 = "?t4 @ [Video Venc_Start]" and ?s5 = "s3\<lparr>path_started := True\<rparr>"
  obtain s6 t6 ok6 where 6: "publish_image env ?s5 ?t5 = (s6, t6, ok6)" by (metis prod_cases3)
  have idle: "\<not> path_started s" "venc_path (video_of env t) = Path_Closed"
    using assms by (auto simp: media_ok_def)
  have h1: "media_ok env (if succeeds env ?t1 then ?s1 else s) ?t1 \<and> audio_kept env t ?t1"
    using assms idle by (auto simp: media_ok_def video_hw_simps audio_kept_def)
  have h2: "media_ok env ?s1 ?t2 \<and> audio_kept env t ?t2" if "succeeds env ?t1"
    using assms idle that by (auto simp: media_ok_def video_hw_simps audio_kept_def)
  have h3: "media_ok env s3 t3 \<and> audio_kept env t t3 \<and> path_open s3 \<and> \<not> path_started s3" if "succeeds env ?t1"
    using publish_ok [OF conjunct1 [OF h2 [OF that]] _ 3] h2 [OF that] idle
    by (auto simp: media_flags_def intro: audio_kept_trans)
  have h4: "media_ok env s3 ?t4 \<and> audio_kept env t ?t4" if "succeeds env ?t1"
    using h3 [OF that] by (auto simp: media_ok_def video_hw_simps audio_kept_def)
  have opened: "venc_path (video_of env t3) = Path_Opened" if "succeeds env ?t1"
    using h3 [OF that] by (cases "venc_path (video_of env t3)") (auto simp: media_ok_def)
  have h5: "media_ok env (if succeeds env ?t5 then ?s5 else s3) ?t5 \<and> audio_kept env t ?t5" if "succeeds env ?t1"
    using h3 [OF that] opened [OF that] by (auto simp: media_ok_def video_hw_simps audio_kept_def)
  have h6: "media_ok env s6 t6 \<and> audio_kept env t t6 \<and> path_started s6"
    if "succeeds env ?t1" "succeeds env ?t5"
    using publish_ok [of env ?s5 ?t5, OF _ _ 6] h5 [OF that(1)] h3 [OF that(1)] that
    by (auto simp: media_flags_def intro: audio_kept_trans)
  show ?thesis
    using assms(4) h1 h2 h3 h4 h5 h6 media_ok_note [of env s6 t6]
    unfolding start_path_def attempt_def Let_def prod.case 3 6
    by (auto split: if_splits intro: audio_kept_trans)
qed

text \<open>Starting and cleaning up keep to the protocol on every branch; a start that succeeds has the
  memory, and unless only the memory was asked for a running path.\<close>

lemma start_media_ok:
  assumes "media_ok env s t" and "start_media env s e w h tr only t = (s', t', ok)"
  shows "media_ok env s' t' \<and> audio_kept env t t' \<and> (ok \<longrightarrow> allocated s' \<and> (\<not> only \<longrightarrow> path_started s'))"
proof (cases "allocated s \<or> path_open s \<or> path_started s \<or> e > 3 \<or> w < 8 \<or> w > 640 \<or> h < 8 \<or> h > 512")
  case True
  with assms show ?thesis by (simp add: start_media_def audio_kept_def)
next
  case False
  let ?s0 = "s\<lparr>encoder := e, img_width := w, img_height := h, checkerboard := \<not> tr\<rparr>"
  obtain s1 t1 ok1 where 1: "allocate_media env ?s0 w h t = (s1, t1, ok1)" by (metis prod_cases3)
  obtain s2 t2 ok2 where 2: "start_pixels env s1 tr t1 = (s2, t2, ok2)" by (metis prod_cases3)
  obtain s3 t3 ok3 where 3: "start_path env s2 tr t2 = (s3, t3, ok3)" by (metis prod_cases3)
  have "media_ok env ?s0 t" by (rule media_ok_same [OF assms(1)]) (simp_all add: media_flags_def)
  note h1 = allocate_ok [OF this _ 1]
  have h1: "media_ok env s1 t1 \<and> audio_kept env t t1 \<and> \<not> path_open s1 \<and> (ok1 \<longrightarrow> allocated s1)"
    using h1 False by auto
  have h2: "media_ok env s2 t2 \<and> audio_kept env t t2 \<and> allocated s2 = allocated s1 \<and> \<not> path_open s2"
    using start_pixels_same [OF 2] h1 media_ok_note [of env s1 t1 t2 s2]
    by (auto simp: media_flags_def intro: audio_kept_trans)
  have h3: "media_ok env s3 t3 \<and> audio_kept env t t3 \<and> (ok3 \<longrightarrow> path_started s3)" if ok1
    using path_ok [OF _ _ _ 3] h1 h2 that by (auto intro: audio_kept_trans)
  have started: "path_started x \<Longrightarrow> allocated x" if "media_ok env x u" for x u
    using that by (auto simp: media_ok_def)
  show ?thesis
    using assms(2) False h1 h2 h3 started media_ok_note [of env s1 t1]
    unfolding start_media_def attempt_def Let_def
    by (auto simp: 1 2 3 split: if_splits intro: audio_kept_trans)
qed

lemma free_pixels_same [simp]: "same_hw env t (free_pixels p t)"
  by (simp add: free_pixels_def split: option.split)

lemma cleanup_media_ok:
  assumes "media_ok env s t" and "cleanup_media env s t = (s', t', ok)"
  shows "media_ok env s' t' \<and> audio_kept env t t' \<and> \<not> doom_frames s' \<and> \<not> source_open (src s') \<and>
    (ok \<longrightarrow> \<not> allocated s' \<and> \<not> path_open s' \<and> \<not> path_started s' \<and>
       pixels s' = None \<and> doom_pixels s' = None \<and> camera_pixels s' = None)"
proof -
  obtain s1 t1 ok1 where 1: "stop_path env s t = (s1, t1, ok1)" by (metis prod_cases3)
  obtain s2 t2 ok2 where 2: "close_path env s1 t1 = (s2, t2, ok2)" by (metis prod_cases3)
  obtain s3 t3 ok3 where 3: "free_media env s2 t2 = (s3, t3, ok3)" by (metis prod_cases3)
  note h1 = stop_ok [OF assms(1) 1]
  note h2 = close_ok [OF conjunct1 [OF h1] 2]
  note h3 = free_ok [OF conjunct1 [OF h2] 3]
  have kept: "audio_kept env t t3" using h1 h2 h3 by (blast intro: audio_kept_trans)
  have flags: "ok2 \<Longrightarrow> media_flags s3 = (allocated s3, False, False)"
    using h2 3 by (auto simp: free_media_def attempt_def media_flags_def Let_def split: if_splits)
  let ?t4 = "free_pixels (camera_pixels s3) (free_pixels (doom_pixels s3) (free_pixels (pixels s3) t3))"
  have t4: "same_hw env t3 ?t4" by (blast intro: same_hw_trans free_pixels_same)
  let ?s4 = "s3\<lparr>pixels := None, doom_pixels := None, camera_pixels := None, checkerboard := False,
      entry_melt := False, melt_last_ms := 0, melt_tick_remainder := 0\<rparr>"
  obtain s5 t5 where 5: "close_frame_source ?s4 ?t4 = (s5, t5)" by force
  obtain s6 t6 where 6: "close_frame_source s3 t3 = (s6, t6)" by force
  have h5: "same_hw env t3 t5 \<and> media_flags s5 = media_flags s3 \<and> pixels s5 = None \<and>
      doom_pixels s5 = None \<and> camera_pixels s5 = None \<and> \<not> doom_frames s5 \<and> \<not> source_open (src s5)"
    using close_source_same [OF 5, of env] t4 5
    by (auto simp: media_flags_def close_frame_source_def Let_def intro: same_hw_trans)
  have h6: "same_hw env t3 t6 \<and> media_flags s6 = media_flags s3 \<and> \<not> doom_frames s6 \<and> \<not> source_open (src s6)"
    using close_source_same [OF 6, of env] 6 by (auto simp: close_frame_source_def Let_def)
  have end5: "same_hw env t3 (note_call (World (Write_Marker ''media.restored'' ''complete''))
      (note_call (World (Remove_Marker ''media.active'')) t5))"
    by (rule same_hw_trans [OF conjunct1 [OF h5]], rule same_hw_trans [OF same_hw_note same_hw_note])
      simp_all
  have end6: "same_hw env t3 (note_call (World (Write_Marker ''injected.error'' ''cleanup-failed'')) t6)"
    using h6 by (auto intro: same_hw_trans)
  show ?thesis
    using assms(2) h3 flags h5 h6 kept media_ok_note [OF conjunct1 [OF h3] end5, of s5]
      media_ok_note [OF conjunct1 [OF h3] end6, of s6]
    unfolding cleanup_media_def 1 2 3 Let_def prod.case 5 6
    by (auto simp: media_flags_def split: if_splits intro: audio_kept_trans)
qed

end
