(* ===== verification/Media_Shape.thy ===== *)
theory Media_Shape
  imports Media_Path
begin

text \<open>
  The sizes of the buffers of \<open>media_state\<close>: every operation of the video side of
  \<open>src/camera/e1-doom-injected.c\<close> keeps them, so that the loops that fill, convert and compose
  pictures stay inside. The bound of the overlay's memory, and the bytes of the camera's frame.
\<close>

section \<open>The overlay's memory\<close>

text \<open>Rounding up with a mask.\<close>

lemma round_up_value:
  fixes x :: u64
  assumes "unat x + 2 ^ k \<le> 2 ^ 63" and "k < 63"
  shows "unat ((x + (2 ^ k - 1)) AND NOT (2 ^ k - 1)) = (unat x + (2 ^ k - 1)) div 2 ^ k * 2 ^ k"
proof -
  let ?y = "x + (2 ^ k - 1)"
  have "(2 :: nat) ^ k < 2 ^ 64" using assms(2) by (intro power_strict_increasing) simp_all
  then have "unat (word_of_nat (2 ^ k) :: u64) = 2 ^ k" by (simp only: unat_of_nat) simp
  then have p: "unat (2 ^ k :: u64) = 2 ^ k" by simp
  have "unat (2 ^ k - 1 :: u64) = 2 ^ k - 1"
    by (subst unat_minus_one) (use p assms(2) in auto)
  then have y: "unat ?y = unat x + (2 ^ k - 1)"
    using assms(1) by (simp add: unat_word_ariths)
  have "?y AND NOT (2 ^ k - 1) = ?y AND NOT (mask k)" by (simp add: mask_eq_exp_minus_1)
  also have "\<dots> = push_bit k (drop_bit k ?y)"
    by (rule bit_word_eqI) (auto simp: bit_simps)
  finally have eq: "?y AND NOT (2 ^ k - 1) = push_bit k (drop_bit k ?y)" .
  have dv: "unat (drop_bit k ?y) = unat ?y div 2 ^ k" by (simp only: drop_bit_eq_div unat_div p)
  have "unat (push_bit k (drop_bit k ?y)) = unat ?y div 2 ^ k * 2 ^ k"
  proof -
    have "unat ?y div 2 ^ k * 2 ^ k \<le> unat ?y" by simp
    also have "\<dots> < 2 ^ 64" using unsigned_less [of ?y] by simp
    finally have "unat ?y div 2 ^ k * 2 ^ k mod 2 ^ 64 = unat ?y div 2 ^ k * 2 ^ k" by (rule mod_less)
    then show ?thesis unfolding push_bit_eq_mult unat_word_ariths(2) dv p by simp
  qed
  with eq y show ?thesis by simp
qed


text \<open>C8. For every size \<open>start_media\<close> accepts, the overlay's memory is a positive multiple of 128
  bytes, holds both pictures of the ping-pong buffer, and exceeds them by less than 64 bytes a row
  and picture, and 128.\<close>

theorem buffer_size_bounds:
  assumes "8 \<le> w" and "w \<le> 640" and "8 \<le> h" and "h \<le> 512"
  shows "let n = unat (required_buffer_size w h); pictures = 2 * (2 * unat w * unat h)
    in pictures \<le> n \<and> n < pictures + 2 * 64 * unat h + 128 \<and> n mod 128 = 0 \<and> 0 < n"
proof -
  have w: "unat w \<le> 640" "8 \<le> unat w" and h: "unat h \<le> 512" "8 \<le> unat h"
    using assms by (simp_all add: word_le_nat_alt)
  let ?line = "(ucast w * 2 + 63) AND NOT 63 :: u64"
  let ?total = "(?line * ucast h * 2 + 127) AND NOT 127 :: u64"
  let ?l = "(2 * unat w + 63) div 64 * 64"
  have line: "unat ?line = ?l"
  proof -
    have "unat (ucast w * 2 :: u64) = 2 * unat w" using w by (simp add: unat_word_ariths)
    with round_up_value [of "ucast w * 2 :: u64" 6] w show ?thesis by simp
  qed
  have l: "2 * unat w \<le> ?l" "?l < 2 * unat w + 64" "?l \<le> 1343" using w by linarith+
  have lh: "?l * unat h \<le> 1343 * 512" using l(3) h(1) by (rule mult_le_mono)
  have product: "unat (?line * ucast h * 2) = ?l * unat h * 2"
  proof -
    have "unat (?line * ucast h) = ?l * unat h"
      using lh unfolding unat_word_ariths line by simp
    then show ?thesis using lh unfolding unat_word_ariths(2) [of "?line * ucast h"] by simp
  qed
  have total: "unat ?total = (?l * unat h * 2 + 127) div 128 * 128"
  proof -
    have "unat (?line * ucast h * 2) + 2 ^ 7 \<le> 2 ^ 63" unfolding product using lh by simp
    from round_up_value [OF this] show ?thesis unfolding product by simp
  qed
  let ?t = "(?l * unat h * 2 + 127) div 128 * 128"
  have round: "p \<le> (p + 127) div 128 * 128 \<and> (p + 127) div 128 * 128 < p + 128" for p :: nat
    by linarith
  define A where "A = unat w * unat h"
  define B where "B = ?l * unat h"
  have "2 * A \<le> B" unfolding A_def B_def mult.assoc [symmetric] using l(1) by (rule mult_le_mono1)
  moreover have "B \<le> 2 * A + 63 * unat h"
  proof -
    have "?l * unat h \<le> (2 * unat w + 63) * unat h" using l(2) by (intro mult_le_mono1) linarith
    then show ?thesis by (simp add: A_def B_def algebra_simps)
  qed
  moreover have "64 \<le> A" unfolding A_def using mult_le_mono [OF w(2) h(2)] by simp
  moreover have "B \<le> 1343 * 512" unfolding B_def by (rule lh)
  ultimately have "2 * (2 * A) \<le> (B * 2 + 127) div 128 * 128"
      "(B * 2 + 127) div 128 * 128 < 2 * (2 * A) + 2 * 64 * unat h + 128"
      "0 < (B * 2 + 127) div 128 * 128" "(B * 2 + 127) div 128 * 128 \<le> 4294967295"
    using round [of "B * 2"] by linarith+
  then have t: "2 * (2 * unat w * unat h) \<le> ?t" "?t < 2 * (2 * unat w * unat h) + 2 * 64 * unat h + 128"
      "0 < ?t" "?t \<le> 4294967295"
    unfolding A_def B_def mult.assoc by simp_all
  have big: "\<not> ?total > 0xffffffff" "?total \<noteq> 0"
    using t total by (auto simp: word_less_nat_alt unat_eq_0)
  then have "required_buffer_size w h = ucast ?total"
    unfolding required_buffer_size_def Let_def by auto
  then have "unat (required_buffer_size w h) = take_bit 32 ?t"
    using total by (simp only: unsigned_ucast_eq) simp
  moreover have "take_bit 32 ?t = ?t" by (rule take_bit_nat_eq_self, rule le_less_trans [OF t(4)]) simp
  ultimately have "unat (required_buffer_size w h) = ?t" by (rule trans)
  with t show ?thesis by (simp add: Let_def)
qed

lemma buffer_size_bounds_witness:
  "let n = unat (required_buffer_size 640 360); pictures = 2 * (2 * unat (640 :: u32) * unat (360 :: u32))
    in pictures \<le> n \<and> n < pictures + 2 * 64 * unat (360 :: u32) + 128 \<and> n mod 128 = 0 \<and> 0 < n"
  by (rule buffer_size_bounds) simp_all

section \<open>The buffers\<close>

definition osg_pixels :: nat where
  "osg_pixels = E1_OSG_WIDTH * E1_OSG_HEIGHT"

definition picture :: "nat \<Rightarrow> u16 list option \<Rightarrow> bool" where
  "picture n p \<longleftrightarrow> (\<exists>x. p = Some x \<and> length x = n)"

text \<open>\<open>buffers_ok\<close> holds between any two operations, \<open>frames_ok\<close> when a command has been carried out:
  frames of the game are read only into pictures of the full size.\<close>

definition buffers_ok :: "media_state \<Rightarrow> bool" where
  "buffers_ok s \<longleftrightarrow> length (x_map (src s)) = E1_OSG_WIDTH \<and> length (y_map (src s)) = E1_OSG_HEIGHT \<and>
     (camera_pixels s \<noteq> None \<longrightarrow> picture osg_pixels (camera_pixels s)) \<and>
     (path_started s \<longrightarrow> picture (unat (img_width s) * unat (img_height s)) (pixels s))"

definition full_size :: "media_state \<Rightarrow> bool" where
  "full_size s \<longleftrightarrow> unat (img_width s) = E1_OSG_WIDTH \<and> unat (img_height s) = E1_OSG_HEIGHT"

definition frames_ok :: "media_state \<Rightarrow> bool" where
  "frames_ok s \<longleftrightarrow> (doom_frames s \<longrightarrow> source_open (src s) \<and> path_started s \<and> full_size s \<and>
     picture osg_pixels (doom_pixels s))"

lemma media_zero_ok: "buffers_ok media_zero \<and> frames_ok media_zero"
  by (simp add: media_zero_def buffers_ok_def frames_ok_def)

text \<open>The conversions keep the length of the picture they write.\<close>

lemma convert_rows_length: "length (fold (convert_row p w pitch c xm ym) is out) = length out"
  by (induction "is" arbitrary: out) simp_all

lemma indexed_picture:
  "e1_convert_indexed_argb4444 out p w h pitch pal xm ym = (out', r) \<Longrightarrow> picture n out' = picture n out"
  by (auto simp: e1_convert_indexed_argb4444_def picture_def convert_rows_length Let_def
      split: option.splits if_splits)

lemma frame_picture:
  "convert_doom_frame f v out = (f', out', r) \<Longrightarrow> picture n out' = picture n out"
  by (auto simp: convert_doom_frame_def Let_def split: if_splits prod.splits dest: indexed_picture [where n = n])

lemma frame_source_kept:
  "convert_doom_frame f v out = (f', out', r) \<Longrightarrow>
   x_map f' = x_map f \<and> y_map f' = y_map f \<and> source_open f' = source_open f"
  by (auto simp: convert_doom_frame_def Let_def split: if_splits prod.splits)

lemma nested_length: "length (fold (\<lambda>y. fold (\<lambda>x out. out[f y x := g y x]) xs) ys out) = length out"
  by (induction ys arbitrary: out) simp_all

lemma nv12_picture:
  "e1_convert_nv12_argb4444 out l c w h lp cp = (out', r) \<Longrightarrow> picture n out' = picture n out"
  by (auto simp: e1_convert_nv12_argb4444_def picture_def nested_length split: option.splits if_splits)

lemma fill_picture [simp]: "picture n (pixels (fill_pixels s tr)) = picture n (pixels s)"
  by (cases "pixels s") (simp_all add: fill_pixels_def picture_def nested_length)

lemma scale_maps_length:
  "e1_build_scale_maps w h xm ym = (xm', ym', r) \<Longrightarrow> length xm' = length xm \<and> length ym' = length ym"
  by (auto simp: e1_build_scale_maps_def split: if_splits)

section \<open>The operations keep the buffers\<close>

lemma buffers_ok_same:
  "buffers_ok s \<Longrightarrow> x_map (src s') = x_map (src s) \<Longrightarrow> y_map (src s') = y_map (src s) \<Longrightarrow>
   camera_pixels s' = camera_pixels s \<Longrightarrow> path_started s' = path_started s \<Longrightarrow> pixels s' = pixels s \<Longrightarrow>
   img_width s' = img_width s \<Longrightarrow> img_height s' = img_height s \<Longrightarrow> buffers_ok s'"
  by (simp add: buffers_ok_def)

lemma close_source_buffers:
  "close_frame_source s t = (s', t') \<Longrightarrow> buffers_ok s \<Longrightarrow> buffers_ok s' \<and> frames_ok s'"
  by (auto simp: close_frame_source_def buffers_ok_def frames_ok_def Let_def)

text \<open>What opening the source leaves alone.\<close>

definition same_picture :: "media_state \<Rightarrow> media_state \<Rightarrow> bool" where
  "same_picture s s' \<longleftrightarrow> path_started s' = path_started s \<and> img_width s' = img_width s \<and>
     img_height s' = img_height s \<and> entry_melt s' = entry_melt s \<and> pixels s' = pixels s \<and>
     camera_pixels s' = camera_pixels s"

lemma refuse_buffers:
  "refuse_source s t = (s', t', ok) \<Longrightarrow> same_picture s s' \<and> x_map (src s') = x_map (src s) \<and>
   y_map (src s') = y_map (src s) \<and> \<not> doom_frames s' \<and> \<not> ok"
  by (auto simp: refuse_source_def close_frame_source_def same_picture_def Let_def)

lemma accept_buffers:
  assumes "accept_source env s t = (s', t', ok)"
  shows "same_picture s s' \<and> length (x_map (src s')) = length (x_map (src s)) \<and>
    length (y_map (src s')) = length (y_map (src s)) \<and> (doom_frames s' \<longleftrightarrow> ok) \<and>
    (ok \<longrightarrow> source_open (src s') = source_open (src s))"
proof -
  let ?t = "settle_slot env 40 t" and ?slot = "slot_at_load env (settle_slot env 40 t)"
  obtain xm ym built where maps: "e1_build_scale_maps (unat (fr_width (?slot 2)))
      (unat (fr_height (?slot 3))) (x_map (src s)) (y_map (src s)) = (xm, ym, built)" by (metis prod_cases3)
  show ?thesis
    using assms scale_maps_length [OF maps]
    unfolding accept_source_def Let_def maps prod.case
    by (auto split: if_splits dest!: refuse_buffers simp: same_picture_def)
qed

lemma open_source_buffers:
  assumes "open_frame_source env s t = (s', t', ok)"
  shows "same_picture s s' \<and> length (x_map (src s')) = length (x_map (src s)) \<and>
    length (y_map (src s')) = length (y_map (src s)) \<and> (doom_frames s' \<longleftrightarrow> ok) \<and>
    (ok \<longrightarrow> source_open (src s'))"
  using assms unfolding open_frame_source_def Let_def
  by (auto split: if_splits prod.splits dest!: refuse_buffers accept_buffers simp: same_picture_def)

lemma same_picture_ok:
  "same_picture s s' \<Longrightarrow> length (x_map (src s')) = length (x_map (src s)) \<Longrightarrow>
   length (y_map (src s')) = length (y_map (src s)) \<Longrightarrow> buffers_ok s \<Longrightarrow> buffers_ok s'"
  by (simp add: same_picture_def buffers_ok_def)

lemma load_frame_buffers:
  "load_frame env s out t = (s', out', t', r) \<Longrightarrow>
   (\<exists>f. s' = s\<lparr>src := f\<rparr> \<and> x_map f = x_map (src s) \<and> y_map f = y_map (src s) \<and>
      source_open f = source_open (src s)) \<and> picture n out' = picture n out"
  by (auto simp: load_frame_def Let_def split: prod.splits dest: frame_picture [where n = n] frame_source_kept)

text \<open>\<open>s'\<close> is \<open>s\<close> but for the source's bookkeeping.\<close>

definition same_source :: "media_state \<Rightarrow> media_state \<Rightarrow> bool" where
  "same_source s s' \<longleftrightarrow> (\<exists>f. s' = s\<lparr>src := f\<rparr> \<and> x_map f = x_map (src s) \<and> y_map f = y_map (src s) \<and>
     source_open f = source_open (src s))"

lemma same_source_refl [simp]: "same_source s s"
  by (auto simp: same_source_def intro: exI [of _ "src s"])

lemma same_source_trans: "same_source s s' \<Longrightarrow> same_source s' s'' \<Longrightarrow> same_source s s''"
  by (auto simp: same_source_def)

lemma same_source_ok: "same_source s s' \<Longrightarrow> buffers_ok s' = buffers_ok s \<and> frames_ok s' = frames_ok s"
  by (auto simp: same_source_def buffers_ok_def frames_ok_def full_size_def)

lemma load_frame_same_source:
  "load_frame env s out t = (s', out', t', r) \<Longrightarrow> same_source s s' \<and> picture n out' = picture n out"
  unfolding same_source_def by (rule load_frame_buffers)

lemma wait_frame_buffers:
  "wait_for_frame k env s out t = (s', out', t', ok) \<Longrightarrow> same_source s s' \<and> picture n out' = picture n out"
proof (induction k arbitrary: s out t)
  case 0
  then show ?case by auto
next
  case (Suc k)
  obtain s1 out1 t1 status where load: "load_frame env s out t = (s1, out1, t1, status)" by (metis prod_cases4)
  note same = load_frame_same_source [OF load, of n]
  show ?case
  proof (cases "status = 0")
    case False
    with Suc.prems have "wait_for_frame k env s1 out1 (note_call (World Nap) t1) = (s', out', t', ok)" by (simp add: load)
    from Suc.IH [OF this] same show ?thesis by (auto intro: same_source_trans)
  qed (use same Suc.prems in \<open>simp add: load\<close>)
qed

lemma convert_camera_buffers:
  "convert_camera env f s t = (s', t', r) \<Longrightarrow>
   s' = s\<lparr>camera_pixels := camera_pixels s'\<rparr> \<and> picture n (camera_pixels s') = picture n (camera_pixels s)"
  unfolding convert_camera_def Let_def
  by (auto split: prod.splits if_splits dest: nv12_picture [where n = n])

lemma snapshot_buffers:
  assumes "capture_camera_snapshot env s t = (s', t', ok)"
  shows "s' = s\<lparr>camera_pixels := camera_pixels s'\<rparr> \<and> picture n (camera_pixels s') = picture n (camera_pixels s)"
  using assms unfolding capture_camera_snapshot_def Let_def
  by (auto split: prod.splits if_splits dest: convert_camera_buffers [where n = n])

lemma new_pixels_picture: "new_pixels env name n t = (t', p) \<Longrightarrow> p \<noteq> None \<Longrightarrow> picture n p"
  by (auto simp: new_pixels_def picture_def Let_def split: prod.splits if_splits)

lemma doom_pixels_buffers:
  assumes "start_doom_pixels env s n t = (s', t', ok)" and "n = osg_pixels" and "buffers_ok s"
    and "\<not> path_started s"
  shows "buffers_ok s' \<and> doom_frames s' = doom_frames s \<and> source_open (src s') = source_open (src s) \<and>
    img_width s' = img_width s \<and> img_height s' = img_height s \<and>
    (ok \<longrightarrow> picture n (doom_pixels s') \<and> picture n (pixels s'))"
proof -
  obtain t1 d where 1: "new_pixels env ''doom'' n t = (t1, d)" by force
  obtain s2 d2 t2 stable where 2: "wait_for_stable_doom_frame env (s\<lparr>doom_pixels := d\<rparr>) d t1 = (s2, d2, t2, stable)"
    by (metis prod_cases4)
  obtain t3 c where 3: "new_pixels env ''camera'' n t2 = (t3, c)" by force
  obtain s4 t4 got where 4: "capture_camera_snapshot env (s2\<lparr>doom_pixels := d2, camera_pixels := c\<rparr>) t3 = (s4, t4, got)"
    by (metis prod_cases3)
  have w: "same_source (s\<lparr>doom_pixels := d\<rparr>) s2" "picture n d2 = picture n d"
    using wait_frame_buffers [OF 2 [unfolded wait_for_stable_doom_frame_def]] by blast+
  from w(1) obtain f where f: "s2 = s\<lparr>doom_pixels := d, src := f\<rparr>" "x_map f = x_map (src s)"
      "y_map f = y_map (src s)" "source_open f = source_open (src s)"
    by (auto simp: same_source_def)
  note shot = snapshot_buffers [OF 4, of n]
  have c: "c \<noteq> None \<Longrightarrow> picture n c" using new_pixels_picture [OF 3] by simp
  have d: "d \<noteq> None \<Longrightarrow> picture n d" using new_pixels_picture [OF 1] by simp
  have s4: "buffers_ok s4 \<and> doom_frames s4 = doom_frames s \<and> source_open (src s4) = source_open (src s) \<and>
      img_width s4 = img_width s \<and> img_height s4 = img_height s \<and> doom_pixels s4 = d2 \<and>
      picture n (camera_pixels s4) \<and> \<not> path_started s4" if some: "c \<noteq> None"
  proof -
    define p where "p = camera_pixels s4"
    have p: "s4 = s2\<lparr>doom_pixels := d2, camera_pixels := p\<rparr>" "picture n p"
      using shot c [OF some] unfolding p_def by auto
    then show ?thesis using assms(2-4) f by (simp add: buffers_ok_def)
  qed
  let ?s2 = "s2\<lparr>doom_pixels := d2\<rparr>"
  have "start_doom_pixels env s n t =
      (if d = None then (s\<lparr>doom_pixels := d\<rparr>, t1, False)
       else if \<not> stable then (?s2, t2, False)
       else if \<not> entry_melt ?s2 then (?s2\<lparr>pixels := d2\<rparr>, t2, True)
       else if c = None then (s2\<lparr>doom_pixels := d2, camera_pixels := c\<rparr>, t3, False)
       else if got then (s4\<lparr>pixels := camera_pixels s4\<rparr>, t4, True) else (s4, t4, False))"
    unfolding start_doom_pixels_def Let_def 1 prod.case by (simp add: 2 3 4)
  note run = this [unfolded assms(1)]
  have idle: "buffers_ok x" if "\<not> path_started x" "x_map (src x) = x_map (src s)"
      "y_map (src x) = y_map (src s)" "camera_pixels x = camera_pixels s \<or> picture osg_pixels (camera_pixels x)"
      for x using that assms(3) by (auto simp: buffers_ok_def)
  consider "d = None" | "d \<noteq> None" "\<not> stable" | "d \<noteq> None" "stable" "\<not> entry_melt ?s2"
    | "d \<noteq> None" "stable" "entry_melt ?s2" "c = None"
    | "d \<noteq> None" "stable" "entry_melt ?s2" "c \<noteq> None" by blast
  then show ?thesis
  proof cases
    case 1
    with run assms(4) idle [of s'] show ?thesis by simp
  next
    case 2
    with run assms(4) idle [of s'] f show ?thesis by simp
  next
    case 3
    with run assms(4) idle [of s'] f w d show ?thesis by simp
  next
    case 4
    with run assms(3,4) f show ?thesis by (simp add: buffers_ok_def)
  next
    case 5
    with run s4 w d idle [of s'] show ?thesis by (auto simp: buffers_ok_def split: if_splits)
  qed
qed

lemma fill_frame [simp]:
  "doom_frames (fill_pixels s tr) = doom_frames s" "src (fill_pixels s tr) = src s"
  "img_width (fill_pixels s tr) = img_width s" "img_height (fill_pixels s tr) = img_height s"
  "path_started (fill_pixels s tr) = path_started s" "camera_pixels (fill_pixels s tr) = camera_pixels s"
  by (simp_all add: fill_pixels_def)

lemma start_pixels_buffers:
  assumes "start_pixels env s tr t = (s', t', ok)" and "buffers_ok s" and "\<not> path_started s"
    and "doom_frames s \<longrightarrow> full_size s"
  shows "buffers_ok s' \<and> doom_frames s' = doom_frames s \<and> source_open (src s') = source_open (src s) \<and>
    img_width s' = img_width s \<and> img_height s' = img_height s \<and>
    (ok \<longrightarrow> picture (unat (img_width s) * unat (img_height s)) (pixels s') \<and>
       (doom_frames s \<longrightarrow> picture osg_pixels (doom_pixels s')))"
proof -
  let ?n = "unat (img_width s) * unat (img_height s)"
  obtain t1 p where 1: "new_pixels env ''overlay'' ?n t = (t1, p)" by force
  let ?s1 = "fill_pixels (s\<lparr>pixels := p\<rparr>) tr"
  have frame: "doom_frames ?s1 = doom_frames s" "src ?s1 = src s" "img_width ?s1 = img_width s"
      "img_height ?s1 = img_height s" "path_started ?s1 = path_started s" "camera_pixels ?s1 = camera_pixels s"
    by simp_all
  have ok1: "buffers_ok ?s1" using assms(2,3) by (simp add: buffers_ok_def frame)
  have p: "p \<noteq> None \<Longrightarrow> picture ?n (pixels ?s1)" using new_pixels_picture [OF 1] by simp
  show ?thesis
  proof (cases "p \<noteq> None \<and> doom_frames s")
    case True
    then have n: "?n = osg_pixels" using assms(4) by (simp add: full_size_def osg_pixels_def)
    from True assms(1) have "start_doom_pixels env ?s1 ?n t1 = (s', t', ok)"
      by (auto simp: start_pixels_def 1 Let_def)
    from doom_pixels_buffers [OF this n ok1] assms(3) frame n show ?thesis by auto
  next
    case False
    have "(if p = None then (s\<lparr>pixels := p\<rparr>, t1, False) else (?s1, t1, True)) = (s', t', ok)"
      using False assms(1) by (auto simp: start_pixels_def 1 Let_def frame)
    then show ?thesis using False p ok1 frame assms(2,3) by (auto simp: buffers_ok_def split: if_splits)
  qed
qed

lemma publish_buffers:
  "publish_image env s t = (s', t', ok) \<Longrightarrow>
   s' = s\<lparr>video_published_frames := video_published_frames s', video_publish_errors := video_publish_errors s'\<rparr>"
  by (auto simp: publish_image_def Let_def split: prod.splits if_splits)

lemma publish_ok_kept:
  assumes "publish_image env s t = (s', t', ok)"
  shows "buffers_ok s' = buffers_ok s \<and> frames_ok s' = frames_ok s \<and> doom_frames s' = doom_frames s \<and>
    src s' = src s \<and> img_width s' = img_width s \<and> img_height s' = img_height s \<and> pixels s' = pixels s \<and>
    doom_pixels s' = doom_pixels s \<and> path_started s' = path_started s \<and> camera_pixels s' = camera_pixels s"
proof -
  define a b where "a = video_published_frames s'" and "b = video_publish_errors s'"
  have "s' = s\<lparr>video_published_frames := a, video_publish_errors := b\<rparr>"
    unfolding a_def b_def by (rule publish_buffers [OF assms])
  then show ?thesis by (simp add: buffers_ok_def frames_ok_def full_size_def)
qed

text \<open>What \<open>start_path\<close> leaves alone, and that a path runs only with its picture.\<close>

lemma start_path_buffers:
  assumes "start_path env s tr t = (s', t', ok)" and "buffers_ok s" and "\<not> path_started s"
    and "picture (unat (img_width s) * unat (img_height s)) (pixels s)"
  shows "buffers_ok s' \<and> doom_frames s' = doom_frames s \<and> src s' = src s \<and>
    img_width s' = img_width s \<and> img_height s' = img_height s \<and> doom_pixels s' = doom_pixels s"
proof -
  let ?keeps = "\<lambda>x. buffers_ok x \<and> doom_frames x = doom_frames s \<and> src x = src s \<and>
      img_width x = img_width s \<and> img_height x = img_height s \<and> doom_pixels x = doom_pixels s \<and>
      pixels x = pixels s"
  have p: "?keeps x'" if "publish_image env x u = (x', u', r)" "?keeps x" for x u x' u' r
    using publish_ok_kept [OF that(1)] that(2) by simp
  have q: "?keeps (x\<lparr>path_started := True\<rparr>)" if "?keeps x" for x
    using that assms(4) by (auto simp: buffers_ok_def)
  have o: "?keeps (x\<lparr>path_open := True\<rparr>)" if "?keeps x" for x
    using that by (auto simp: buffers_ok_def)
  have "?keeps s" using assms(2) by simp
  obtain s3 t3 ok3 where 3: "publish_image env (s\<lparr>path_open := True\<rparr>)
      ((t @ [Video (Venc_Open (encoder s))]) @ [Video (Venc_Set_Buffer (media_pa (s\<lparr>path_open := True\<rparr>))
        (media_size (s\<lparr>path_open := True\<rparr>)))]) = (s3, t3, ok3)" by (metis prod_cases3)
  obtain s6 t6 ok6 where 6: "publish_image env (s3\<lparr>path_started := True\<rparr>)
      ((t3 @ [Video Venc_Set_Attribute]) @ [Video Venc_Start]) = (s6, t6, ok6)" by (metis prod_cases3)
  note k0 = \<open>?keeps s\<close>
  note k1 = o [OF k0]
  note k3 = p [OF 3 k1]
  note k5 = q [OF k3]
  note k6 = p [OF 6 k5]
  have "s' = s \<or> s' = s\<lparr>path_open := True\<rparr> \<or> s' = s3 \<or> s' = s3\<lparr>path_started := True\<rparr> \<or> s' = s6"
    using assms(1) unfolding start_path_def attempt_def Let_def prod.case 3 6
    by (auto split: if_splits)
  then show ?thesis using k0 k1 k3 k5 k6 by (elim disjE) (simp_all only: simp_thms)
qed

lemma start_media_buffers:
  assumes "start_media env s e w h tr only t = (s', t', ok)" and "buffers_ok s"
    and "path_started s \<or> (doom_frames s \<longrightarrow> source_open (src s) \<and> w = 640 \<and> h = 360)"
  shows "buffers_ok s' \<and> (ok \<longrightarrow> doom_frames s' = doom_frames s \<and> source_open (src s') = source_open (src s) \<and>
    (\<not> only \<and> doom_frames s \<longrightarrow> full_size s' \<and> picture osg_pixels (doom_pixels s')))"
proof (cases "allocated s \<or> path_open s \<or> path_started s \<or> e > 3 \<or> w < 8 \<or> w > 640 \<or> h < 8 \<or> h > 512")
  case True
  with assms show ?thesis by (simp add: start_media_def)
next
  case False
  let ?s0 = "s\<lparr>encoder := e, img_width := w, img_height := h, checkerboard := \<not> tr\<rparr>"
  obtain s1 t1 ok1 where 1: "allocate_media env ?s0 w h t = (s1, t1, ok1)" by (metis prod_cases3)
  obtain s2 t2 ok2 where 2: "start_pixels env s1 tr t1 = (s2, t2, ok2)" by (metis prod_cases3)
  obtain s3 t3 ok3 where 3: "start_path env s2 tr t2 = (s3, t3, ok3)" by (metis prod_cases3)
  have s1: "buffers_ok s1 \<and> doom_frames s1 = doom_frames s \<and> src s1 = src s \<and> img_width s1 = w \<and>
      img_height s1 = h \<and> \<not> path_started s1"
    using 1 False assms(2) by (auto simp: allocate_media_def attempt_def buffers_ok_def Let_def split: if_splits)
  then have full: "doom_frames s1 \<longrightarrow> full_size s1"
    using assms(3) False by (auto simp: full_size_def E1_OSG_WIDTH_def E1_OSG_HEIGHT_def)
  note s2 = start_pixels_buffers [OF 2 conjunct1 [OF s1] _ full]
  have idle: "\<not> path_started s2" using start_pixels_same [OF 2] s1 by (simp add: media_flags_def)
  have s3: "buffers_ok s3 \<and> doom_frames s3 = doom_frames s2 \<and> src s3 = src s2 \<and>
      img_width s3 = img_width s2 \<and> img_height s3 = img_height s2 \<and> doom_pixels s3 = doom_pixels s2" if ok2
    using start_path_buffers [OF 3 _ idle] s2 s1 that by simp
  have "start_media env s e w h tr only t = (if \<not> ok1 then (s1, t1, False)
         else if only then (s1, t1 @ [World (Write_Marker ''media.active'' ''allocation-only'')],
           succeeds env (t1 @ [World (Write_Marker ''media.active'' ''allocation-only'')]))
         else if \<not> ok2 then (s2, t2, False) else (s3, t3, ok3))"
    unfolding start_media_def if_not_P [OF False] Let_def 1 prod.case by (simp add: 2 3 attempt_def)
  note run = this [unfolded assms(1)]
  from run consider "s' = s1" "\<not> ok" | "s' = s1" "only" | "ok1" "s' = s2" "\<not> ok"
    | "ok2" "s' = s3" "\<not> only" by (auto split: if_splits)
  then show ?thesis
  proof cases
    case 4
    then show ?thesis using s1 s2 s3 full by (simp add: full_size_def)
  qed (use s1 s2 in simp_all)
qed

lemma cleanup_media_buffers:
  assumes "cleanup_media env s t = (s', t', ok)" and "buffers_ok s"
  shows "buffers_ok s' \<and> frames_ok s'"
proof -
  obtain s1 t1 ok1 where 1: "stop_path env s t = (s1, t1, ok1)" by (metis prod_cases3)
  obtain s2 t2 ok2 where 2: "close_path env s1 t1 = (s2, t2, ok2)" by (metis prod_cases3)
  obtain s3 t3 ok3 where 3: "free_media env s2 t2 = (s3, t3, ok3)" by (metis prod_cases3)
  have s1: "buffers_ok s1 \<and> (ok1 \<longrightarrow> \<not> path_started s1)"
    using 1 assms(2) by (auto simp: stop_path_def attempt_def buffers_ok_def Let_def split: if_splits)
  have s2: "buffers_ok s2 \<and> (ok1 \<longrightarrow> \<not> path_started s2)"
    using 2 s1 by (auto simp: close_path_def attempt_def buffers_ok_def Let_def split: if_splits)
  have s3: "buffers_ok s3 \<and> (ok1 \<longrightarrow> \<not> path_started s3)"
    using 3 s2 by (auto simp: free_media_def attempt_def buffers_ok_def Let_def split: if_splits)
  let ?s4 = "s3\<lparr>pixels := None, doom_pixels := None, camera_pixels := None, checkerboard := False,
      entry_melt := False, melt_last_ms := 0, melt_tick_remainder := 0\<rparr>"
  let ?t4 = "free_pixels (camera_pixels s3) (free_pixels (doom_pixels s3) (free_pixels (pixels s3) t3))"
  obtain s5 t5 where 5: "close_frame_source ?s4 ?t4 = (s5, t5)" by force
  obtain s6 t6 where 6: "close_frame_source s3 t3 = (s6, t6)" by force
  have "buffers_ok ?s4" if ok1 using s3 that by (simp add: buffers_ok_def)
  from close_source_buffers [OF 5 this] close_source_buffers [OF 6] s3 assms(1) show ?thesis
    unfolding cleanup_media_def 1 2 3 Let_def prod.case 5 6 by (auto split: if_splits)
qed

end
