(* ===== verification/Audio_Path.thy ===== *)
theory Audio_Path
  imports Vendor_Protocol
begin

text \<open>
  The audio side of \<open>src/camera/e1-doom-injected.c\<close>: substituting the microphone's samples in the
  stock encoder (\<open>start_stock_audio_tone\<close>, \<open>start_stock_audio_doom\<close>), encoding a tone with an
  encoder of its own (\<open>start_audio_tone\<close>, which the code refuses as long as the layout of the
  vendor's device manager is unresolved), and \<open>cleanup_audio\<close>.
\<close>

section \<open>Data\<close>

definition AUDIO_TONE_FRAMES :: nat where [e1_consts]: "AUDIO_TONE_FRAMES = 8"

text \<open>\<open>ring_mapped\<close> says that \<open>ring\<close> is not \<open>NULL\<close>, \<open>ring_fd\<close> that the file is open.\<close>

record audio_state =
  pcm_pa :: u32
  pcm_size :: u32
  output_pa :: u32
  output_size :: u32
  first_timestamp :: u64
  last_timestamp :: u64
  first_size :: u32
  last_size :: u32
  rolling_hash :: u32
  encoded_frames :: u32
  pcm_allocated :: bool
  aenc_open :: bool
  aenc_started :: bool
  output_mapped :: bool
  stock_hook_active :: bool
  stock_hook_used :: bool
  stock_hook_mode :: audio_pcm_mode
  ring_fd :: bool
  ring_mapped :: bool

definition audio_zero :: audio_state where
  "audio_zero = \<lparr>pcm_pa = 0, pcm_size = 0, output_pa = 0, output_size = 0, first_timestamp = 0,
     last_timestamp = 0, first_size = 0, last_size = 0, rolling_hash = 0, encoded_frames = 0,
     pcm_allocated = False, aenc_open = False, aenc_started = False, output_mapped = False,
     stock_hook_active = False, stock_hook_used = False,
     stock_hook_mode = AUDIO_PCM_PASS_THROUGH, ring_fd = False, ring_mapped = False\<rparr>"

definition audio_has_resources :: "audio_state \<Rightarrow> bool" where
  "audio_has_resources s \<longleftrightarrow> pcm_allocated s \<or> aenc_open s \<or> aenc_started s \<or> output_mapped s \<or>
     stock_hook_active s \<or> ring_fd s \<or> ring_mapped s"

section \<open>The stock encoder's samples\<close>

definition start_stock_audio_tone :: "injected_env \<Rightarrow> audio_state \<Rightarrow> trace \<Rightarrow> audio_state \<times> trace \<times> bool" where
  "start_stock_audio_tone env s t =
     (if audio_has_resources s then (s, t, False)
      else
        let t = t @ [World (Remove_Marker ''audio.encoded''), World (Remove_Marker ''audio.source.restored''),
                     World (Remove_Marker ''audio.hook.quiesced''), Hook Store_Pcm_Counters, Hook (Store_Pcm_Mode AUDIO_PCM_TONE)];
            s = s\<lparr>stock_hook_active := True, stock_hook_used := True, stock_hook_mode := AUDIO_PCM_TONE\<rparr>;
            (t, ok) = attempt env (World (Write_Marker ''audio.active'' ''stock-aac-pcm-tone'')) t
        in if \<not> ok
           then (s\<lparr>stock_hook_active := False, stock_hook_mode := AUDIO_PCM_PASS_THROUGH\<rparr>,
                 note_call (Hook (Store_Pcm_Mode AUDIO_PCM_PASS_THROUGH)) t, False)
           else (s, t, True))"

text \<open>The ring's file: opened, checked, mapped and checked again.\<close>

definition open_audio_ring :: "injected_env \<Rightarrow> audio_state \<Rightarrow> trace \<Rightarrow> audio_state \<times> trace \<times> bool" where
  "open_audio_ring env s t =
     (let (t, opened) = attempt env (Audio Open_Ring_File) t; s = s\<lparr>ring_fd := opened\<rparr>;
          (t, stat) = (if opened then attempt env (Hook Stat_Ring_File) t else (t, False))
      in if \<not> stat then
           (if ring_fd s then (s\<lparr>ring_fd := False\<rparr>, note_call (Audio Close_Ring_File) t, False) else (s, t, False))
         else
           (let (t, mapped) = attempt env (Audio Map_Ring_File) t
            in if \<not> mapped then (s\<lparr>ring_fd := False\<rparr>, note_call (Audio Close_Ring_File) t, False)
               else if \<not> e1_audio_ring_valid (Some (ring_at env t))
               then (s\<lparr>ring_fd := False\<rparr>, note_call (Audio Close_Ring_File) (note_call (Audio Unmap_Ring_File) t), False)
               else (s\<lparr>ring_mapped := True\<rparr>, t, True)))"

definition start_stock_audio_doom :: "injected_env \<Rightarrow> audio_state \<Rightarrow> trace \<Rightarrow> audio_state \<times> trace \<times> bool" where
  "start_stock_audio_doom env s t =
     (if audio_has_resources s then (s, t, False)
      else
        let (s, t, ok) = open_audio_ring env s t
        in if \<not> ok then (s, t, False)
           else
             (let t = t @ [World (Remove_Marker ''audio.encoded''), World (Remove_Marker ''audio.source.restored''),
                     World (Remove_Marker ''audio.hook.quiesced''), Hook Store_Pcm_Counters, Hook (Store_Pcm_Ring True),
                     Hook (Store_Pcm_Mode AUDIO_PCM_DOOM)];
                  s = s\<lparr>stock_hook_active := True, stock_hook_used := True, stock_hook_mode := AUDIO_PCM_DOOM\<rparr>;
                  (t, ok) = attempt env (World (Write_Marker ''audio.active'' ''stock-aac-pcm-doom'')) t
              in if \<not> ok
                 then (s\<lparr>stock_hook_active := False, stock_hook_mode := AUDIO_PCM_PASS_THROUGH,
                         ring_mapped := False, ring_fd := False\<rparr>,
                       t @ [Hook (Store_Pcm_Mode AUDIO_PCM_PASS_THROUGH), Hook (Store_Pcm_Ring False), Audio Unmap_Ring_File,
                            Audio Close_Ring_File], False)
                 else (s, t, True)))"

definition print_u :: "u32 \<Rightarrow> string" where
  "print_u x = print_ld (unat x)"

text \<open>\<open>%d\<close> of a sample.\<close>

definition print_d :: "int \<Rightarrow> string" where
  "print_d x = (if x < 0 then ''-'' else []) @ print_ld (nat \<bar>x\<bar>)"

definition tone_text :: "u32 \<Rightarrow> pcm_hook \<Rightarrow> string" where
  "tone_text frames h =
     ''mode=tone frames='' @ print_u frames @ '' samples_per_frame='' @ print_u E1_AUDIO_SAMPLES_PER_FRAME @
     '' sample_rate='' @ print_u E1_AUDIO_SAMPLE_RATE @
     '' readback_positive='' @ print_d (readback_positive h) @
     '' readback_negative='' @ print_d (readback_negative h)"

definition doom_text :: "u32 \<Rightarrow> pcm_hook \<Rightarrow> e1_audio_ring option \<Rightarrow> string" where
  "doom_text frames h ring =
     (let field = (\<lambda>f. case ring of None \<Rightarrow> 0 | Some r \<Rightarrow> f r)
      in ''mode=doom frames='' @ print_u frames @ '' last_frame='' @ print_u (pcm_last h) @
         '' dropped='' @ print_u (pcm_dropped h) @ '' underflows='' @ print_u (pcm_underflows h) @
         '' producer_drops='' @ print_u (field producer_drops) @ '' produced='' @ print_u (field ring_mixed_frames) @
         '' nonzero='' @ print_u (field nonzero_frames) @ '' peak='' @ print_u (field peak_abs) @
         '' sample_rate='' @ print_u E1_AUDIO_SAMPLE_RATE)"

text \<open>The counters of the hook as they are loaded; the marker is written when its text fits the 224
  bytes of the buffer.\<close>

definition update_stock_audio :: "injected_env \<Rightarrow> audio_state \<Rightarrow> trace \<Rightarrow> audio_state \<times> trace" where
  "update_stock_audio env s t =
     (if \<not> stock_hook_active s then (s, t)
      else
        let t = t @ [Hook Load_Pcm_Counters]; h = hook_at env t; frames = pcm_frames h;
            frames = (if stock_hook_mode s = AUDIO_PCM_TONE \<and> frames > STOCK_AUDIO_TONE_FRAMES
                      then STOCK_AUDIO_TONE_FRAMES else frames);
            marker = (if stock_hook_mode s = AUDIO_PCM_TONE then tone_text frames h
                      else doom_text frames h (if ring_mapped s then Some (ring_at env t) else None));
            t = (if frames \<noteq> 0 \<and> length marker < 224 then note_call (World (Write_Marker ''audio.encoded'' marker)) t
                 else t);
            (t, m) = (if stock_hook_mode s = AUDIO_PCM_TONE
                      then (let t = t @ [Hook Load_Pcm_Mode] in (t, pcm_mode (hook_at env t)))
                      else (t, AUDIO_PCM_DOOM))
        in if m = AUDIO_PCM_PASS_THROUGH
           then (s\<lparr>stock_hook_active := False, stock_hook_mode := AUDIO_PCM_PASS_THROUGH\<rparr>,
                 t @ [World (Remove_Marker ''audio.active''),
                      World (Write_Marker ''audio.source.restored'' ''microphone-pass-through'')])
           else (s, t))"

text \<open>The loop that waits until no call is inside the hook.\<close>

fun quiesce :: "nat \<Rightarrow> injected_env \<Rightarrow> trace \<Rightarrow> trace \<times> bool" where
  "quiesce 0 env t = (t, False)"
| "quiesce (Suc n) env t =
     (let t = t @ [Hook Load_Pcm_Active]
      in if pcm_active (hook_at env t) = 0 then (t, True) else quiesce n env (note_call (World Nap) t))"

definition cleanup_stock_audio_hook :: "injected_env \<Rightarrow> audio_state \<Rightarrow> trace \<Rightarrow> audio_state \<times> trace \<times> bool" where
  "cleanup_stock_audio_hook env s t =
     (let t = note_call (Hook (Store_Pcm_Mode AUDIO_PCM_PASS_THROUGH)) t; s = s\<lparr>stock_hook_active := False\<rparr>;
          (t, quiet) = quiesce 100 env t
      in if quiet
         then (let t = note_call (Hook (Store_Pcm_Ring False)) t;
                   t = (if ring_mapped s then note_call (Audio Unmap_Ring_File) t else t);
                   t = (if ring_fd s then note_call (Audio Close_Ring_File) t else t)
               in (s\<lparr>ring_mapped := False, ring_fd := False, stock_hook_mode := AUDIO_PCM_PASS_THROUGH\<rparr>,
                   t @ [World (Remove_Marker ''audio.active''),
                        World (Write_Marker ''audio.source.restored'' ''microphone-pass-through'')], True))
         else (s, t, False))"

section \<open>An encoder of its own\<close>

definition fnv1a_update :: "u32 \<Rightarrow> u8 list \<Rightarrow> u32" where
  "fnv1a_update hash bytes = fold (\<lambda>b hash. (hash XOR ucast b) * 16777619) bytes hash"

definition no_contract :: e1_adts_contract where
  "no_contract = \<lparr>mpeg_id = 0, object_type = 0, sample_rate = 0, channels = 0, header_size = 0,
     frame_size = 0, buffer_fullness = 0, raw_data_blocks = 0\<rparr>"

text \<open>A bitstream inside the encoder's buffer, and its bytes in the mapping of that buffer.\<close>

definition inside_output :: "audio_state \<Rightarrow> audio_bitstream \<Rightarrow> bool" where
  "inside_output s b \<longleftrightarrow> bs_aac b \<and> \<not> bs_address b < output_pa s \<and> bs_size b \<noteq> 0 \<and>
     \<not> ucast (bs_address b) + ucast (bs_size b) > (ucast (output_pa s) + ucast (output_size s) :: u64)"

definition payload_of :: "audio_state \<Rightarrow> audio_bitstream \<Rightarrow> u8 list \<Rightarrow> u8 list" where
  "payload_of s b mapping = drop (unat (bs_address b - output_pa s)) mapping"

definition stock_frame :: "audio_bitstream \<Rightarrow> u8 list \<Rightarrow> bool" where
  "stock_frame b payload \<longleftrightarrow>
     (case e1_parse_stock_adts (Some payload) (unat (bs_size b)) (Some no_contract) of
        (Some c, r) \<Rightarrow> r = 0 \<and> frame_size c = bs_size b | (None, r) \<Rightarrow> False)"

definition take_bitstream :: "audio_bitstream \<Rightarrow> u8 list \<Rightarrow> audio_state \<Rightarrow> audio_state \<times> bool" where
  "take_bitstream b mapping s =
     (if \<not> inside_output s b \<or> \<not> stock_frame b (payload_of s b mapping) then (s, False)
      else
        let first = (encoded_frames s = 0); late = (\<not> first \<and> bs_timestamp b < last_timestamp s);
            s = (if first then s\<lparr>first_timestamp := bs_timestamp b, first_size := bs_size b\<rparr> else s)
        in (s\<lparr>last_timestamp := bs_timestamp b, last_size := bs_size b,
              rolling_hash := fnv1a_update (rolling_hash s)
                (take (unat (bs_size b)) (payload_of s b mapping))\<rparr>, \<not> late))"

definition encode_frame :: "nat \<Rightarrow> injected_env \<Rightarrow> audio_state \<Rightarrow> trace \<Rightarrow> audio_state \<times> trace \<times> bool" where
  "encode_frame index env s t =
     (let (t, pushed) = attempt env (Audio (Aenc_Push index)) t
      in if \<not> pushed then (s, t, False)
         else
           (let (t, pulled) = attempt env (Audio Aenc_Pull) t
            in if \<not> pulled then (s, t, False)
               else
                 (let (s, valid) = take_bitstream (bitstream_at env t) (memory_at env t) s;
                      (t, released) = attempt env (Audio Aenc_Release) t
                  in if \<not> released \<or> \<not> valid then (s, t, False)
                     else (s\<lparr>encoded_frames := encoded_frames s + 1\<rparr>, t, True))))"

fun encode_loop :: "nat \<Rightarrow> injected_env \<Rightarrow> audio_state \<Rightarrow> trace \<Rightarrow> audio_state \<times> trace \<times> bool" where
  "encode_loop 0 env s t = (s, t, True)"
| "encode_loop (Suc n) env s t =
     (let (s, t, ok) = encode_frame (AUDIO_TONE_FRAMES - Suc n) env s t
      in if \<not> ok then (s, t, False)
         else encode_loop n env s (if n > 0 then note_call (World Nap) t else t))"

definition encode_tone_frames :: "injected_env \<Rightarrow> audio_state \<Rightarrow> trace \<Rightarrow> audio_state \<times> trace \<times> bool" where
  "encode_tone_frames env s t = encode_loop AUDIO_TONE_FRAMES env (s\<lparr>rolling_hash := 2166136261\<rparr>) t"

text \<open>The calls that set up the encoder's path, in order, up to the first that fails.\<close>

fun attempt_all :: "injected_env \<Rightarrow> call list \<Rightarrow> trace \<Rightarrow> trace \<times> bool" where
  "attempt_all env [] t = (t, True)"
| "attempt_all env (c # cs) t =
     (let (t, ok) = attempt env c t in if ok then attempt_all env cs t else (t, False))"

definition encoded_text :: "audio_state \<Rightarrow> string" where
  "encoded_text s =
     ''frames='' @ print_u (encoded_frames s) @ '' first_size='' @ print_u (first_size s) @
     '' last_size='' @ print_u (last_size s) @ '' first_ts='' @ print_ld (unat (first_timestamp s)) @
     '' last_ts='' @ print_ld (unat (last_timestamp s)) @ '' fnv1a='' @
     (let d = print_base 16 (unat (rolling_hash s)) in replicate (8 - length d) CHR ''0'' @ d)"

definition map_output :: "injected_env \<Rightarrow> audio_state \<Rightarrow> trace \<Rightarrow> audio_state \<times> trace \<times> bool" where
  "map_output env s t =
     (let (t, ok) = attempt env (Audio Aenc_Get_Buffer) t
      in if \<not> ok \<or> address_at env t = 0 \<or> length_at env t = 0 then (s, t, False)
         else
           (let s = s\<lparr>output_pa := address_at env t, output_size := length_at env t\<rparr>;
                (t, ok) = attempt env (Audio (Map_Output (output_pa s) (output_size s))) t
            in if \<not> ok then (s, t, False) else (s\<lparr>output_mapped := True\<rparr>, t, True)))"

definition run_tone :: "injected_env \<Rightarrow> audio_state \<Rightarrow> trace \<Rightarrow> audio_state \<times> trace \<times> bool" where
  "run_tone env s t =
     (let (t, ok) = attempt env (World (Write_Marker ''audio.active'' ''native-aac-tone'')) t
      in if \<not> ok then (s, t, False)
         else
           (let (s, t, ok) = encode_tone_frames env s t
            in if \<not> ok \<or> length (encoded_text s) \<ge> 192 then (s, t, False)
               else (let (t, ok) = attempt env (World (Write_Marker ''audio.encoded'' (encoded_text s))) t
                     in (s, t, ok))))"

text \<open>\<open>abi_valid\<close> is the static \<open>native_audio_manager_abi_valid\<close>, which nothing sets.\<close>

definition start_audio_tone :: "bool \<Rightarrow> injected_env \<Rightarrow> audio_state \<Rightarrow> trace \<Rightarrow> audio_state \<times> trace \<times> bool" where
  "start_audio_tone abi_valid env s t =
     (if \<not> abi_valid \<or> audio_has_resources s then (s, t, False)
      else
        let (t, idle) = attempt env (Hook Load_Manager) t
        in if \<not> idle then (s, t, False)
        else let s = s\<lparr>pcm_size := E1_AUDIO_PCM_BYTES_PER_FRAME\<rparr>;
            (t, ok) = attempt env (Audio (Alloc_Pcm (pcm_size s))) t; s = s\<lparr>pcm_pa := address_at env t\<rparr>
        in if \<not> ok \<or> pcm_pa s = 0 then (s, t, False)
        else let s = s\<lparr>pcm_allocated := True\<rparr>; (t, ok) = attempt env (Audio Aenc_Open) t
        in if \<not> ok then (s, t, False)
        else let s = s\<lparr>aenc_open := True\<rparr>;
            (t, ok) = attempt_all env [Audio Aenc_Set_Path, Audio Aenc_Set_In, Audio Aenc_Set_Out, Audio Aenc_Start] t
        in if \<not> ok then (s, t, False)
        else let s = s\<lparr>aenc_started := True\<rparr>; (s, t, ok) = map_output env s t
        in if \<not> ok then (s, t, False) else run_tone env s t)"

section \<open>Cleaning up\<close>

fun retry_call :: "nat \<Rightarrow> injected_env \<Rightarrow> call \<Rightarrow> trace \<Rightarrow> trace \<times> bool" where
  "retry_call 0 env c t = (t, False)"
| "retry_call (Suc n) env c t =
     (let (t, ok) = attempt env c t in if ok then (t, True) else retry_call n env c (note_call (World Nap) t))"

definition retry_audio_path_call :: "injected_env \<Rightarrow> call \<Rightarrow> trace \<Rightarrow> trace \<times> bool" where
  "retry_audio_path_call = retry_call 3"

definition release_step ::
    "bool \<Rightarrow> (trace \<Rightarrow> trace \<times> bool) \<Rightarrow> (audio_state \<Rightarrow> audio_state) \<Rightarrow> audio_state \<times> trace \<times> bool \<Rightarrow>
     audio_state \<times> trace \<times> bool" where
  "release_step needed f upd r =
     (case r of (s, t, result) \<Rightarrow>
        if needed then (let (t, ok) = f t in if ok then (upd s, t, result) else (s, t, False))
        else r)"

definition cleanup_audio :: "injected_env \<Rightarrow> audio_state \<Rightarrow> trace \<Rightarrow> audio_state \<times> trace \<times> bool" where
  "cleanup_audio env s t =
     (let (s, t, result) = (if stock_hook_active s \<or> stock_hook_used s
            then cleanup_stock_audio_hook env s t else (s, t, True));
          (s, t, result) = release_step (aenc_started s) (retry_audio_path_call env (Audio Aenc_Stop))
            (\<lambda>s. s\<lparr>aenc_started := False\<rparr>) (s, t, result);
          (s, t, result) = release_step (\<not> aenc_started s \<and> output_mapped s) (attempt env (Audio Unmap_Output))
            (\<lambda>s. s\<lparr>output_mapped := False, output_pa := 0, output_size := 0\<rparr>) (s, t, result);
          (s, t, result) = release_step (\<not> aenc_started s \<and> \<not> output_mapped s \<and> aenc_open s)
            (retry_audio_path_call env (Audio Aenc_Close)) (\<lambda>s. s\<lparr>aenc_open := False\<rparr>) (s, t, result);
          (s, t, result) = release_step (\<not> aenc_open s \<and> \<not> aenc_started s \<and> pcm_allocated s)
            (attempt env (Audio Free_Pcm)) (\<lambda>s. s\<lparr>pcm_allocated := False, pcm_pa := 0, pcm_size := 0\<rparr>) (s, t, result)
      in if result \<and> \<not> audio_has_resources s
         then (let t = note_call (World (Remove_Marker ''audio.active'')) t;
                   (t, used) = (if stock_hook_used s then attempt env (World (Test_Marker ''audio.patch.used'')) t
                                else (t, False))
               in (s, if \<not> used then note_call (World (Write_Marker ''audio.restored'' ''complete'')) t else t, True))
         else (s, note_call (World (Write_Marker ''injected.error'' ''audio-cleanup-failed'')) t, False))"

section \<open>The vendor's protocol\<close>

text \<open>The flags are the state of the hardware and of the ring's file, and no call came in the wrong
  state.\<close>

definition audio_view :: "audio_state \<Rightarrow> audio_hw" where
  "audio_view s = \<lparr>pcm_memory = pcm_allocated s,
     aenc_path = (if aenc_started s then Path_Started else if aenc_open s then Path_Opened else Path_Closed),
     output_map = output_mapped s, ring_file = ring_fd s, ring_map = ring_mapped s, audio_legal = True\<rparr>"

definition audio_ok :: "injected_env \<Rightarrow> audio_state \<Rightarrow> trace \<Rightarrow> bool" where
  "audio_ok env s t \<longleftrightarrow> audio_of env t = audio_view s \<and> (aenc_started s \<longrightarrow> aenc_open s) \<and>
     (aenc_open s \<longrightarrow> pcm_allocated s) \<and> (output_mapped s \<longrightarrow> aenc_open s) \<and> (ring_mapped s \<longrightarrow> ring_fd s)"

definition audio_flags :: "audio_state \<Rightarrow> bool \<times> bool \<times> bool \<times> bool \<times> bool \<times> bool" where
  "audio_flags s = (pcm_allocated s, aenc_open s, aenc_started s, output_mapped s, ring_fd s, ring_mapped s)"

definition video_kept :: "injected_env \<Rightarrow> trace \<Rightarrow> trace \<Rightarrow> bool" where
  "video_kept env t t' \<longleftrightarrow> video_of env t' = video_of env t"

lemma video_kept_refl [simp]: "video_kept env t t"
  by (simp add: video_kept_def)

lemma video_kept_trans: "video_kept env t t' \<Longrightarrow> video_kept env t' t'' \<Longrightarrow> video_kept env t t''"
  by (simp add: video_kept_def)

lemma audio_ok_same:
  "audio_ok env s t \<Longrightarrow> same_hw env t t' \<Longrightarrow> audio_flags s' = audio_flags s \<Longrightarrow>
   audio_ok env s' t' \<and> video_kept env t t'"
  unfolding audio_ok_def audio_view_def same_hw_def audio_flags_def video_kept_def by simp

lemmas audio_defs = audio_ok_def audio_view_def audio_flags_def video_kept_def audio_hw_simps attempt_def Let_def

lemma stock_tone_ok:
  assumes "audio_ok env s t" and "start_stock_audio_tone env s t = (s', t', ok)"
  shows "audio_ok env s' t' \<and> video_kept env t t'"
proof (rule audio_ok_same [OF assms(1)])
  show "audio_flags s' = audio_flags s"
    using assms(2) by (auto simp: start_stock_audio_tone_def audio_flags_def Let_def split: if_splits prod.splits)
  show "same_hw env t t'"
    using assms(2) by (auto simp: start_stock_audio_tone_def note_call_def attempt_def Let_def same_hw_list split: if_splits)
qed

lemma attempt_audio:
  assumes "attempt env (Audio c) t = (t', ok)"
  shows "audio_of env t' = audio_hw_step (Audio c) (ok, address_at env t') (audio_of env t)" and "video_kept env t t'"
  using assms by (auto simp: attempt_def video_kept_def)

lemma note_audio:
  "audio_of env (note_call (Audio c) t) =
     audio_hw_step (Audio c) (succeeds env (t @ [Audio c]), address_at env (t @ [Audio c])) (audio_of env t)"
  "video_kept env t (note_call (Audio c) t)"
  by (simp_all add: note_call_def video_kept_def)

lemma open_ring_ok:
  assumes "audio_ok env s t" and "\<not> ring_fd s" and "\<not> ring_mapped s"
    and "open_audio_ring env s t = (s', t', ok)"
  shows "audio_ok env s' t' \<and> video_kept env t t' \<and> (ok \<longleftrightarrow> ring_mapped s') \<and> (ok \<longrightarrow> ring_fd s')"
proof -
  obtain t1 opened where 1: "attempt env (Audio Open_Ring_File) t = (t1, opened)" by force
  obtain t2 stat where 2: "attempt env (Hook Stat_Ring_File) t1 = (t2, stat)" by force
  obtain t3 map where 3: "attempt env (Audio Map_Ring_File) t2 = (t3, map)" by force
  note h1 = attempt_audio [OF 1] and h3 = attempt_audio [OF 3] 
  have same: "same_hw env t1 t2" using 2 by (auto simp: attempt_def)
  have a1: "audio_of env t1 = audio_view (s\<lparr>ring_fd := opened\<rparr>)" and v1: "video_kept env t t1"
    using h1 assms(1,2) by (simp_all add: audio_ok_def audio_view_def audio_hw_simps goes_def)
  have a2: "audio_of env t2 = audio_of env t1" and v2: "video_kept env t t2"
    using same v1 by (simp_all add: same_hw_def video_kept_def)
  have a3: "audio_of env t3 = audio_view (s\<lparr>ring_fd := True, ring_mapped := map\<rparr>)" and v3: "video_kept env t t3" if opened
    using h3 a1 a2 v2 assms(3) that
    by (simp_all add: audio_view_def audio_hw_simps goes_def video_kept_def)
  have a4: "audio_of env (note_call (Audio Unmap_Ring_File) t3) = audio_view (s\<lparr>ring_fd := True\<rparr>)"
      "video_kept env t (note_call (Audio Unmap_Ring_File) t3)" if opened map
    using note_audio [where env = env and c = Unmap_Ring_File and t = t3] a3 v3 assms(3) that
    by (auto simp: audio_view_def audio_hw_simps intro: video_kept_trans)
  have close: "audio_of env (note_call (Audio Close_Ring_File) u) = audio_view s"
      "video_kept env t (note_call (Audio Close_Ring_File) u)"
    if "audio_of env u = audio_view (s\<lparr>ring_fd := True\<rparr>)" "video_kept env t u" for u
    using note_audio [where env = env and c = Close_Ring_File and t = u] that assms(2)
    by (auto simp: audio_view_def audio_hw_simps intro: video_kept_trans)
  have s: "s\<lparr>ring_fd := False\<rparr> = s" "s\<lparr>ring_fd := True, ring_mapped := False\<rparr> = s\<lparr>ring_fd := True\<rparr>"
    using assms(2,3) by simp_all
  have "open_audio_ring env s t =
      (if \<not> opened then (s, t1, False)
       else if \<not> stat then (s, note_call (Audio Close_Ring_File) t2, False)
       else if \<not> map then (s, note_call (Audio Close_Ring_File) t3, False)
       else if \<not> e1_audio_ring_valid (Some (ring_at env t3))
       then (s, note_call (Audio Close_Ring_File) (note_call (Audio Unmap_Ring_File) t3), False)
       else (s\<lparr>ring_fd := True, ring_mapped := True\<rparr>, t3, True))"
    using assms(2) unfolding open_audio_ring_def Let_def 1 prod.case
    by (cases opened; cases stat; simp add: 2 3)
  note run = this [unfolded assms(4)]
  have w: "audio_ok env s u" if "audio_of env u = audio_view s" for u
    using that assms(1) by (simp add: audio_ok_def)
  have m: "audio_ok env (s\<lparr>ring_fd := True, ring_mapped := True\<rparr>) t3" if opened map
    using a3 that assms(1) by (simp add: audio_ok_def)
  show ?thesis
    using run a1 a2 a3 a4 v1 v2 v3 close [of t2] close [of t3] close [of "note_call (Audio Unmap_Ring_File) t3"] w m
      assms(1-3) s
    by (cases opened; cases stat; cases map) (simp_all split: if_splits)
qed

lemma stock_doom_ok:
  assumes "audio_ok env s t" and "start_stock_audio_doom env s t = (s', t', ok)"
  shows "audio_ok env s' t' \<and> video_kept env t t'"
proof (cases "audio_has_resources s")
  case True
  with assms show ?thesis by (simp add: start_stock_audio_doom_def)
next
  case False
  obtain s1 t1 ok1 where 1: "open_audio_ring env s t = (s1, t1, ok1)" by (metis prod_cases3)
  from False have none: "\<not> ring_fd s" "\<not> ring_mapped s" by (simp_all add: audio_has_resources_def)
  note ring = open_ring_ok [OF assms(1) none 1]
  let ?calls = "[World (Remove_Marker ''audio.encoded''), World (Remove_Marker ''audio.source.restored''),
      World (Remove_Marker ''audio.hook.quiesced''), Hook Store_Pcm_Counters, Hook (Store_Pcm_Ring True),
      Hook (Store_Pcm_Mode AUDIO_PCM_DOOM)]"
  let ?s2 = "s1\<lparr>stock_hook_active := True, stock_hook_used := True, stock_hook_mode := AUDIO_PCM_DOOM\<rparr>"
  obtain t2 written where 2: "attempt env (World (Write_Marker ''audio.active'' ''stock-aac-pcm-doom''))
      (t1 @ ?calls) = (t2, written)" by force
  have "same_hw env t1 t2" using 2 by (auto simp: attempt_def same_hw_list)
  note h2 = audio_ok_same [OF conjunct1 [OF ring] this]
  define t3 where "t3 = t2 @ [Hook (Store_Pcm_Mode AUDIO_PCM_PASS_THROUGH), Hook (Store_Pcm_Ring False)]"
  let ?t4 = "note_call (Audio Unmap_Ring_File) t3" and ?t5 = "note_call (Audio Close_Ring_File) (note_call (Audio Unmap_Ring_File) t3)"
  let ?s5 = "?s2\<lparr>stock_hook_active := False, stock_hook_mode := AUDIO_PCM_PASS_THROUGH, ring_mapped := False,
      ring_fd := False\<rparr>"
  have "same_hw env t2 t3" by (simp add: t3_def same_hw_list)
  note h3 = audio_ok_same [OF _ this]
  have h5: "audio_ok env ?s5 ?t5 \<and> video_kept env t ?t5" if ok1
  proof -
    have "audio_ok env ?s2 t2 \<and> video_kept env t1 t2" by (rule h2) (simp add: audio_flags_def)
    with h3 [of ?s2 ?s2] ring have a3: "audio_ok env ?s2 t3" and v3: "video_kept env t t3"
      by (auto intro: video_kept_trans)
    have "audio_of env ?t4 = audio_view (?s2\<lparr>ring_mapped := False\<rparr>)"
      using note_audio(1) [where env = env and c = Unmap_Ring_File and t = t3] a3 ring that
      by (simp add: audio_ok_def audio_view_def audio_hw_simps)
    then have "audio_of env ?t5 = audio_view ?s5"
      using note_audio(1) [where env = env and c = Close_Ring_File and t = ?t4] ring that
      by (simp add: audio_view_def audio_hw_simps)
    moreover have "video_kept env t ?t5"
      using v3 note_audio(2) by (blast intro: video_kept_trans)
    ultimately show ?thesis using a3 by (simp add: audio_ok_def)
  qed
  have "start_stock_audio_doom env s t = (if \<not> ok1 then (s1, t1, False) else if \<not> written then (?s5, ?t5, False)
      else (?s2, t2, True))"
    using False unfolding start_stock_audio_doom_def Let_def 1 prod.case 2 t3_def by (simp add: note_call_def)
  note run = this [unfolded assms(2)]
  have "audio_ok env ?s2 t2 \<and> video_kept env t1 t2" by (rule h2) (simp add: audio_flags_def)
  with run ring h5 show ?thesis by (auto split: if_splits intro: video_kept_trans)
qed

lemma update_stock_ok:
  assumes "audio_ok env s t" and "update_stock_audio env s t = (s', t')"
  shows "audio_ok env s' t' \<and> video_kept env t t'"
proof (rule audio_ok_same [OF assms(1)])
  show "audio_flags s' = audio_flags s"
    using assms(2) by (auto simp: update_stock_audio_def audio_flags_def Let_def split: if_splits prod.splits)
  show "same_hw env t t'"
    using assms(2) by (auto simp: update_stock_audio_def same_hw_def note_call_def Let_def split: if_splits prod.splits)
qed

lemma quiesce_same: "same_hw env t (fst (quiesce n env t))"
proof (induction n arbitrary: t)
  case (Suc n)
  have "same_hw env t (t @ [Hook Load_Pcm_Active])" by simp
  moreover have "same_hw env (t @ [Hook Load_Pcm_Active]) (note_call (World Nap) (t @ [Hook Load_Pcm_Active]))" by simp
  ultimately have nap: "same_hw env t (note_call (World Nap) (t @ [Hook Load_Pcm_Active]))" by (rule same_hw_trans)
  from same_hw_trans [OF this Suc] show ?case by (simp add: Let_def)
qed simp

lemma cleanup_stock_ok:
  assumes "audio_ok env s t" and "cleanup_stock_audio_hook env s t = (s', t', ok)"
  shows "audio_ok env s' t' \<and> video_kept env t t' \<and> \<not> stock_hook_active s' \<and>
    (ok \<longrightarrow> \<not> ring_fd s' \<and> \<not> ring_mapped s')"
proof -
  let ?t1 = "note_call (Hook (Store_Pcm_Mode AUDIO_PCM_PASS_THROUGH)) t" and ?s1 = "s\<lparr>stock_hook_active := False\<rparr>"
  obtain t2 quiet where 2: "quiesce 100 env ?t1 = (t2, quiet)" by force
  have "same_hw env t t2"
    using quiesce_same [of env ?t1 100] same_hw_trans [of env t ?t1 t2] by (simp add: 2)
  from audio_ok_same [OF assms(1) this, of ?s1]
  have "audio_ok env ?s1 t2 \<and> video_kept env t t2" by (simp add: audio_flags_def)
  then have ok2: "audio_ok env ?s1 t2" and kept: "video_kept env t t2" by simp_all
  show ?thesis
  proof (cases quiet)
    case True
    let ?t3 = "note_call (Hook (Store_Pcm_Ring False)) t2"
    let ?t4 = "if ring_mapped s then note_call (Audio Unmap_Ring_File) ?t3 else ?t3"
    let ?t5 = "if ring_fd s then note_call (Audio Close_Ring_File) ?t4 else ?t4"
    let ?s5 = "?s1\<lparr>ring_mapped := False, ring_fd := False, stock_hook_mode := AUDIO_PCM_PASS_THROUGH\<rparr>"
    have ok5: "audio_ok env ?s5 ?t5 \<and> video_kept env t2 ?t5"
      using ok2 by (cases "ring_mapped s"; cases "ring_fd s") (simp_all add: note_call_def audio_defs)
    have "(?s5, ?t5 @ [World (Remove_Marker ''audio.active''),
        World (Write_Marker ''audio.source.restored'' ''microphone-pass-through'')], True) = (s', t', ok)"
      using assms(2) True by (simp add: cleanup_stock_audio_hook_def 2 Let_def)
    then have res: "s' = ?s5" "t' = ?t5 @ [World (Remove_Marker ''audio.active''),
        World (Write_Marker ''audio.source.restored'' ''microphone-pass-through'')]" by blast+
    have "audio_ok env s' t' \<and> video_kept env ?t5 t'"
      unfolding res by (rule audio_ok_same [OF conjunct1 [OF ok5]]) (rule same_hw_list, simp, simp add: audio_flags_def)
    with ok5 kept show ?thesis unfolding res(1) by (auto intro: video_kept_trans)
  next
    case False
    with assms(2) ok2 kept show ?thesis by (auto simp: cleanup_stock_audio_hook_def 2 Let_def)
  qed
qed

text \<open>The encoder of its own.\<close>

lemma take_bitstream_flags: "take_bitstream b m s = (s', v) \<Longrightarrow> audio_flags s' = audio_flags s"
  by (auto simp: take_bitstream_def audio_flags_def Let_def split: if_splits)

lemma encode_frame_ok:
  assumes "audio_ok env s t" and "aenc_started s" and "output_mapped s"
    and "encode_frame i env s t = (s', t', ok)"
  shows "audio_ok env s' t' \<and> video_kept env t t' \<and> audio_flags s' = audio_flags s"
proof -
  let ?t1 = "t @ [Audio (Aenc_Push i)]" and ?t2 = "(t @ [Audio (Aenc_Push i)]) @ [Audio Aenc_Pull]"
  obtain s2 v where take: "take_bitstream (bitstream_at env ?t2) (memory_at env ?t2) s = (s2, v)" by force
  note flags = take_bitstream_flags [OF take]
  have call: "audio_ok env x (u @ [c]) \<and> video_kept env u (u @ [c])"
    if "audio_ok env s u" "audio_flags x = audio_flags s" "c = Audio (Aenc_Push i) \<or> c = (Audio Aenc_Pull) \<or> c = (Audio Aenc_Release)"
    for x u c using assms(2,3) that by (elim disjE) (simp_all add: audio_defs)
  have one: "audio_ok env s ?t1 \<and> video_kept env t ?t1" by (rule call [OF assms(1)]) simp_all
  have two: "audio_ok env s ?t2 \<and> video_kept env ?t1 ?t2" by (rule call [OF conjunct1 [OF one]]) simp_all
  have three: "audio_ok env x (?t2 @ [Audio Aenc_Release]) \<and> video_kept env ?t2 (?t2 @ [Audio Aenc_Release])"
    if "audio_flags x = audio_flags s" for x by (rule call [OF conjunct1 [OF two] that]) simp
  have "encode_frame i env s t =
      (if \<not> succeeds env ?t1 then (s, ?t1, False)
       else if \<not> succeeds env ?t2 then (s, ?t2, False)
       else if \<not> succeeds env (?t2 @ [Audio Aenc_Release]) \<or> \<not> v then (s2, ?t2 @ [Audio Aenc_Release], False)
       else (s2\<lparr>encoded_frames := encoded_frames s2 + 1\<rparr>, ?t2 @ [Audio Aenc_Release], True))"
    unfolding encode_frame_def attempt_def Let_def prod.case take by simp
  note run = this [unfolded assms(4)]
  let ?s3 = "s2\<lparr>encoded_frames := encoded_frames s2 + 1\<rparr>"
  have flags3: "audio_flags s2 = audio_flags s \<and> audio_flags ?s3 = audio_flags s"
    using flags by (simp add: audio_flags_def)
  have kept: "video_kept env t ?t2 \<and> video_kept env t (?t2 @ [Audio Aenc_Release])"
    using one two three [OF refl] by (blast intro: video_kept_trans)
  show ?thesis
  proof (cases "succeeds env ?t1 \<and> succeeds env ?t2")
    case True
    let ?bad = "\<not> succeeds env (?t2 @ [Audio Aenc_Release]) \<or> \<not> v"
    have "s' = (if ?bad then s2 else ?s3) \<and> t' = ?t2 @ [Audio Aenc_Release]"
      using run True by (cases ?bad) (simp_all only: if_True if_False simp_thms prod.inject)
    with flags3 three [of s'] kept show ?thesis by (metis (full_types))
  next
    case False
    then have "s' = s \<and> (t' = ?t1 \<or> t' = ?t2)" using run by (metis prod.inject)
    with one two kept show ?thesis by (elim conjE disjE) (simp_all only: simp_thms)
  qed
qed

lemma encode_loop_ok:
  assumes "audio_ok env s t" and "aenc_started s" and "output_mapped s"
    and "encode_loop n env s t = (s', t', ok)"
  shows "audio_ok env s' t' \<and> video_kept env t t' \<and> audio_flags s' = audio_flags s"
  using assms
proof (induction n arbitrary: s t)
  case (Suc n)
  obtain s1 t1 ok1 where 1: "encode_frame (AUDIO_TONE_FRAMES - Suc n) env s t = (s1, t1, ok1)" by (metis prod_cases3)
  note one = encode_frame_ok [OF Suc.prems(1-3) 1]
  let ?t2 = "if n > 0 then note_call (World Nap) t1 else t1"
  have nap: "audio_ok env s1 ?t2 \<and> video_kept env t1 ?t2"
    using one by (intro audio_ok_same [of env s1 t1]) simp_all
  show ?case
  proof (cases ok1)
    case True
    with Suc.prems(4) have rest: "encode_loop n env s1 ?t2 = (s', t', ok)" by (simp add: 1)
    have "aenc_started s1" "output_mapped s1" using one Suc.prems(2,3) by (simp_all add: audio_flags_def)
    from Suc.IH [OF conjunct1 [OF nap] this rest] one nap show ?thesis by (auto intro: video_kept_trans)
  qed (use Suc.prems(4) one in \<open>simp add: 1\<close>)
qed simp

lemma run_tone_ok:
  assumes "audio_ok env s t" and "aenc_started s" and "output_mapped s" and "run_tone env s t = (s', t', ok)"
  shows "audio_ok env s' t' \<and> video_kept env t t'"
proof -
  let ?t1 = "t @ [World (Write_Marker ''audio.active'' ''native-aac-tone'')]"
  let ?s1 = "s\<lparr>rolling_hash := 2166136261\<rparr>"
  obtain s2 t2 ok2 where 2: "encode_loop AUDIO_TONE_FRAMES env ?s1 ?t1 = (s2, t2, ok2)" by (metis prod_cases3)
  let ?t3 = "t2 @ [World (Write_Marker ''audio.encoded'' (encoded_text s2))]"
  have h1: "audio_ok env x ?t1 \<and> video_kept env t ?t1" if "audio_flags x = audio_flags s" for x
    using that by (intro audio_ok_same [OF assms(1)]) simp_all
  have h2: "audio_ok env s2 t2 \<and> video_kept env ?t1 t2"
    using encode_loop_ok [OF _ _ _ 2] h1 [of ?s1] assms(2,3) by (simp add: audio_flags_def)
  have h3: "audio_ok env s2 ?t3 \<and> video_kept env t2 ?t3"
    using h2 by (intro audio_ok_same [of env s2 t2]) simp_all
  have "run_tone env s t = (if \<not> succeeds env ?t1 then (s, ?t1, False)
      else if \<not> ok2 \<or> length (encoded_text s2) \<ge> 192 then (s2, t2, False) else (s2, ?t3, succeeds env ?t3))"
    unfolding run_tone_def encode_tone_frames_def attempt_def Let_def prod.case 2 by simp
  note run = this [unfolded assms(4)]
  then consider "s' = s" "t' = ?t1" | "s' = s2" "t' = t2" | "s' = s2" "t' = ?t3" by (auto split: if_splits)
  then show ?thesis using h1 [of s] h2 h3 by cases (auto intro: video_kept_trans)
qed

lemma map_output_ok:
  assumes "audio_ok env s t" and "aenc_started s" and "\<not> output_mapped s" and "map_output env s t = (s', t', ok)"
  shows "audio_ok env s' t' \<and> video_kept env t t' \<and> (ok \<longrightarrow> output_mapped s') \<and> aenc_started s'"
  using assms by (auto simp: map_output_def audio_defs split: if_splits)

lemma setup_ok:
  assumes "audio_ok env s t" and "aenc_open s" and "\<not> aenc_started s"
    and "attempt_all env [Audio Aenc_Set_Path, Audio Aenc_Set_In, Audio Aenc_Set_Out, Audio Aenc_Start] t = (t', ok)"
  shows "audio_ok env (s\<lparr>aenc_started := ok\<rparr>) t' \<and> video_kept env t t'"
  using assms by (auto simp: audio_defs split: if_splits)

lemma native_tone_ok:
  assumes "audio_ok env s t" and "start_audio_tone abi env s t = (s', t', ok)"
  shows "audio_ok env s' t' \<and> video_kept env t t'"
proof (cases "\<not> abi \<or> audio_has_resources s")
  case True
  with assms show ?thesis by (simp add: start_audio_tone_def)
next
  case False
  then have none: "\<not> pcm_allocated s" "\<not> aenc_open s" "\<not> aenc_started s" "\<not> output_mapped s"
    by (simp_all add: audio_has_resources_def)
  let ?t1 = "t @ [Hook Load_Manager]"
  let ?s1 = "s\<lparr>pcm_size := E1_AUDIO_PCM_BYTES_PER_FRAME\<rparr>"
  let ?t2 = "?t1 @ [Audio (Alloc_Pcm (pcm_size ?s1))]"
  let ?s2 = "?s1\<lparr>pcm_pa := address_at env ?t2\<rparr>"
  let ?s3 = "?s2\<lparr>pcm_allocated := True\<rparr>" and ?t3 = "?t2 @ [Audio Aenc_Open]"
  let ?s4 = "?s3\<lparr>aenc_open := True\<rparr>"
  obtain t4 ok4 where 4: "attempt_all env [Audio Aenc_Set_Path, Audio Aenc_Set_In, Audio Aenc_Set_Out, Audio Aenc_Start] ?t3 = (t4, ok4)"
    by force
  obtain s5 t5 ok5 where 5: "map_output env (?s4\<lparr>aenc_started := True\<rparr>) t4 = (s5, t5, ok5)" by (metis prod_cases3)
  obtain s6 t6 ok6 where 6: "run_tone env s5 t5 = (s6, t6, ok6)" by (metis prod_cases3)
  have h1: "audio_ok env s ?t1 \<and> video_kept env t ?t1"
    by (rule audio_ok_same [OF assms(1)]) simp_all
  have h2: "audio_ok env (if succeeds env ?t2 \<and> pcm_pa ?s2 \<noteq> 0 then ?s3 else ?s2) ?t2 \<and> video_kept env t ?t2"
    using assms(1) none by (auto simp: audio_defs)
  have h3: "audio_ok env (if succeeds env ?t3 then ?s4 else ?s3) ?t3 \<and> video_kept env t ?t3"
    if "succeeds env ?t2 \<and> pcm_pa ?s2 \<noteq> 0"
    using assms(1) none that by (auto simp: audio_defs)
  have h4: "audio_ok env (?s4\<lparr>aenc_started := ok4\<rparr>) t4 \<and> video_kept env t t4"
    if "succeeds env ?t2 \<and> pcm_pa ?s2 \<noteq> 0" "succeeds env ?t3"
    using setup_ok [OF _ _ _ 4, of ?s4] h3 [OF that(1)] that none by (auto intro: video_kept_trans)
  have idle: "?s4\<lparr>aenc_started := False\<rparr> = ?s4" using none by simp
  have h4n: "audio_ok env ?s4 t4 \<and> video_kept env t t4"
    if "succeeds env ?t2 \<and> pcm_pa ?s2 \<noteq> 0" "succeeds env ?t3" "\<not> ok4"
  proof -
    from that(3) have "ok4 = False" by simp
    from h4 [OF that(1,2), unfolded this idle] show ?thesis .
  qed
  have h5: "audio_ok env s5 t5 \<and> video_kept env t t5 \<and> (ok5 \<longrightarrow> output_mapped s5) \<and> aenc_started s5"
    if "succeeds env ?t2 \<and> pcm_pa ?s2 \<noteq> 0" "succeeds env ?t3" ok4
    using map_output_ok [OF _ _ _ 5] h4 [OF that(1,2)] that(3) none by (auto intro: video_kept_trans)
  have h6: "audio_ok env s6 t6 \<and> video_kept env t t6"
    if "succeeds env ?t2 \<and> pcm_pa ?s2 \<noteq> 0" "succeeds env ?t3" ok4 ok5
    using run_tone_ok [OF _ _ _ 6] h5 [OF that(1,2,3)] that(4) by (auto intro: video_kept_trans)
  have "start_audio_tone abi env s t =
      (if \<not> succeeds env ?t1 then (s, ?t1, False)
       else if \<not> (succeeds env ?t2 \<and> pcm_pa ?s2 \<noteq> 0) then (?s2, ?t2, False)
       else if \<not> succeeds env ?t3 then (?s3, ?t3, False)
       else if \<not> ok4 then (?s4, t4, False)
       else if \<not> ok5 then (s5, t5, False) else (s6, t6, ok6))"
    unfolding start_audio_tone_def if_not_P [OF False] attempt_def Let_def prod.case 4 5 6
    by (simp only: de_Morgan_conj not_not)
  note run = this [unfolded assms(2)]
  show ?thesis
    using run h1 h2 h3 h4n h5 h6 by (simp split: if_splits)
qed

text \<open>A call that is repeated until it succeeds.\<close>

lemma retry_call_ok:
  assumes "\<And>u. audio_of env u = h \<Longrightarrow> audio_of env (u @ [c]) = (if succeeds env (u @ [c]) then h' else h)"
    and "\<And>u. video_kept env u (u @ [c])" and "audio_of env t = h" and "retry_call n env c t = (t', ok)"
  shows "audio_of env t' = (if ok then h' else h) \<and> video_kept env t t'"
  using assms(3,4)
proof (induction n arbitrary: t)
  case (Suc n)
  let ?t1 = "t @ [c]"
  have one: "audio_of env ?t1 = (if succeeds env ?t1 then h' else h)" by (rule assms(1) [OF Suc.prems(1)])
  show ?case
  proof (cases "succeeds env ?t1")
    case True
    with Suc.prems(2) one assms(2) [of t] show ?thesis by (simp add: attempt_def)
  next
    case False
    with Suc.prems(2) have rest: "retry_call n env c (note_call (World Nap) ?t1) = (t', ok)"
      by (simp add: attempt_def)
    have nap: "same_hw env ?t1 (note_call (World Nap) ?t1)" by simp
    with one False have "audio_of env (note_call (World Nap) ?t1) = h"
      unfolding same_hw_def by simp
    from Suc.IH [OF this rest] nap assms(2) [of t] show ?thesis
      by (simp add: same_hw_def video_kept_def)
  qed
qed simp

lemma stop_retry_ok:
  assumes "audio_ok env s t" and "aenc_started s" and "retry_audio_path_call env (Audio Aenc_Stop) t = (t', ok)"
  shows "audio_ok env (if ok then s\<lparr>aenc_started := False\<rparr> else s) t' \<and> video_kept env t t'"
  using retry_call_ok [of env "audio_view s" "Audio Aenc_Stop" "audio_view (s\<lparr>aenc_started := False\<rparr>)" t 3 t' ok] assms
  by (auto simp: retry_audio_path_call_def audio_ok_def audio_view_def audio_hw_simps video_kept_def)

lemma close_retry_ok:
  assumes "audio_ok env s t" and "\<not> aenc_started s" and "\<not> output_mapped s" and "aenc_open s"
    and "retry_audio_path_call env (Audio Aenc_Close) t = (t', ok)"
  shows "audio_ok env (if ok then s\<lparr>aenc_open := False\<rparr> else s) t' \<and> video_kept env t t'"
  using retry_call_ok [of env "audio_view s" "Audio Aenc_Close" "audio_view (s\<lparr>aenc_open := False\<rparr>)" t 3 t' ok] assms
  by (auto simp: retry_audio_path_call_def audio_ok_def audio_view_def audio_hw_simps video_kept_def)

lemma unmap_output_ok:
  assumes "audio_ok env s t" and "\<not> aenc_started s" and "output_mapped s"
    and "attempt env (Audio Unmap_Output) t = (t', ok)"
  shows "audio_ok env (if ok then s\<lparr>output_mapped := False, output_pa := 0, output_size := 0\<rparr> else s) t' \<and>
    video_kept env t t'"
proof -
  have t': "t' = t @ [Audio Unmap_Output]" "ok = succeeds env (t @ [Audio Unmap_Output])" using assms(4) by (auto simp: attempt_def)
  show ?thesis using assms(1-3) unfolding t' by (auto simp: audio_ok_def audio_view_def audio_hw_simps video_kept_def)
qed

lemma free_pcm_ok:
  assumes "audio_ok env s t" and "\<not> aenc_open s" and "\<not> aenc_started s" and "pcm_allocated s"
    and "attempt env (Audio Free_Pcm) t = (t', ok)"
  shows "audio_ok env (if ok then s\<lparr>pcm_allocated := False, pcm_pa := 0, pcm_size := 0\<rparr> else s) t' \<and>
    video_kept env t t'"
proof -
  have t': "t' = t @ [Audio Free_Pcm]" "ok = succeeds env (t @ [Audio Free_Pcm])" using assms(5) by (auto simp: attempt_def)
  show ?thesis using assms(1-4) unfolding t' by (auto simp: audio_ok_def audio_view_def audio_hw_simps video_kept_def)
qed

lemma release_step_ok:
  assumes "audio_ok env s t" and "release_step needed f upd (s, t, r) = (s', t', r')"
    and "\<And>u ok. needed \<Longrightarrow> f t = (u, ok) \<Longrightarrow> audio_ok env (if ok then upd s else s) u \<and> video_kept env t u"
    and "\<And>x. stock_hook_used (upd x) = stock_hook_used x \<and> stock_hook_active (upd x) = stock_hook_active x"
  shows "audio_ok env s' t' \<and> video_kept env t t' \<and> (r' \<longrightarrow> r \<and> (if needed then s' = upd s else s' = s)) \<and>
    stock_hook_active s' = stock_hook_active s"
  using assms by (auto simp: release_step_def split: prod.splits if_splits)

text \<open>\<open>cleanup_audio\<close> keeps to the protocol, and when it reports success nothing is held any more.\<close>

lemma cleanup_audio_ok:
  assumes "audio_ok env s t" and "cleanup_audio env s t = (s', t', ok)"
  shows "audio_ok env s' t' \<and> video_kept env t t' \<and> (ok \<longrightarrow> \<not> audio_has_resources s')"
proof -
  obtain s1 t1 r1 where 1: "(if stock_hook_active s \<or> stock_hook_used s then cleanup_stock_audio_hook env s t
      else (s, t, True)) = (s1, t1, r1)" by (metis prod_cases3)
  obtain s2 t2 r2 where 2: "release_step (aenc_started s1) (retry_audio_path_call env (Audio Aenc_Stop))
      (\<lambda>s. s\<lparr>aenc_started := False\<rparr>) (s1, t1, r1) = (s2, t2, r2)" by (metis prod_cases3)
  obtain s3 t3 r3 where 3: "release_step (\<not> aenc_started s2 \<and> output_mapped s2) (attempt env (Audio Unmap_Output))
      (\<lambda>s. s\<lparr>output_mapped := False, output_pa := 0, output_size := 0\<rparr>) (s2, t2, r2) = (s3, t3, r3)"
    by (metis prod_cases3)
  obtain s4 t4 r4 where 4: "release_step (\<not> aenc_started s3 \<and> \<not> output_mapped s3 \<and> aenc_open s3)
      (retry_audio_path_call env (Audio Aenc_Close)) (\<lambda>s. s\<lparr>aenc_open := False\<rparr>) (s3, t3, r3) = (s4, t4, r4)"
    by (metis prod_cases3)
  obtain s5 t5 r5 where 5: "release_step (\<not> aenc_open s4 \<and> \<not> aenc_started s4 \<and> pcm_allocated s4)
      (attempt env (Audio Free_Pcm)) (\<lambda>s. s\<lparr>pcm_allocated := False, pcm_pa := 0, pcm_size := 0\<rparr>) (s4, t4, r4)
      = (s5, t5, r5)" by (metis prod_cases3)
  have h1: "audio_ok env s1 t1 \<and> video_kept env t t1"
    using 1 assms(1) cleanup_stock_ok [OF assms(1)] by (auto split: if_splits)
  have h2: "audio_ok env s2 t2 \<and> video_kept env t1 t2"
    using release_step_ok [OF _ 2] h1 stop_retry_ok [of env s1 t1] by simp
  have h3: "audio_ok env s3 t3 \<and> video_kept env t2 t3"
    using release_step_ok [OF _ 3] h2 unmap_output_ok [of env s2 t2] by simp
  have h4: "audio_ok env s4 t4 \<and> video_kept env t3 t4"
    using release_step_ok [OF _ 4] h3 close_retry_ok [of env s3 t3] by simp
  have h5: "audio_ok env s5 t5 \<and> video_kept env t4 t5"
    using release_step_ok [OF _ 5] h4 free_pcm_ok [of env s4 t4] by simp
  have kept: "video_kept env t t5" using h1 h2 h3 h4 h5 by (blast intro: video_kept_trans)
  let ?active = "Remove_Marker ''audio.active''"
  let ?t6 = "note_call (World ?active) t5"
  let ?t7 = "if stock_hook_used s5 then ?t6 @ [World (Test_Marker ''audio.patch.used'')] else ?t6"
  let ?used = "stock_hook_used s5 \<and> succeeds env ?t7"
  have "cleanup_audio env s t =
      (if r5 \<and> \<not> audio_has_resources s5
       then (s5, if \<not> ?used then note_call (World (Write_Marker ''audio.restored'' ''complete'')) ?t7 else ?t7, True)
       else (s5, note_call (World (Write_Marker ''injected.error'' ''audio-cleanup-failed'')) t5, False))"
    unfolding cleanup_audio_def 1 Let_def prod.case 2 3 4 5 attempt_def by simp
  note run = this [unfolded assms(2)]
  have "same_hw env t5 ?t7" by (simp add: note_call_def same_hw_list)
  then have "s' = s5 \<and> same_hw env t5 t' \<and> (ok \<longrightarrow> \<not> audio_has_resources s5)"
    using run same_hw_trans [of env t5 ?t7 "note_call (World (Write_Marker ''audio.restored'' ''complete'')) ?t7"]
    by (simp split: if_splits)
  with audio_ok_same [of env s5 t5 t' s5] h5 kept show ?thesis by (auto intro: video_kept_trans)
qed

end
