(* ===== verification/Presentation.thy ===== *)
theory Presentation
  imports Media_Shape Audio_Path
begin

text \<open>
  The pictures the worker of \<open>src/camera/e1-doom-injected.c\<close> shows: the melt from the camera's picture
  into the game, the game's frames, the melt back to the transparent overlay, and the checkerboard.
  Every operation keeps to the vendor's protocol and to the sizes of its buffers.
\<close>

section \<open>Operations\<close>

text \<open>The variables of \<open>worker\<close>, and the mode of the PTZ hook, which only the worker writes.
  \<open>w_sent\<close> is what it has sent to the game, \<open>w_crashed\<close> that it has read through a null pointer.\<close>

record worker_state =
  w_media :: media_state
  w_audio :: audio_state
  w_control :: e1_runtime_control
  w_hook :: ptz_hook_mode
  heartbeat_mtime :: int
  heartbeat_seen :: u64
  last_animation :: u64
  last_video_stats :: u64
  frame_interval_ms :: u64
  ptz_read_ticket :: u32
  ptz_sender :: bool
  w_sent :: "e1_ptz_event list"
  w_quit :: bool
  w_crashed :: bool

definition set_ptz_hook_mode :: "ptz_hook_mode \<Rightarrow> string \<Rightarrow> worker_state \<Rightarrow> trace \<Rightarrow> worker_state \<times> trace" where
  "set_ptz_hook_mode m name w t =
     (w\<lparr>w_hook := m\<rparr>, t @ [World (Store_Ptz_Mode m), World (Write_Marker ''ptz.hook.mode'' name)])"

definition melt_ticks :: "media_state \<Rightarrow> u64 \<Rightarrow> media_state \<times> u32" where
  "melt_ticks s now =
     (let (l, r, ticks) = e1_melt_clock_ticks (melt_last_ms s) (melt_tick_remainder s) now
      in (s\<lparr>melt_last_ms := l, melt_tick_remainder := r\<rparr>, ticks))"

text \<open>The hook passes through again and the mode is published.\<close>

definition arm_camera :: "worker_state \<Rightarrow> trace \<Rightarrow> worker_state \<times> trace" where
  "arm_camera w t =
     (let (w, t) = set_ptz_hook_mode PTZ_HOOK_CAMERA ''camera'' w t
      in (w, note_call (World (Write_Marker ''runtime.mode'' ''camera-armed'')) t))"

text \<open>The game's frames, and the overlay that shows them.\<close>

definition start_doom_media :: "injected_env \<Rightarrow> media_state \<Rightarrow> nat \<Rightarrow> trace \<Rightarrow> media_state \<times> trace \<times> bool" where
  "start_doom_media env s enc t =
     (let (s, t, opened) = open_frame_source env s t
      in if opened
         then start_media env s enc (word_of_nat E1_OSG_WIDTH) (word_of_nat E1_OSG_HEIGHT) True False t
         else (s, t, False))"

definition begin_entry_melt :: "injected_env \<Rightarrow> worker_state \<Rightarrow> trace \<Rightarrow> worker_state \<times> trace \<times> bool" where
  "begin_entry_melt env w t =
     (let (t, now) = read_clock env t; (s, t) = reset_video_stats env (w_media w) now t;
          (w, t) = set_ptz_hook_mode PTZ_HOOK_DOOM ''doom'' w t;
          t = note_call (World (Write_Marker ''runtime.mode'' ''entry-melt'')) t;
          (s, t, started) = start_doom_media env (s\<lparr>entry_melt := True\<rparr>) 2 t
      in if \<not> started
         then (let (s, t, _) = cleanup_media env s t;
                   (w, t) = arm_camera (w\<lparr>w_media := s,
                              w_control := (w_control w)\<lparr>mode := E1_RUNTIME_CAMERA_ARMED\<rparr>\<rparr>) t
               in (w, t, False))
         else (let (t, now) = read_clock env t
               in (w\<lparr>w_media := s\<lparr>melt := e1_melt_init (ucast now XOR 0x4531444d), melt_last_ms := now,
                    melt_tick_remainder := 0\<rparr>\<rparr>, t, True)))"

text \<open>\<open>e1_melt_compose_entry\<close> reads the camera's picture in every column that is not all the way down.
  The worker does not check that there is one: a read through a null pointer ends the process.\<close>

definition reads_camera :: "media_state \<Rightarrow> bool" where
  "reads_camera s \<longleftrightarrow> unat (img_height s) \<noteq> 0 \<and>
     list_ex (\<lambda>x. e1_melt_scaled_row (row (melt s) ! (x * E1_MELT_COLUMNS div unat (img_width s)))
                (unat (img_height s)) < unat (img_height s)) [0..<unat (img_width s)]"

definition compose_entry :: "media_state \<Rightarrow> media_state option" where
  "compose_entry s =
     (case (pixels s, doom_pixels s) of
        (Some p, Some d) \<Rightarrow>
          (if camera_pixels s = None \<and> reads_camera s then None
           else Some (s\<lparr>pixels := Some (e1_melt_compose_entry p d
                  (case camera_pixels s of None \<Rightarrow> [] | Some c \<Rightarrow> c)
                  (unat (img_width s)) (unat (img_height s)) (melt s))\<rparr>))
      | _ \<Rightarrow> None)"

text \<open>The end of the entry melt. The third result is the code's: below zero is an error.\<close>

definition finish_entry_melt :: "injected_env \<Rightarrow> worker_state \<Rightarrow> u64 \<Rightarrow> trace \<Rightarrow> worker_state \<times> trace \<times> int" where
  "finish_entry_melt env w now t =
     (let t = free_pixels (camera_pixels (w_media w)) t;
          s = (w_media w)\<lparr>entry_melt := False, camera_pixels := None\<rparr>;
          (control, completed) = e1_runtime_entry_complete (w_control w);
          w = w\<lparr>w_media := s, w_control := control\<rparr>;
          (t, ok) = (if completed = 0 then attempt env (World (Write_Marker ''runtime.mode'' ''doom'')) t
                     else (t, False))
      in if \<not> ok then (w, t, -1)
         else (let (s, t) = reset_video_stats env s now t in (w\<lparr>w_media := s\<rparr>, t, 0)))"

definition update_entry_melt :: "injected_env \<Rightarrow> worker_state \<Rightarrow> u64 \<Rightarrow> trace \<Rightarrow> worker_state \<times> trace \<times> int" where
  "update_entry_melt env w now t =
     (let (s, d, t, status) = load_frame env (w_media w) (doom_pixels (w_media w)) t;
          (s, ticks) = melt_ticks (s\<lparr>doom_pixels := d\<rparr>) now
      in if status < 0 then (w\<lparr>w_media := s\<rparr>, t, -1)
         else if ticks = 0 then (w\<lparr>w_media := s\<rparr>, t, 0)
         else
           (let (m, finished) = e1_melt_advance (melt s) ticks; s = s\<lparr>melt := m\<rparr>
            in case compose_entry s of
                 None \<Rightarrow> (w\<lparr>w_media := s, w_crashed := True\<rparr>, t, 0)
               | Some s \<Rightarrow> (let (s, t, ok) = publish_image env s t; w = w\<lparr>w_media := s\<rparr>
                    in if \<not> ok then (w, t, -1)
                       else if finished then finish_entry_melt env w now t else (w, t, 0))))"

definition begin_exit_melt :: "injected_env \<Rightarrow> media_state \<Rightarrow> trace \<Rightarrow> media_state \<times> trace \<times> bool" where
  "begin_exit_melt env s t =
     (case (pixels s, doom_pixels s) of
        (Some p, Some d) \<Rightarrow>
          (if \<not> path_started s \<or> \<not> doom_frames s then (s, t, False)
           else
             (let n = unat (img_width s) * unat (img_height s); (t, now) = read_clock env t
              in (s\<lparr>doom_pixels := Some (take n p @ drop n d), melt := e1_melt_init (ucast now XOR 0x5849544d),
                    melt_last_ms := now, melt_tick_remainder := 0\<rparr>,
                  note_call (World (Write_Marker ''runtime.mode'' ''exit-melt'')) t, True)))
      | _ \<Rightarrow> (s, t, False))"

definition finish_exit_melt :: "injected_env \<Rightarrow> worker_state \<Rightarrow> trace \<Rightarrow> worker_state \<times> trace \<times> int" where
  "finish_exit_melt env w t =
     (let (s, t, cleaned) = cleanup_media env (w_media w) t;
          (control, completed) = (if cleaned then e1_runtime_exit_complete (w_control w)
                                  else (w_control w, -1));
          w = w\<lparr>w_media := s, w_control := control\<rparr>
      in if completed \<noteq> 0 then (w, t, -1)
         else
           (let (w, t) = set_ptz_hook_mode PTZ_HOOK_CAMERA ''camera'' w t;
                (t, ready) = attempt env (World (Test_Marker ''game.ready'')) t;
                (t, ok) = attempt env (World (Write_Marker ''runtime.mode''
                            (if ready then ''stopping'' else ''camera-armed''))) t
            in (w, t, if ok then 0 else -1)))"

definition compose_exit :: "media_state \<Rightarrow> media_state option" where
  "compose_exit s =
     (case (pixels s, doom_pixels s) of
        (Some p, Some d) \<Rightarrow>
          Some (s\<lparr>pixels := Some (e1_melt_compose_exit p d (unat (img_width s)) (unat (img_height s)) (melt s))\<rparr>)
      | _ \<Rightarrow> None)"

definition update_exit_melt :: "injected_env \<Rightarrow> worker_state \<Rightarrow> u64 \<Rightarrow> trace \<Rightarrow> worker_state \<times> trace \<times> int" where
  "update_exit_melt env w now t =
     (let (s, ticks) = melt_ticks (w_media w) now
      in if ticks = 0 then (w\<lparr>w_media := s\<rparr>, t, 0)
         else
           (let (m, finished) = e1_melt_advance (melt s) ticks; s = s\<lparr>melt := m\<rparr>
            in case compose_exit s of
                 None \<Rightarrow> (w\<lparr>w_media := s, w_crashed := True\<rparr>, t, 0)
               | Some s \<Rightarrow> (let (s, t, ok) = publish_image env s t; w = w\<lparr>w_media := s\<rparr>
                    in if \<not> ok then (w, t, -1)
                       else if finished then finish_exit_melt env w t else (w, t, 0))))"

text \<open>A frame of the game in the mode \<open>E1_RUNTIME_DOOM\<close>: the third result is the code's status, 1 for a
  frame that was not stable.\<close>

definition present_frame :: "injected_env \<Rightarrow> media_state \<Rightarrow> trace \<Rightarrow> media_state \<times> trace \<times> int" where
  "present_frame env s t =
     (let (s, p, t, status) = load_frame env s (pixels s) t; s = s\<lparr>pixels := p\<rparr>
      in if status = 0
         then (let (s, t, ok) = publish_image env s t in (s, t, if ok then 0 else -1))
         else (s, t, status))"

definition stats_text :: "media_state \<Rightarrow> u64 \<Rightarrow> string" where
  "stats_text s elapsed =
     ''elapsed_ms='' @ print_ld (unat elapsed) @ '' source='' @ print_u (video_source_frames (src s)) @
     '' published='' @ print_u (video_published_frames s) @
     '' source_drops='' @ print_u (video_source_drops (src s)) @
     '' publish_errors='' @ print_u (video_publish_errors s) @
     '' retries='' @ print_u (video_retries (src s)) @
     '' last_sequence='' @ print_u (last_frame_sequence (src s))"

definition write_video_stats :: "injected_env \<Rightarrow> media_state \<Rightarrow> trace \<Rightarrow> trace \<times> bool" where
  "write_video_stats env s t =
     (let (t, now) = read_clock env t;
          elapsed = (if video_stats_started_ms s = 0 then 0 else now - video_stats_started_ms s)
      in if length (stats_text s elapsed) \<ge> 224 then (t, False)
         else attempt env (World (Write_Marker ''video.stats'' (stats_text s elapsed))) t)"

section \<open>The protocol and the buffers\<close>

text \<open>What holds of the video side between any two steps of the worker.\<close>

definition media_good :: "injected_env \<Rightarrow> media_state \<Rightarrow> trace \<Rightarrow> bool" where
  "media_good env s t \<longleftrightarrow> media_ok env s t \<and> buffers_ok s \<and> frames_ok s"

text \<open>A step of the video side: it ends in such a state, and the audio side has made no call.\<close>

definition media_step :: "injected_env \<Rightarrow> trace \<Rightarrow> media_state \<Rightarrow> trace \<Rightarrow> bool" where
  "media_step env t s' t' \<longleftrightarrow> media_good env s' t' \<and> audio_kept env t t'"

lemma media_step_trans: "media_step env t s' t' \<Longrightarrow> media_step env t' s'' t'' \<Longrightarrow> media_step env t s'' t''"
  by (auto simp: media_step_def intro: audio_kept_trans)

lemma media_step_note:
  "media_step env t s' t' \<Longrightarrow> same_hw env t' t'' \<Longrightarrow> media_step env t s' t''"
  unfolding media_step_def media_good_def
  using media_ok_note [of env s' t' t'' s'] by (auto intro: audio_kept_trans)

lemma media_step_refl: "media_good env s t \<Longrightarrow> media_step env t s t"
  by (simp add: media_step_def audio_kept_def)

lemma clock_same: "read_clock env t = (t', now) \<Longrightarrow> same_hw env t t'"
  by (auto simp: read_clock_def)

lemma hook_mode_step:
  "fst (set_ptz_hook_mode m name w t) = w\<lparr>w_hook := m\<rparr>"
  "same_hw env t (snd (set_ptz_hook_mode m name w t))"
  by (simp add: set_ptz_hook_mode_def) (simp add: set_ptz_hook_mode_def same_hw_list)

lemma arm_camera_step:
  "fst (arm_camera w t) = w\<lparr>w_hook := PTZ_HOOK_CAMERA\<rparr>" "same_hw env t (snd (arm_camera w t))"
  by (simp add: arm_camera_def set_ptz_hook_mode_def)
    (simp add: arm_camera_def set_ptz_hook_mode_def note_call_def same_hw_list)

lemma cleanup_media_step:
  assumes "media_ok env s t" and "buffers_ok s" and "cleanup_media env s t = (s', t', ok)"
  shows "media_step env t s' t' \<and> \<not> doom_frames s' \<and>
    (ok \<longrightarrow> \<not> allocated s' \<and> \<not> path_open s' \<and> \<not> path_started s')"
  using cleanup_media_ok [OF assms(1,3)] cleanup_media_buffers [OF assms(3,2)]
  by (simp add: media_step_def media_good_def)

text \<open>A start: the command's failure is always followed by \<open>cleanup_media\<close>.\<close>

lemma start_media_step:
  assumes "media_ok env s t" and "buffers_ok s"
    and "path_started s \<or> (doom_frames s \<longrightarrow> source_open (src s) \<and> w = 640 \<and> h = 360)"
    and "doom_frames s \<longrightarrow> \<not> only"
    and "start_media env s e w h tr only t = (s', t', ok)"
  shows "media_ok env s' t' \<and> buffers_ok s' \<and> audio_kept env t t' \<and> (ok \<longrightarrow> frames_ok s')"
proof -
  note 1 = start_media_ok [OF assms(1,5)] and 2 = start_media_buffers [OF assms(5,2,3)]
  have idle: "ok \<Longrightarrow> \<not> path_started s" using assms(5) by (auto simp: start_media_def split: if_splits)
  show ?thesis using 1 2 idle assms(3,4) by (auto simp: frames_ok_def)
qed

lemma media_ok_upd:
  "media_ok env s t \<Longrightarrow> same_hw env t t' \<Longrightarrow> media_flags s' = media_flags s \<Longrightarrow> media_ok env s' t' \<and> audio_kept env t t'"
  by (rule media_ok_note)

lemma good_start: "media_good env s t \<Longrightarrow> path_started s \<or> \<not> doom_frames s"
  by (auto simp: media_good_def frames_ok_def)

lemma reset_stats_step:
  assumes "media_good env s t" and "reset_video_stats env s now t = (s', t')"
  shows "media_step env t s' t'"
proof -
  have "buffers_ok s' \<and> frames_ok s'"
    using assms by (auto simp: media_good_def reset_video_stats_def buffers_ok_def frames_ok_def full_size_def Let_def)
  then show ?thesis
    using media_ok_upd [of env s t t' s'] reset_stats_same [OF assms(2)] assms(1)
    by (simp add: media_step_def media_good_def)
qed

text \<open>The fields the protocol and the buffers do not speak about.\<close>

lemma good_upd [simp]:
  "media_good env (s\<lparr>entry_melt := b\<rparr>) t = media_good env s t"
  "media_good env (s\<lparr>melt := m\<rparr>) t = media_good env s t"
  "media_good env (s\<lparr>melt_last_ms := l\<rparr>) t = media_good env s t"
  "media_good env (s\<lparr>melt_tick_remainder := r\<rparr>) t = media_good env s t"
  "media_good env (s\<lparr>phase := p\<rparr>) t = media_good env s t"
  by (simp_all add: media_good_def media_ok_def buffers_ok_def frames_ok_def full_size_def)

lemma step_upd [simp]:
  "media_step env t (s\<lparr>entry_melt := b\<rparr>) t' = media_step env t s t'"
  "media_step env t (s\<lparr>melt := m\<rparr>) t' = media_step env t s t'"
  "media_step env t (s\<lparr>melt_last_ms := l\<rparr>) t' = media_step env t s t'"
  "media_step env t (s\<lparr>melt_tick_remainder := r\<rparr>) t' = media_step env t s t'"
  "media_step env t (s\<lparr>phase := p\<rparr>) t' = media_step env t s t'"
  by (simp_all add: media_step_def)

lemma step_good: "media_step env t s t' \<Longrightarrow> media_good env s t'"
  by (simp add: media_step_def)

lemma good_started:
  "media_good env s t \<Longrightarrow> doom_frames s \<Longrightarrow> path_started s \<and> path_open s \<and> full_size s \<and>
   picture osg_pixels (pixels s) \<and> picture osg_pixels (doom_pixels s)"
  by (auto simp: media_good_def media_ok_def frames_ok_def buffers_ok_def full_size_def osg_pixels_def)

lemma start_doom_step:
  assumes "media_good env s t" and "start_doom_media env s e t = (s', t', ok)"
  shows "media_ok env s' t' \<and> buffers_ok s' \<and> audio_kept env t t' \<and> (ok \<longrightarrow> frames_ok s')"
proof -
  obtain s1 t1 opened where 1: "open_frame_source env s t = (s1, t1, opened)" by (metis prod_cases3)
  note o = open_source_same [OF 1] open_source_buffers [OF 1]
  have h1: "media_ok env s1 t1 \<and> audio_kept env t t1 \<and> buffers_ok s1"
    using media_ok_note [of env s t t1 s1] o assms(1) same_picture_ok [of s s1] by (auto simp: media_good_def)
  show ?thesis
  proof (cases opened)
    case True
    have run: "start_media env s1 e 640 360 True False t1 = (s', t', ok)"
      using assms(2) True by (simp add: start_doom_media_def 1 E1_OSG_WIDTH_def E1_OSG_HEIGHT_def)
    have "path_started s1 \<or> (doom_frames s1 \<longrightarrow> source_open (src s1) \<and> (640 :: u32) = 640 \<and> (360 :: u32) = 360)"
      using o True by simp
    from start_media_step [OF _ _ this _ run] h1 show ?thesis by (auto intro: audio_kept_trans)
  next
    case False
    with assms(2) h1 show ?thesis by (simp add: start_doom_media_def 1)
  qed
qed

lemma publish_step:
  assumes "media_good env s t" and "path_open s" and "publish_image env s t = (s', t', ok)"
  shows "media_step env t s' t'"
  using publish_ok [OF _ assms(2,3)] publish_ok_kept [OF assms(3)] assms(1)
  by (simp add: media_step_def media_good_def)

text \<open>A frame read into one of the two pictures.\<close>

lemma load_step:
  assumes "media_good env s t" and "doom_frames s"
    and "load_frame env s out t = (s1, p, t', status)" and "picture osg_pixels out"
  shows "media_step env t (s1\<lparr>doom_pixels := p\<rparr>) t' \<and> media_step env t (s1\<lparr>pixels := p\<rparr>) t' \<and>
    doom_frames s1 \<and> path_open s1"
proof -
  obtain f where f: "s1 = s\<lparr>src := f\<rparr>" "x_map f = x_map (src s)" "y_map f = y_map (src s)"
      "source_open f = source_open (src s)" and p: "picture osg_pixels p"
    using load_frame_buffers [OF assms(3), of osg_pixels] assms(4) by auto
  note same = load_frame_same [OF assms(3)]
  note g = good_started [OF assms(1,2)]
  have n: "unat (img_width s) * unat (img_height s) = osg_pixels"
    using g by (simp add: full_size_def osg_pixels_def)
  have "media_ok env (s1\<lparr>doom_pixels := p\<rparr>) t' \<and> audio_kept env t t'"
    "media_ok env (s1\<lparr>pixels := p\<rparr>) t' \<and> audio_kept env t t'"
    using media_ok_note [of env s t t'] same assms(1) by (simp_all add: media_good_def media_flags_def)
  moreover have "buffers_ok (s1\<lparr>doom_pixels := p\<rparr>) \<and> frames_ok (s1\<lparr>doom_pixels := p\<rparr>)"
    "buffers_ok (s1\<lparr>pixels := p\<rparr>) \<and> frames_ok (s1\<lparr>pixels := p\<rparr>)"
    using f p g n assms(1) by (auto simp: media_good_def buffers_ok_def frames_ok_def full_size_def)
  ultimately show ?thesis using f g assms(2) by (simp add: media_step_def media_good_def)
qed

text \<open>The melts' pictures keep their size.\<close>

lemma compose_entry_good:
  assumes "media_good env s t" and "compose_entry s = Some s'"
  shows "media_good env s' t \<and> doom_frames s' = doom_frames s \<and> path_open s' = path_open s"
proof -
  obtain p q where "s' = s\<lparr>pixels := Some q\<rparr>" "pixels s = Some p" "length q = length p"
    using assms(2) by (auto simp: compose_entry_def split: option.splits if_splits)
  then show ?thesis using assms(1)
    by (auto simp: media_good_def media_ok_def buffers_ok_def frames_ok_def full_size_def picture_def)
qed

lemma compose_exit_good:
  assumes "media_good env s t" and "compose_exit s = Some s'"
  shows "media_good env s' t \<and> doom_frames s' = doom_frames s \<and> path_open s' = path_open s"
proof -
  obtain p q where "s' = s\<lparr>pixels := Some q\<rparr>" "pixels s = Some p" "length q = length p"
    using assms(2) by (auto simp: compose_exit_def split: option.splits)
  then show ?thesis using assms(1)
    by (auto simp: media_good_def media_ok_def buffers_ok_def frames_ok_def full_size_def picture_def)
qed

lemma begin_exit_step:
  assumes "media_good env s t" and "begin_exit_melt env s t = (s', t', ok)"
  shows "media_step env t s' t'"
proof (cases "ok")
  case True
  then obtain p d where pd: "pixels s = Some p" "doom_pixels s = Some d" and d: "doom_frames s"
    using assms(2) by (auto simp: begin_exit_melt_def split: option.splits if_splits)
  note g = good_started [OF assms(1) d]
  let ?n = "unat (img_width s) * unat (img_height s)"
  have len: "length (take ?n p @ drop ?n d) = osg_pixels"
    using g pd by (simp add: picture_def full_size_def osg_pixels_def)
  have good: "media_good env (s\<lparr>doom_pixels := Some (take ?n p @ drop ?n d)\<rparr>) t"
    using assms(1) len
    by (auto simp: media_good_def media_ok_def buffers_ok_def frames_ok_def full_size_def picture_def)
  let ?s = "s\<lparr>doom_pixels := Some (take ?n p @ drop ?n d)\<rparr>"
  let ?calls = "[World Read_Clock, World (Write_Marker ''runtime.mode'' ''exit-melt'')]"
  obtain seed now where result: "s' = ?s\<lparr>melt := seed, melt_last_ms := now, melt_tick_remainder := 0\<rparr>"
      "t' = t @ ?calls"
    using assms(2) pd d g by (auto simp: begin_exit_melt_def read_clock_def note_call_def Let_def)
  have "same_hw env t (t @ ?calls)" by (rule same_hw_list) simp
  from media_step_note [OF media_step_refl [OF good] this] show ?thesis by (simp add: result)
next
  case False
  then have "s' = s \<and> t' = t"
    using assms(2) by (auto simp: begin_exit_melt_def read_clock_def Let_def split: option.splits if_splits)
  with assms(1) show ?thesis by (simp add: media_step_refl)
qed

lemma present_step:
  assumes "media_good env s t" and "doom_frames s" and "present_frame env s t = (s', t', r)"
  shows "media_step env t s' t'"
proof -
  obtain s1 p t1 status where 1: "load_frame env s (pixels s) t = (s1, p, t1, status)" by (metis prod_cases4)
  note h1 = load_step [OF assms(1,2) 1] good_started [OF assms(1,2)]
  obtain s2 t2 ok where 2: "publish_image env (s1\<lparr>pixels := p\<rparr>) t1 = (s2, t2, ok)" by (metis prod_cases3)
  have "media_step env t1 s2 t2" using h1 by (intro publish_step [OF _ _ 2]) (auto dest: step_good)
  moreover have "(if status = 0 then (s2, t2, if ok then 0 else -1) else (s1\<lparr>pixels := p\<rparr>, t1, status)) = (s', t', r)"
    using assms(3) unfolding present_frame_def 1 Let_def prod.case 2 .
  ultimately show ?thesis using h1 by (auto split: if_splits intro: media_step_trans)
qed

section \<open>The melts, with the controller\<close>

text \<open>What holds of the worker between any two steps: both sides keep to the protocol, the buffers have
  their sizes, and when the controller is in the camera mode the hook does not keep the camera's
  moves for the game.\<close>

definition worker_good :: "injected_env \<Rightarrow> worker_state \<Rightarrow> trace \<Rightarrow> bool" where
  "worker_good env w t \<longleftrightarrow> media_good env (w_media w) t \<and> audio_ok env (w_audio w) t"

definition armed_ok :: "worker_state \<Rightarrow> bool" where
  "armed_ok w \<longleftrightarrow> (mode (w_control w) = E1_RUNTIME_CAMERA_ARMED \<longrightarrow> w_hook w \<noteq> PTZ_HOOK_DOOM)"

lemma worker_media:
  assumes "worker_good env w t" and "media_step env t (w_media w') t'" and "w_audio w' = w_audio w"
  shows "worker_good env w' t'"
  using assms by (simp add: worker_good_def media_step_def audio_ok_def audio_kept_def)

lemma worker_same:
  assumes "worker_good env w t" and "same_hw env t t'" and "w_media w' = w_media w" and "w_audio w' = w_audio w"
  shows "worker_good env w' t'"
  using worker_media [OF assms(1), of w' t'] media_step_note [OF media_step_refl assms(2)] assms
  by (simp add: worker_good_def)

lemma begin_entry_good:
  assumes "worker_good env w t" and "begin_entry_melt env w t = (w', t', ok)"
  shows "worker_good env w' t' \<and>
    (if ok then w_control w' = w_control w \<and> w_hook w' = PTZ_HOOK_DOOM
     else mode (w_control w') = E1_RUNTIME_CAMERA_ARMED \<and> w_hook w' = PTZ_HOOK_CAMERA)"
proof -
  have good: "media_good env (w_media w) t" using assms(1) by (simp add: worker_good_def)
  obtain t1 now where 1: "read_clock env t = (t1, now)" by force
  obtain s2 t2 where 2: "reset_video_stats env (w_media w) now t1 = (s2, t2)" by force
  obtain w3 t3 where 3: "set_ptz_hook_mode PTZ_HOOK_DOOM ''doom'' w t2 = (w3, t3)" by force
  let ?t4 = "note_call (World (Write_Marker ''runtime.mode'' ''entry-melt'')) t3"
  obtain s5 t5 started where 5: "start_doom_media env (s2\<lparr>entry_melt := True\<rparr>) 2 ?t4 = (s5, t5, started)"
    by (metis prod_cases3)
  obtain s6 t6 r where 6: "cleanup_media env s5 t5 = (s6, t6, r)" by (metis prod_cases3)
  let ?w6 = "w3\<lparr>w_media := s6, w_control := (w_control w3)\<lparr>mode := E1_RUNTIME_CAMERA_ARMED\<rparr>\<rparr>"
  obtain w7 t7 where 7: "arm_camera ?w6 t6 = (w7, t7)" by force
  obtain t8 now8 where 8: "read_clock env t5 = (t8, now8)" by force
  have w3: "w3 = w\<lparr>w_hook := PTZ_HOOK_DOOM\<rparr>" "same_hw env t2 t3"
    using hook_mode_step(1) [of PTZ_HOOK_DOOM "''doom''" w t2] hook_mode_step(2) [of env t2 PTZ_HOOK_DOOM "''doom''" w] by (simp_all add: 3)
  have w7: "w7 = ?w6\<lparr>w_hook := PTZ_HOOK_CAMERA\<rparr>" "same_hw env t6 t7"
    using arm_camera_step(1) [of ?w6 t6] arm_camera_step(2) [of env t6 ?w6] by (simp_all add: 7)
  have h1: "media_step env t (w_media w) t1"
    by (rule media_step_note [OF media_step_refl [OF good] clock_same [OF 1]])
  have h2: "media_step env t s2 t2"
    by (rule media_step_trans [OF h1 reset_stats_step [OF step_good [OF h1] 2]])
  have "same_hw env t2 ?t4" using w3(2) by (rule same_hw_trans) simp
  from media_step_note [OF h2 this] have h4: "media_step env t (s2\<lparr>entry_melt := True\<rparr>) ?t4" by simp
  note d = start_doom_step [OF step_good [OF h4] 5]
  have kept: "audio_kept env t t5" using h4 d by (auto simp: media_step_def intro: audio_kept_trans)
  have h6: "media_step env t s6 t6"
    using cleanup_media_step [OF _ _ 6] d kept by (auto simp: media_step_def intro: audio_kept_trans)
  have h7: "media_step env t s6 t7" by (rule media_step_note [OF h6 w7(2)])
  have h5: "media_step env t s5 t5" if started using d kept that by (simp add: media_step_def media_good_def)
  have h8: "media_step env t s5 t8" if started
    by (rule media_step_note [OF h5 [OF that] clock_same [OF 8]])
  show ?thesis
    using assms(2) w7(1) w3(1) h7 h8 worker_media [OF assms(1), of w' t']
    unfolding begin_entry_melt_def 1 2 3 Let_def prod.case 5 6 7 8
    by (auto split: if_splits)
qed

lemma melt_ticks_step:
  "melt_ticks s now = (s', n) \<Longrightarrow>
   (media_step env t s' t' \<longleftrightarrow> media_step env t s t') \<and> media_good env s' t = media_good env s t \<and>
   doom_frames s' = doom_frames s \<and> path_open s' = path_open s \<and> doom_pixels s' = doom_pixels s \<and>
   pixels s' = pixels s \<and> camera_pixels s' = camera_pixels s \<and> melt s' = melt s"
  by (auto simp: melt_ticks_def split: prod.splits)

lemma finish_entry_good:
  assumes "worker_good env w t" and "finish_entry_melt env w now t = (w', t', r)"
    and "mode (w_control w) = E1_RUNTIME_ENTRY_MELT"
  shows "worker_good env w' t' \<and> mode (w_control w') = E1_RUNTIME_DOOM \<and> w_crashed w' = w_crashed w"
proof -
  let ?s = "(w_media w)\<lparr>entry_melt := False, camera_pixels := None\<rparr>"
  let ?t = "free_pixels (camera_pixels (w_media w)) t"
  let ?t1 = "?t @ [World (Write_Marker ''runtime.mode'' ''doom'')]"
  obtain s2 t2 where 2: "reset_video_stats env ?s now ?t1 = (s2, t2)" by force
  have good: "media_good env ?s t"
    using assms(1) by (auto simp: worker_good_def media_good_def media_ok_def buffers_ok_def frames_ok_def full_size_def)
  have "same_hw env ?t ?t1" by simp
  with free_pixels_same have "same_hw env t ?t1" by (rule same_hw_trans)
  from media_step_note [OF media_step_refl [OF good] this] have h1: "media_step env t ?s ?t1" .
  have h2: "media_step env t s2 t2"
    by (rule media_step_trans [OF h1 reset_stats_step [OF step_good [OF h1] 2]])
  show ?thesis
    using assms(2,3) h1 h2 worker_media [OF assms(1), of w' t']
    unfolding finish_entry_melt_def Let_def attempt_def
    by (auto simp: e1_runtime_entry_complete_def 2 split: if_splits)
qed

lemma update_entry_good:
  assumes "worker_good env w t" and "doom_frames (w_media w)" and "mode (w_control w) = E1_RUNTIME_ENTRY_MELT"
    and "update_entry_melt env w now t = (w', t', r)"
  shows "worker_good env w' t' \<and> w_hook w' = w_hook w \<and>
    mode (w_control w') \<in> {E1_RUNTIME_ENTRY_MELT, E1_RUNTIME_DOOM} \<and>
    (w_crashed w' \<longrightarrow> w_crashed w \<or> camera_pixels (w_media w) = None)"
proof -
  have good: "media_good env (w_media w) t" using assms(1) by (simp add: worker_good_def)
  obtain s1 d t1 status where 1: "load_frame env (w_media w) (doom_pixels (w_media w)) t = (s1, d, t1, status)"
    by (metis prod_cases4)
  obtain s2 ticks where 2: "melt_ticks (s1\<lparr>doom_pixels := d\<rparr>) now = (s2, ticks)" by force
  obtain m finished where 3: "e1_melt_advance (melt s2) ticks = (m, finished)" by force
  note g = good_started [OF good assms(2)]
  note h1 = load_step [OF good assms(2) 1] and s2 = melt_ticks_step [OF 2, of env]
  have h2: "media_step env t s2 t1 \<and> doom_frames s2 \<and> path_open s2" using h1 g s2 by simp
  have h3: "media_step env t (s2\<lparr>melt := m\<rparr>) t1" using h2 by simp
  have d: "picture osg_pixels d"
    using load_frame_buffers [OF 1, of osg_pixels] g by simp
  have camera: "camera_pixels s2 = camera_pixels (w_media w)" "doom_pixels s2 = d" "pixels s2 = pixels (w_media w)"
    using load_frame_buffers [OF 1, of osg_pixels] s2 by auto
  show ?thesis
  proof (cases "status < 0 \<or> ticks = 0")
    case True
    then show ?thesis
      using assms(3,4) h2 worker_media [OF assms(1), of w' t'] unfolding update_entry_melt_def 1 Let_def prod.case 2
      by (auto split: if_splits)
  next
    case run: False
    show ?thesis
    proof (cases "compose_entry (s2\<lparr>melt := m\<rparr>)")
      case None
      then have "camera_pixels (w_media w) = None"
        using camera g d by (auto simp: compose_entry_def picture_def split: if_splits)
      with None run show ?thesis
        using assms(3,4) h3 worker_media [OF assms(1), of w' t'] unfolding update_entry_melt_def 1 Let_def prod.case 2
        by (auto simp: 3 split: if_splits)
    next
      case (Some s4)
      note c = compose_entry_good [OF step_good [OF h3] Some]
      obtain s5 t5 ok where 5: "publish_image env s4 t1 = (s5, t5, ok)" by (metis prod_cases3)
      have "media_step env t s4 t1" using c h3 by (simp add: media_step_def)
      moreover have "media_step env t1 s5 t5" using c h2 by (intro publish_step [OF _ _ 5]) auto
      ultimately have h5: "media_step env t s5 t5" by (rule media_step_trans)
      let ?w = "w\<lparr>w_media := s5\<rparr>"
      have w5: "worker_good env ?w t5" using h5 by (intro worker_media [OF assms(1)]) simp_all
      obtain w6 t6 r6 where 6: "finish_entry_melt env ?w now t5 = (w6, t6, r6)" by (metis prod_cases3)
      have hook: "w_hook w6 = w_hook w"
        using 6 by (auto simp: finish_entry_melt_def attempt_def Let_def split: if_splits prod.splits)
      have "(if \<not> ok then (?w, t5, -1) else if finished then (w6, t6, r6) else (?w, t5, 0)) = (w', t', r)"
        using assms(4) run unfolding update_entry_melt_def 1 Let_def prod.case 2 3 Some option.case 5 6 by auto
      then show ?thesis
        using finish_entry_good [OF w5 6] assms(3) w5 hook by (auto split: if_splits)
    qed
  qed
qed

lemma finish_exit_good:
  assumes "worker_good env w t" and "finish_exit_melt env w t = (w', t', r)"
    and "mode (w_control w) = E1_RUNTIME_EXIT_MELT"
  shows "worker_good env w' t' \<and> armed_ok w' \<and> w_crashed w' = w_crashed w \<and>
    mode (w_control w') \<in> {E1_RUNTIME_EXIT_MELT, E1_RUNTIME_CAMERA_ARMED}"
proof -
  obtain s1 t1 cleaned where 1: "cleanup_media env (w_media w) t = (s1, t1, cleaned)" by (metis prod_cases3)
  have h1: "media_step env t s1 t1"
    using cleanup_media_step [OF _ _ 1] assms(1) by (simp add: worker_good_def media_good_def)
  have h2: "media_step env t s1 (t1 @ [World (Store_Ptz_Mode PTZ_HOOK_CAMERA),
      World (Write_Marker ''ptz.hook.mode'' ''camera''), World (Test_Marker ''game.ready''),
      World (Write_Marker ''runtime.mode'' x)])" for x
    by (rule media_step_note [OF h1]) (rule same_hw_list, simp)
  show ?thesis
    using assms(2,3) h1 h2 worker_media [OF assms(1), of w' t']
    unfolding finish_exit_melt_def 1 Let_def prod.case
    by (cases cleaned) (auto simp: e1_runtime_exit_complete_def attempt_def set_ptz_hook_mode_def
        armed_ok_def e1_runtime_reset_secret_def e1_runtime_reset_stop_only_def Let_def)
qed

lemma update_exit_good:
  assumes "worker_good env w t" and "doom_frames (w_media w)" and "mode (w_control w) = E1_RUNTIME_EXIT_MELT"
    and "update_exit_melt env w now t = (w', t', r)"
  shows "worker_good env w' t' \<and> armed_ok w' \<and> w_crashed w' = w_crashed w \<and>
    mode (w_control w') \<in> {E1_RUNTIME_EXIT_MELT, E1_RUNTIME_CAMERA_ARMED}"
proof -
  have good: "media_good env (w_media w) t" using assms(1) by (simp add: worker_good_def)
  obtain s2 ticks where 2: "melt_ticks (w_media w) now = (s2, ticks)" by force
  obtain m finished where 3: "e1_melt_advance (melt s2) ticks = (m, finished)" by force
  note g = good_started [OF good assms(2)] and s2 = melt_ticks_step [OF 2, of env]
  have h3: "media_good env (s2\<lparr>melt := m\<rparr>) t" using s2 good by simp
  obtain s4 where Some: "compose_exit (s2\<lparr>melt := m\<rparr>) = Some s4"
    using s2 g by (auto simp: compose_exit_def picture_def)
  note c = compose_exit_good [OF h3 Some]
  obtain s5 t5 ok where 5: "publish_image env s4 t = (s5, t5, ok)" by (metis prod_cases3)
  have h5: "media_step env t s5 t5" using c s2 g by (intro publish_step [OF _ _ 5]) auto
  let ?w = "w\<lparr>w_media := s5\<rparr>"
  have w5: "worker_good env ?w t5" using h5 by (intro worker_media [OF assms(1)]) simp_all
  have w2: "worker_good env (w\<lparr>w_media := s2\<rparr>) t"
    using s2 good by (intro worker_media [OF assms(1)]) (simp_all add: media_step_refl)
  obtain w6 t6 r6 where 6: "finish_exit_melt env ?w t5 = (w6, t6, r6)" by (metis prod_cases3)
  have "(if ticks = 0 then (w\<lparr>w_media := s2\<rparr>, t, 0) else
      if \<not> ok then (?w, t5, -1) else if finished then (w6, t6, r6) else (?w, t5, 0)) = (w', t', r)"
    using assms(4) unfolding update_exit_melt_def 2 Let_def prod.case 3 Some option.case 5 6 .
  then show ?thesis
    using finish_exit_good [OF w5 6] assms(3) w5 w2 by (auto simp: armed_ok_def split: if_splits)
qed

end
