(* ===== verification/Worker.thy ===== *)
theory Worker
  imports Presentation
begin

text \<open>
  The thread \<open>worker\<close> of \<open>src/camera/e1-doom-injected.c\<close>: the command file, the heartbeat, the
  controller's actions and the pictures, one function for each part of the loop's body. The loop is
  given a number of rounds; what is proved holds for every number.
\<close>

section \<open>Commands\<close>

definition HEARTBEAT_TIMEOUT_MS :: u64 where [e1_consts]: "HEARTBEAT_TIMEOUT_MS = 4000"
definition ENOENT :: int where [e1_consts]: "ENOENT = 2"
definition BUILD_ID :: string where "BUILD_ID = ''e1-doom-injected-v28''"

definition read_stream_frame_rate :: "injected_env \<Rightarrow> u32" where
  "read_stream_frame_rate env =
     (case configured_rate env of
        None \<Rightarrow> E1_STREAM_DEFAULT_FRAME_RATE
      | Some contents \<Rightarrow>
          (case strtoul 10 contents of
             Some (n, rest, err) \<Rightarrow>
               (if 1 \<le> n \<and> n \<le> 30 then word_of_nat n else E1_STREAM_DEFAULT_FRAME_RATE)
           | None \<Rightarrow> E1_STREAM_DEFAULT_FRAME_RATE))"

datatype worker_command =
    Cmd_Stop
  | Cmd_Quit
  | Cmd_Ptz_Camera
  | Cmd_Ptz_Doom
  | Cmd_Ptz_Off
  | Cmd_Alloc u32 u32
  | Cmd_Transparent u32 u32 u32
  | Cmd_Checkerboard u32 u32 u32
  | Cmd_Doom u32
  | Cmd_Audio_Tone
  | Cmd_Stock_Tone
  | Cmd_Stock_Doom
  | Cmd_Audio_Stop
  | Cmd_Bad

text \<open>\<open>sscanf\<close> of a word and \<open>k\<close> conversions \<open>%u\<close>, when all of them succeed.\<close>

fun scan_u :: "nat \<Rightarrow> string \<Rightarrow> u32 list option" where
  "scan_u 0 s = Some []"
| "scan_u (Suc k) s =
     (case strtoul 10 s of
        None \<Rightarrow> None
      | Some (n, rest, err) \<Rightarrow> map_option (Cons (word_of_nat n)) (scan_u k rest))"

definition scan_command :: "string \<Rightarrow> nat \<Rightarrow> string \<Rightarrow> u32 list option" where
  "scan_command name k s = (if take (length name) s = name then scan_u k (drop (length name) s) else None)"

definition parse_injected_command :: "string \<Rightarrow> worker_command" where
  "parse_injected_command s =
     (if s = ''stop'' then Cmd_Stop
      else if s = ''quit'' then Cmd_Quit
      else if s = ''ptz-camera'' then Cmd_Ptz_Camera
      else if s = ''ptz-doom'' then Cmd_Ptz_Doom
      else if s = ''ptz-off'' then Cmd_Ptz_Off
      else case scan_command ''alloc'' 2 s of Some [width, height] \<Rightarrow> Cmd_Alloc width height
      | _ \<Rightarrow> (case scan_command ''transparent'' 3 s of Some [e, width, height] \<Rightarrow> Cmd_Transparent e width height
      | _ \<Rightarrow> (case scan_command ''checkerboard'' 3 s of Some [e, width, height] \<Rightarrow> Cmd_Checkerboard e width height
      | _ \<Rightarrow> (case scan_command ''doom'' 1 s of Some [e] \<Rightarrow> Cmd_Doom e
      | _ \<Rightarrow>
        (if s = ''audio-tone'' then Cmd_Audio_Tone
         else if s = ''audio-stock-tone'' then Cmd_Stock_Tone
         else if s = ''audio-stock-doom'' then Cmd_Stock_Doom
         else if s = ''audio-stop'' then Cmd_Audio_Stop
         else Cmd_Bad)))))"

datatype command_read = Read_None | Read_Failed | Read_Command string

definition read_command :: "injected_env \<Rightarrow> trace \<Rightarrow> trace \<times> command_read" where
  "read_command env t =
     (let (t, opened) = attempt env (World Open_Command) t
      in if \<not> opened then (t, if errno_at env t = ENOENT then Read_None else Read_Failed)
         else
           (let t = note_call (World Take_Command) t
            in (t, case command_at env t of
                     None \<Rightarrow> Read_Failed
                   | Some bytes \<Rightarrow>
                       (let got = take 127 bytes
                        in if got = [] then Read_Failed
                           else Read_Command (takeWhile (\<lambda>c. c \<noteq> CHR 0x0d \<and> c \<noteq> CHR 0x0a)
                                  (c_string got))))))"

text \<open>\<open>cleanup_audio\<close> and \<open>cleanup_media\<close>, and whether both succeeded.\<close>

definition cleanup_both :: "injected_env \<Rightarrow> worker_state \<Rightarrow> trace \<Rightarrow> worker_state \<times> trace \<times> bool" where
  "cleanup_both env w t =
     (let (a, t, quiet) = cleanup_audio env (w_audio w) t;
          (s, t, clean) = cleanup_media env (w_media w) t
      in (w\<lparr>w_audio := a, w_media := s\<rparr>, t, quiet \<and> clean))"

text \<open>What follows a start: an error is noted and cleaned up.\<close>

definition after_media_start ::
    "injected_env \<Rightarrow> string \<Rightarrow> worker_state \<Rightarrow> media_state \<times> trace \<times> bool \<Rightarrow> worker_state \<times> trace" where
  "after_media_start env err w r =
     (case r of (s, t, ok) \<Rightarrow>
        if ok then (w\<lparr>w_media := s\<rparr>, t)
        else (let (s, t, _) = cleanup_media env s (note_call (World (Write_Marker ''injected.error'' err)) t)
              in (w\<lparr>w_media := s\<rparr>, t)))"

definition after_audio_start ::
    "injected_env \<Rightarrow> string \<Rightarrow> worker_state \<Rightarrow> audio_state \<times> trace \<times> bool \<Rightarrow> worker_state \<times> trace" where
  "after_audio_start env err w r =
     (case r of (a, t, ok) \<Rightarrow>
        if ok then (w\<lparr>w_audio := a\<rparr>, t)
        else (let (a, t, _) = cleanup_audio env a (note_call (World (Write_Marker ''injected.error'' err)) t)
              in (w\<lparr>w_audio := a\<rparr>, t)))"

fun execute_command ::
    "injected_env \<Rightarrow> u64 \<Rightarrow> worker_command \<Rightarrow> worker_state \<Rightarrow> trace \<Rightarrow> worker_state \<times> trace" where
  "execute_command env now Cmd_Stop w t = (let (w, t, _) = cleanup_both env w t in (w, t))"
| "execute_command env now Cmd_Quit w t =
     (let (w, t, ok) = cleanup_both env w t in (if ok then w\<lparr>w_quit := True\<rparr> else w, t))"
| "execute_command env now Cmd_Ptz_Camera w t =
     arm_camera (w\<lparr>w_control := rc_zero E1_RUNTIME_CAMERA_ARMED\<rparr>) t"
| "execute_command env now Cmd_Ptz_Doom w t =
     (let (w, t) = set_ptz_hook_mode PTZ_HOOK_DOOM ''doom'' (w\<lparr>w_control := rc_zero E1_RUNTIME_DOOM\<rparr>) t
      in (w, note_call (World (Write_Marker ''runtime.mode'' ''doom'')) t))"
| "execute_command env now Cmd_Ptz_Off w t = set_ptz_hook_mode PTZ_HOOK_OFF ''off'' w t"
| "execute_command env now (Cmd_Alloc width height) w t =
     after_media_start env ''alloc-failed'' (w\<lparr>heartbeat_seen := now\<rparr>)
       (start_media env (w_media w) 3 width height True True t)"
| "execute_command env now (Cmd_Transparent e width height) w t =
     after_media_start env ''osg-start-failed'' (w\<lparr>heartbeat_seen := now\<rparr>)
       (start_media env (w_media w) (unat e) width height True False t)"
| "execute_command env now (Cmd_Checkerboard e width height) w t =
     after_media_start env ''osg-start-failed'' (w\<lparr>heartbeat_seen := now\<rparr>)
       (start_media env (w_media w) (unat e) width height False False t)"
| "execute_command env now (Cmd_Doom e) w t =
     (let s = (w_media w)\<lparr>entry_melt := False\<rparr>
      in after_media_start env ''doom-start-failed'' (w\<lparr>heartbeat_seen := now\<rparr>)
           (if e > 3 then (s, t, False) else start_doom_media env s (unat e) t))"
| "execute_command env now Cmd_Audio_Tone w t =
     after_audio_start env ''audio-tone-start-failed'' (w\<lparr>heartbeat_seen := now\<rparr>)
       (start_audio_tone False env (w_audio w) (note_call (World (Remove_Marker ''audio.encoded'')) t))"
| "execute_command env now Cmd_Stock_Tone w t =
     after_audio_start env ''audio-stock-tone-start-failed'' (w\<lparr>heartbeat_seen := now\<rparr>)
       (start_stock_audio_tone env (w_audio w) t)"
| "execute_command env now Cmd_Stock_Doom w t =
     after_audio_start env ''audio-stock-doom-start-failed'' (w\<lparr>heartbeat_seen := now\<rparr>)
       (start_stock_audio_doom env (w_audio w) t)"
| "execute_command env now Cmd_Audio_Stop w t =
     (let (a, t, ok) = cleanup_audio env (w_audio w) t
      in (w\<lparr>w_audio := a\<rparr>,
          if ok then t else note_call (World (Write_Marker ''injected.error'' ''audio-stock-stop-failed'')) t))"
| "execute_command env now Cmd_Bad w t =
     (w, note_call (World (Write_Marker ''injected.error'' ''bad-command'')) t)"

definition handle_command :: "injected_env \<Rightarrow> u64 \<Rightarrow> worker_state \<Rightarrow> trace \<Rightarrow> worker_state \<times> trace" where
  "handle_command env now w t =
     (let (t, r) = read_command env t
      in case r of
           Read_None \<Rightarrow> (w, t)
         | Read_Failed \<Rightarrow> (w, note_call (World (Write_Marker ''injected.error'' ''command-read-failed'')) t)
         | Read_Command s \<Rightarrow>
             (let t = note_call (World (Remove_Marker ''media.restored'')) t;
                  t = (if s \<noteq> ''quit'' then note_call (World (Remove_Marker ''audio.restored'')) t else t);
                  t = note_call (World (Remove_Marker ''deadman.fired'')) t
              in execute_command env now (parse_injected_command s) w t))"

section \<open>The loop's body\<close>

definition check_heartbeat :: "injected_env \<Rightarrow> u64 \<Rightarrow> worker_state \<Rightarrow> trace \<Rightarrow> worker_state \<times> trace" where
  "check_heartbeat env now w t =
     (let (t, ok) = attempt env (World Stat_Heartbeat) t;
          w = (if ok \<and> mtime_at env t \<noteq> heartbeat_mtime w
               then w\<lparr>heartbeat_mtime := mtime_at env t, heartbeat_seen := now\<rparr> else w)
      in if (allocated (w_media w) \<or> audio_has_resources (w_audio w)) \<and>
            now - heartbeat_seen w \<ge> HEARTBEAT_TIMEOUT_MS
         then (let (w, t, _) = cleanup_both env w
                     (note_call (World (Write_Marker ''deadman.fired'' ''heartbeat-stale'')) t)
               in (w, t))
         else (w, t))"

text \<open>The dashboard's requests and the PTZ events; the result is the set of actions.\<close>

definition gather_actions :: "injected_env \<Rightarrow> worker_state \<Rightarrow> trace \<Rightarrow> worker_state \<times> trace \<times> u32" where
  "gather_actions env w t =
     (let (t, start) = attempt env (World (Take_Marker ''dashboard.start'')) t;
          (c, a1) = (if start then e1_runtime_request_enter (w_control w) else (w_control w, 0));
          (t, camera) = attempt env (World (Take_Marker ''dashboard.camera'')) t;
          (c, a2) = (if camera then e1_runtime_request_exit c else (c, 0));
          t = note_call (World Load_Ptz_Ring) t;
          d = drain_ptz_events (ptz_views_at env t) (ptz_sender w)
                \<lparr>ds_ticket = ptz_read_ticket w, ds_control = c, ds_actions = a1 OR a2, ds_sent = w_sent w\<rparr>
      in (w\<lparr>w_control := ds_control d, ptz_read_ticket := ds_ticket d, w_sent := ds_sent d\<rparr>,
          t, ds_actions d))"

text \<open>A start asked for before the game is ready is passed on to the shell that starts it.\<close>

definition defer_entry :: "injected_env \<Rightarrow> worker_state \<Rightarrow> u32 \<Rightarrow> trace \<Rightarrow> worker_state \<times> trace \<times> u32" where
  "defer_entry env w actions t =
     (if actions AND E1_RUNTIME_ACTION_ENTER = 0 then (w, t, actions)
      else
        (let (t, ready) = attempt env (World (Test_Marker ''game.ready'')) t
         in if ready then (w, t, actions)
            else
              (let (t, ok) = attempt env (World (Write_Marker ''runtime.start'' ''ptz'')) t
               in (w\<lparr>w_control := rc_zero E1_RUNTIME_CAMERA_ARMED\<rparr>,
                   if ok then t
                   else note_call (World (Write_Marker ''injected.error'' ''start-request-failed'')) t,
                   actions AND NOT E1_RUNTIME_ACTION_ENTER))))"

text \<open>Back to the camera after an error: the overlay goes, and the controller starts over.\<close>

definition fall_back :: "injected_env \<Rightarrow> string \<Rightarrow> worker_state \<Rightarrow> trace \<Rightarrow> worker_state \<times> trace" where
  "fall_back env err w t =
     (let (s, t, _) = cleanup_media env (w_media w) (note_call (World (Write_Marker ''injected.error'' err)) t)
      in arm_camera (w\<lparr>w_media := s, w_control := rc_zero E1_RUNTIME_CAMERA_ARMED\<rparr>) t)"

definition start_entry :: "injected_env \<Rightarrow> u32 \<Rightarrow> worker_state \<Rightarrow> trace \<Rightarrow> worker_state \<times> trace" where
  "start_entry env actions w t =
     (if actions AND E1_RUNTIME_ACTION_ENTER = 0 then (w, t)
      else (let (w, t, ok) = begin_entry_melt env w t
            in (w, if ok then t
                   else note_call (World (Write_Marker ''injected.error'' ''entry-melt-failed'')) t)))"

definition start_exit :: "injected_env \<Rightarrow> u32 \<Rightarrow> worker_state \<Rightarrow> trace \<Rightarrow> worker_state \<times> trace" where
  "start_exit env actions w t =
     (if actions AND E1_RUNTIME_ACTION_EXIT = 0 then (w, t)
      else (let (s, t, ok) = begin_exit_melt env (w_media w) t; w = w\<lparr>w_media := s\<rparr>
            in if ok then (w, t) else fall_back env ''exit-melt-failed'' w t))"

definition control_step :: "injected_env \<Rightarrow> worker_state \<Rightarrow> trace \<Rightarrow> worker_state \<times> trace" where
  "control_step env w t =
     (let (w, t, actions) = gather_actions env w t;
          (w, t, actions) = defer_entry env w actions t;
          (t, now) = read_clock env t;
          (c, ticked) = e1_runtime_tick (w_control w) now;
          actions = actions OR ticked;
          (w, t) = start_entry env actions (w\<lparr>w_control := c\<rparr>) t
      in start_exit env actions w t)"

text \<open>Both hooks report when they are patched out and no call is inside.\<close>

definition report_quiesced :: "injected_env \<Rightarrow> trace \<Rightarrow> trace" where
  "report_quiesced env t =
     (let (t, restored) = attempt env (World (Test_Marker ''ptz.patch.restored'')) t;
          t = (if restored then note_call (World Load_Ptz_Active) t else t);
          t = (if restored \<and> ptz_active_at env t = 0
               then note_call (World (Write_Marker ''ptz.hook.quiesced'' ''complete'')) t else t);
          (t, restored) = attempt env (World (Test_Marker ''audio.patch.restored'')) t;
          t = (if restored then note_call (Hook Load_Pcm_Active) t else t)
      in if restored \<and> pcm_active (hook_at env t) = 0
         then note_call (World (Write_Marker ''audio.hook.quiesced'' ''complete'')) t else t)"

definition show_checkerboard :: "injected_env \<Rightarrow> u64 \<Rightarrow> worker_state \<Rightarrow> trace \<Rightarrow> worker_state \<times> trace" where
  "show_checkerboard env now w t =
     (let s = w_media w
      in if path_started s \<and> checkerboard s \<and> now - last_animation w \<ge> frame_interval_ms w
         then (let (s, t, ok) = publish_image env (fill_pixels (s\<lparr>phase := phase s + 1\<rparr>) False) t;
                   (w, t) = after_media_start env ''image-update-failed'' w (s, t, ok)
               in (w\<lparr>last_animation := now\<rparr>, t))
         else (w, t))"

text \<open>The result is the frame's status, and whether a presentation was attempted.\<close>

definition update_picture :: "injected_env \<Rightarrow> u64 \<Rightarrow> worker_state \<Rightarrow> trace \<Rightarrow> worker_state \<times> trace \<times> int \<times> bool" where
  "update_picture env now w t =
     (case mode (w_control w) of
        E1_RUNTIME_ENTRY_MELT \<Rightarrow> (let (w, t, r) = update_entry_melt env w now t in (w, t, r, True))
      | E1_RUNTIME_EXIT_MELT \<Rightarrow> (let (w, t, r) = update_exit_melt env w now t in (w, t, r, True))
      | _ \<Rightarrow> (let (s, t, r) = present_frame env (w_media w) t in (w\<lparr>w_media := s\<rparr>, t, r, r \<noteq> 1)))"

definition show_doom :: "injected_env \<Rightarrow> u64 \<Rightarrow> worker_state \<Rightarrow> trace \<Rightarrow> worker_state \<times> trace" where
  "show_doom env now w t =
     (if path_started (w_media w) \<and> doom_frames (w_media w) \<and>
         (mode (w_control w) = E1_RUNTIME_DOOM \<or> now - last_animation w \<ge> frame_interval_ms w)
      then
        (let (w, t, status, attempted) = update_picture env now w t
         in if w_crashed w then (w, t)
            else
              (let (w, t) = (if status < 0 then fall_back env ''doom-update-failed'' w t else (w, t))
               in (if attempted then w\<lparr>last_animation := now\<rparr> else w, t)))
      else (w, t))"

definition keep_stats :: "injected_env \<Rightarrow> u64 \<Rightarrow> worker_state \<Rightarrow> trace \<Rightarrow> worker_state \<times> trace" where
  "keep_stats env now w t =
     (let (t, asked) = (if mode (w_control w) = E1_RUNTIME_DOOM
                        then attempt env (World (Test_Marker ''video.stats.reset'')) t else (t, False));
          (w, t) = (if asked
             then (let (s, t) = reset_video_stats env (w_media w) now
                         (note_call (World (Remove_Marker ''video.stats.reset'')) t)
                   in (w\<lparr>w_media := s, last_video_stats := 0\<rparr>, t))
             else (w, t))
      in if path_started (w_media w) \<and> doom_frames (w_media w) \<and>
            (last_video_stats w = 0 \<or> now - last_video_stats w \<ge> 5000)
         then (let (t, ok) = write_video_stats env (w_media w) t
               in (w\<lparr>last_video_stats := now\<rparr>,
                   if ok then t
                   else note_call (World (Write_Marker ''injected.error'' ''video-stats-failed'')) t))
         else (w, t))"

definition show_pictures :: "injected_env \<Rightarrow> worker_state \<Rightarrow> trace \<Rightarrow> worker_state \<times> trace" where
  "show_pictures env w t =
     (let (t, now) = read_clock env t;
          (a, t) = update_stock_audio env (w_audio w) t;
          t = report_quiesced env t;
          (w, t) = show_checkerboard env now (w\<lparr>w_audio := a\<rparr>) t;
          (w, t) = show_doom env now w t
      in if w_crashed w then (w, t)
         else (let (w, t) = keep_stats env now w t in (w, note_call (World Nap) t)))"

definition worker_round :: "injected_env \<Rightarrow> worker_state \<Rightarrow> trace \<Rightarrow> worker_state \<times> trace" where
  "worker_round env w t =
     (let (t, now) = read_clock env t;
          (w, t) = check_heartbeat env now w t;
          (w, t) = handle_command env now w t;
          (w, t) = control_step env w t
      in show_pictures env w t)"

fun worker_loop :: "nat \<Rightarrow> injected_env \<Rightarrow> worker_state \<Rightarrow> trace \<Rightarrow> worker_state \<times> trace" where
  "worker_loop 0 env w t = (w, t)"
| "worker_loop (Suc n) env w t =
     (if w_quit w \<or> w_crashed w then (w, t)
      else (let (w, t) = worker_round env w t in worker_loop n env w t))"

section \<open>The thread\<close>

definition first_markers :: "string list" where
  "first_markers = [''injected.error'', ''media.active'', ''media.restored'', ''video.stats'',
     ''video.stats.reset'', ''audio.active'', ''audio.encoded'', ''audio.restored'',
     ''audio.source.restored'', ''audio.hook.address'', ''audio.hook.quiesced'', ''audio.hook.ready'',
     ''thread.exited'', ''ptz.hook.address'', ''ptz.hook.quiesced'', ''ptz.hook.ready'',
     ''runtime.mode'', ''dashboard.start'', ''dashboard.camera'', ''runtime.start'']"

definition last_markers :: "string list" where
  "last_markers = [''ptz.hook.address'', ''ptz.hook.mode'', ''ptz.hook.ready'', ''audio.hook.ready'',
     ''runtime.mode'', ''dashboard.start'', ''dashboard.camera'', ''runtime.start'', ''injected.ready'']"

definition remove_all :: "string list \<Rightarrow> trace \<Rightarrow> trace" where
  "remove_all names t = t @ map (\<lambda>n. World (Remove_Marker n)) names"

text \<open>The markers that announce a hook; its address must be odd (Thumb).\<close>

definition announce_hook :: "injected_env \<Rightarrow> string \<Rightarrow> u32 \<Rightarrow> (string \<times> string) list \<Rightarrow> trace \<Rightarrow> trace \<times> bool" where
  "announce_hook env name address others t =
     (if address AND 1 = 0 then (t, False)
      else attempt_all env (map (\<lambda>(n, v). World (Write_Marker n v)) ((name, print_hex address) # others)) t)"

definition give_up :: "string option \<Rightarrow> trace \<Rightarrow> trace" where
  "give_up err t =
     (let t = (case err of None \<Rightarrow> t | Some e \<Rightarrow> note_call (World (Write_Marker ''injected.error'' e)) t)
      in note_call (World (Write_Marker ''thread.exited'' ''failed'')) t)"

definition worker_zero :: "u64 \<Rightarrow> u64 \<Rightarrow> u32 \<Rightarrow> worker_state" where
  "worker_zero seen animation rate =
     \<lparr>w_media = media_zero, w_audio = audio_zero, w_control = rc_zero E1_RUNTIME_CAMERA_ARMED,
      w_hook = PTZ_HOOK_CAMERA, heartbeat_mtime = 0, heartbeat_seen = seen, last_animation = animation,
      last_video_stats = 0, frame_interval_ms = (1000 + ucast rate - 1) div ucast rate,
      ptz_read_ticket = 0, ptz_sender = False, w_sent = [], w_quit = False, w_crashed = False\<rparr>"

text \<open>\<open>ptz\<close> and \<open>audio\<close> are the addresses of the two hooks' entries. The PTZ hook's mode is the camera's
  from the first.\<close>

definition worker_start :: "injected_env \<Rightarrow> u32 \<Rightarrow> u32 \<Rightarrow> trace \<Rightarrow> worker_state \<times> trace \<times> bool" where
  "worker_start env ptz audio t =
     (let (t, seen) = read_clock env t; (t, animation) = read_clock env t;
          t = note_call (World Read_Frame_Rate) t;
          w = worker_zero seen animation (read_stream_frame_rate env);
          t = remove_all first_markers t;
          (t, exact) = attempt env (World Resolve_Sites) t
      in if \<not> exact then (w, give_up (Some ''exact-code-mismatch'') t, False)
      else let (t, ok) = announce_hook env ''ptz.hook.address'' ptz
             [(''ptz.hook.ready'', ''camera-pass-through''), (''ptz.hook.mode'', ''camera''),
              (''runtime.mode'', ''camera-armed'')] t
      in if \<not> ok then (w, give_up (Some ''ptz-hook-init-failed'') t, False)
      else let (t, ok) = announce_hook env ''audio.hook.address'' audio
             [(''audio.hook.ready'', ''microphone-pass-through'')] t
      in if \<not> ok then (w, give_up (Some ''audio-hook-init-failed'') t, False)
      else let t = t @ [World (Store_Ptz_Mode PTZ_HOOK_CAMERA), Hook (Store_Pcm_Ring False),
                        Hook (Store_Pcm_Mode AUDIO_PCM_PASS_THROUGH)];
             (t, sender) = attempt env (World Open_Sender) t;
             (t, ok) = attempt env (World (Write_Marker ''injected.ready'' BUILD_ID)) t
      in if \<not> ok then (w, give_up None t, False) else (w\<lparr>ptz_sender := sender\<rparr>, t, True))"

definition worker_end :: "injected_env \<Rightarrow> worker_state \<Rightarrow> trace \<Rightarrow> worker_state \<times> trace" where
  "worker_end env w t =
     (let (w, t, _) = cleanup_both env w t;
          t = note_call (World (Store_Ptz_Mode PTZ_HOOK_OFF)) t;
          t = (if ptz_sender w then note_call (World Close_Sender) t else t);
          t = remove_all last_markers t
      in (w\<lparr>w_hook := PTZ_HOOK_OFF\<rparr>, note_call (World (Write_Marker ''thread.exited'' ''complete'')) t))"

definition worker :: "nat \<Rightarrow> injected_env \<Rightarrow> u32 \<Rightarrow> u32 \<Rightarrow> worker_state \<times> trace" where
  "worker n env ptz audio =
     (let (w, t, ready) = worker_start env ptz audio []
      in if \<not> ready then (w, t)
         else (let (w, t) = worker_loop n env w t in if w_quit w then worker_end env w t else (w, t)))"

section \<open>Every part keeps the invariant\<close>

text \<open>What most parts leave alone.\<close>

definition same_control :: "worker_state \<Rightarrow> worker_state \<Rightarrow> bool" where
  "same_control w w' \<longleftrightarrow> w_control w' = w_control w \<and> w_hook w' = w_hook w \<and> w_crashed w' = w_crashed w"

lemma same_control_armed: "same_control w w' \<Longrightarrow> armed_ok w' = armed_ok w"
  by (simp add: same_control_def armed_ok_def)

lemma same_control_trans: "same_control w w' \<Longrightarrow> same_control w' w'' \<Longrightarrow> same_control w w''"
  by (simp add: same_control_def)

lemma same_control_refl [simp]: "same_control w w"
  by (simp add: same_control_def)

lemma worker_audio:
  assumes "worker_good env w t" and "audio_ok env (w_audio w') t'" and "video_kept env t t'"
    and "w_media w' = w_media w"
  shows "worker_good env w' t'"
  using assms by (auto simp: worker_good_def media_good_def media_ok_def video_kept_def)

lemma worker_note:
  "worker_good env w t \<Longrightarrow> neutral c \<Longrightarrow> worker_good env w (note_call c t)"
  by (rule worker_same [of env w t]) simp_all

lemma worker_attempt:
  "worker_good env w t \<Longrightarrow> neutral c \<Longrightarrow> attempt env c t = (t', ok) \<Longrightarrow> worker_good env w t'"
  by (rule worker_same [of env w t]) (auto simp: attempt_def)

lemma worker_clock:
  "worker_good env w t \<Longrightarrow> read_clock env t = (t', now) \<Longrightarrow> worker_good env w t'"
  by (rule worker_same [of env w t]) (auto dest: clock_same)

lemma worker_fields:
  "worker_good env w t \<Longrightarrow> w_media w' = w_media w \<Longrightarrow> w_audio w' = w_audio w \<Longrightarrow> worker_good env w' t"
  by (simp add: worker_good_def)

lemma cleanup_both_good:
  assumes "worker_good env w t" and "cleanup_both env w t = (w', t', ok)"
  shows "worker_good env w' t' \<and> same_control w w' \<and> w_quit w' = w_quit w \<and>
    (ok \<longrightarrow> \<not> audio_has_resources (w_audio w') \<and> \<not> allocated (w_media w') \<and>
       \<not> path_open (w_media w') \<and> \<not> path_started (w_media w'))"
proof -
  obtain a t1 quiet where 1: "cleanup_audio env (w_audio w) t = (a, t1, quiet)" by (metis prod_cases3)
  obtain s t2 clean where 2: "cleanup_media env (w_media w) t1 = (s, t2, clean)" by (metis prod_cases3)
  have h1: "audio_ok env a t1 \<and> video_kept env t t1 \<and> (quiet \<longrightarrow> \<not> audio_has_resources a)"
    using cleanup_audio_ok [OF _ 1] assms(1) by (simp add: worker_good_def)
  have g1: "worker_good env (w\<lparr>w_audio := a\<rparr>) t1" using h1 by (intro worker_audio [OF assms(1)]) simp_all
  have h2: "media_step env t1 s t2 \<and> (clean \<longrightarrow> \<not> allocated s \<and> \<not> path_open s \<and> \<not> path_started s)"
    using cleanup_media_step [OF _ _ 2] g1 by (simp add: worker_good_def media_good_def)
  then have "worker_good env (w\<lparr>w_audio := a, w_media := s\<rparr>) t2"
    by (intro worker_media [OF g1]) simp_all
  with assms(2) h1 h2 show ?thesis
    by (auto simp: cleanup_both_def 1 2 same_control_def)
qed

lemma after_media_good:
  assumes "worker_good env w t" and "media_ok env s u" and "buffers_ok s" and "audio_kept env t u"
    and "ok \<longrightarrow> frames_ok s" and "w_audio v = w_audio w" and "after_media_start env err v (s, u, ok) = (w', t')"
  shows "worker_good env w' t' \<and> same_control v w'"
proof -
  let ?u = "note_call (World (Write_Marker ''injected.error'' err)) u"
  obtain s2 t2 r where 2: "cleanup_media env s ?u = (s2, t2, r)" by (metis prod_cases3)
  have "media_ok env s ?u \<and> audio_kept env u ?u" by (rule media_ok_note [OF assms(2)]) simp_all
  then have "media_step env t s2 t2"
    using cleanup_media_step [OF _ assms(3) 2] assms(4)
    by (auto simp: media_step_def intro: audio_kept_trans)
  then have "worker_good env (v\<lparr>w_media := s2\<rparr>) t2"
    using assms(6) by (intro worker_media [OF assms(1)]) simp_all
  moreover have "worker_good env (v\<lparr>w_media := s\<rparr>) u" if ok
    using assms(2-6) that by (intro worker_media [OF assms(1)]) (simp_all add: media_step_def media_good_def)
  ultimately show ?thesis
    using assms(7) by (auto simp: after_media_start_def 2 same_control_def split: if_splits)
qed

lemma after_audio_good:
  assumes "worker_good env w t" and "audio_ok env a u" and "video_kept env t u"
    and "w_media v = w_media w" and "after_audio_start env err v (a, u, ok) = (w', t')"
  shows "worker_good env w' t' \<and> same_control v w'"
proof -
  let ?u = "note_call (World (Write_Marker ''injected.error'' err)) u"
  obtain a2 t2 r where 2: "cleanup_audio env a ?u = (a2, t2, r)" by (metis prod_cases3)
  have g: "worker_good env (v\<lparr>w_audio := a\<rparr>) u"
    using assms(2-4) by (intro worker_audio [OF assms(1)]) simp_all
  have gu: "worker_good env (v\<lparr>w_audio := a\<rparr>) ?u" by (rule worker_note [OF g]) simp
  then have "audio_ok env a ?u" by (simp add: worker_good_def)
  note c = cleanup_audio_ok [OF this 2]
  have "worker_good env (v\<lparr>w_audio := a2\<rparr>) t2"
    by (rule worker_audio [OF gu]) (simp_all add: c)
  with g assms(5) show ?thesis
    by (auto simp: after_audio_start_def 2 same_control_def split: if_splits)
qed

lemma start_command_good:
  assumes "worker_good env w t" and "w_audio v = w_audio w"
    and "after_media_start env err v (start_media env (w_media w) e x y tr only t) = (w', t')"
  shows "worker_good env w' t' \<and> same_control v w'"
proof -
  obtain s u ok where 1: "start_media env (w_media w) e x y tr only t = (s, u, ok)" by (metis prod_cases3)
  have m: "media_good env (w_media w) t" using assms(1) by (simp add: worker_good_def)
  note idle = good_start [OF m]
  have s: "media_ok env s u \<and> buffers_ok s \<and> audio_kept env t u \<and> (ok \<longrightarrow> frames_ok s)"
  proof (cases "path_started (w_media w)")
    case True
    with 1 m show ?thesis by (auto simp: start_media_def media_good_def audio_kept_def)
  next
    case False
    with start_media_step [OF _ _ _ _ 1] m idle show ?thesis by (simp add: media_good_def)
  qed
  with after_media_good [OF assms(1), of s u ok v err w' t'] assms(2,3) show ?thesis by (simp add: 1)
qed

lemma doom_command_good:
  assumes "worker_good env w t" and "w_audio v = w_audio w"
    and "after_media_start env err v (if e > 3 then ((w_media w)\<lparr>entry_melt := False\<rparr>, t, False)
      else start_doom_media env ((w_media w)\<lparr>entry_melt := False\<rparr>) (unat e) t) = (w', t')"
  shows "worker_good env w' t' \<and> same_control v w'"
proof -
  let ?s = "(w_media w)\<lparr>entry_melt := False\<rparr>"
  obtain s u ok where 1: "(if e > 3 then (?s, t, False) else start_doom_media env ?s (unat e) t) = (s, u, ok)"
    by (metis prod_cases3)
  have m: "media_good env ?s t" using assms(1) by (simp add: worker_good_def)
  have "media_ok env s u \<and> buffers_ok s \<and> audio_kept env t u \<and> (ok \<longrightarrow> frames_ok s)"
    using 1 m start_doom_step [OF m] by (auto simp: media_good_def audio_kept_def split: if_splits)
  with assms(2,3) show ?thesis unfolding 1 using after_media_good [OF assms(1)] by blast
qed

lemma audio_command_good:
  assumes "worker_good env w t" and "w_media v = w_media w"
    and "\<And>a u ok. start (w_audio w) t = (a, u, ok) \<Longrightarrow> audio_ok env a u \<and> video_kept env t u"
    and "after_audio_start env err v (start (w_audio w) t) = (w', t')"
  shows "worker_good env w' t' \<and> same_control v w'"
proof -
  obtain a u ok where 1: "start (w_audio w) t = (a, u, ok)" by (metis prod_cases3)
  from after_audio_good [OF assms(1), of a u v err ok w' t'] assms(2,3) assms(4) show ?thesis
    by (simp add: 1)
qed

lemma execute_good:
  assumes "worker_good env w t" and "armed_ok w" and "execute_command env now c w t = (w', t')"
  shows "worker_good env w' t' \<and> armed_ok w' \<and> w_crashed w' = w_crashed w"
proof -
  let ?v = "w\<lparr>heartbeat_seen := now\<rparr>"
  have armed: "armed_ok ?v" using assms(2) by (simp add: armed_ok_def)
  have v: "same_control ?v x \<Longrightarrow> armed_ok x \<and> w_crashed x = w_crashed w" for x
    using armed by (simp add: same_control_armed) (simp add: same_control_def)
  have audio: "audio_ok env (w_audio w) t" using assms(1) by (simp add: worker_good_def)
  obtain x u ok where both: "cleanup_both env w t = (x, u, ok)" by (metis prod_cases3)
  note b = cleanup_both_good [OF assms(1) both] same_control_armed [of w x]
  show ?thesis
  proof (cases c)
    case Cmd_Stop
    then show ?thesis using assms(2,3) b by (auto simp: both same_control_def)
  next
    case Cmd_Quit
    then show ?thesis using assms(2,3) b worker_fields [of env x u "x\<lparr>w_quit := True\<rparr>"]
      by (auto simp: both same_control_def armed_ok_def split: if_splits)
  next
    case Cmd_Ptz_Camera
    let ?x = "w\<lparr>w_control := rc_zero E1_RUNTIME_CAMERA_ARMED\<rparr>"
    have "w' = ?x\<lparr>w_hook := PTZ_HOOK_CAMERA\<rparr>" "same_hw env t t'"
      using arm_camera_step(1) [of ?x t] arm_camera_step(2) [of env t ?x] assms(3) Cmd_Ptz_Camera by simp_all
    then show ?thesis using worker_same [OF assms(1), of t' w'] by (simp add: armed_ok_def)
  next
    case Cmd_Ptz_Doom
    then have "w' = w\<lparr>w_control := rc_zero E1_RUNTIME_DOOM, w_hook := PTZ_HOOK_DOOM\<rparr>" "same_hw env t t'"
      using assms(3) by (auto simp: set_ptz_hook_mode_def note_call_def intro!: same_hw_list)
    then show ?thesis using worker_same [OF assms(1), of t' w'] by (simp add: armed_ok_def rc_zero_def)
  next
    case Cmd_Ptz_Off
    then have "w' = w\<lparr>w_hook := PTZ_HOOK_OFF\<rparr>" "same_hw env t t'"
      using assms(3) by (auto simp: set_ptz_hook_mode_def intro!: same_hw_list)
    then show ?thesis using worker_same [OF assms(1), of t' w'] by (simp add: armed_ok_def)
  next
    case (Cmd_Alloc x y)
    then show ?thesis using start_command_good [OF assms(1), of ?v] v assms(3) by simp
  next
    case (Cmd_Transparent e x y)
    then show ?thesis using start_command_good [OF assms(1), of ?v] v assms(3) by simp
  next
    case (Cmd_Checkerboard e x y)
    then show ?thesis using start_command_good [OF assms(1), of ?v] v assms(3) by simp
  next
    case (Cmd_Doom e)
    then show ?thesis
      using doom_command_good [OF assms(1), of ?v "''doom-start-failed''" e w' t'] v assms(3)
      by (simp add: Let_def)
  next
    case Cmd_Audio_Tone
    let ?r = "World (Remove_Marker ''audio.encoded'')"
    have "worker_good env w (note_call ?r t)" by (rule worker_note [OF assms(1)]) simp
    from audio_command_good [OF this, of ?v "start_audio_tone False env"] native_tone_ok v assms(3)
      Cmd_Audio_Tone this show ?thesis by (auto simp: worker_good_def)
  next
    case Cmd_Stock_Tone
    then show ?thesis
      using audio_command_good [OF assms(1), of ?v "start_stock_audio_tone env"] stock_tone_ok [OF audio] v
        assms(3) by simp
  next
    case Cmd_Stock_Doom
    then show ?thesis
      using audio_command_good [OF assms(1), of ?v "start_stock_audio_doom env"] stock_doom_ok [OF audio] v
        assms(3) by simp
  next
    case Cmd_Audio_Stop
    obtain a1 u1 ok1 where 1: "cleanup_audio env (w_audio w) t = (a1, u1, ok1)" by (metis prod_cases3)
    have "worker_good env (w\<lparr>w_audio := a1\<rparr>) u1"
      using cleanup_audio_ok [OF audio 1] by (intro worker_audio [OF assms(1)]) simp_all
    then show ?thesis
      using assms(2,3) Cmd_Audio_Stop worker_note by (auto simp: 1 armed_ok_def split: if_splits)
  next
    case Cmd_Bad
    then show ?thesis using assms worker_note [OF assms(1)] by (auto simp del: note_call_def)
  qed
qed

lemma handle_good:
  assumes "worker_good env w t" and "armed_ok w" and "handle_command env now w t = (w', t')"
  shows "worker_good env w' t' \<and> armed_ok w' \<and> w_crashed w' = w_crashed w"
proof -
  obtain t1 r where 1: "read_command env t = (t1, r)" by force
  have "same_hw env t t1"
    using 1 by (auto simp: read_command_def attempt_def note_call_def Let_def intro!: same_hw_list split: if_splits)
  then have g1: "worker_good env w t1" by (intro worker_same [OF assms(1)]) simp_all
  show ?thesis
  proof (cases r)
    case (Read_Command s)
    let ?t2 = "note_call (World (Remove_Marker ''media.restored'')) t1"
    let ?t3 = "if s \<noteq> ''quit'' then note_call (World (Remove_Marker ''audio.restored'')) ?t2 else ?t2"
    let ?t4 = "note_call (World (Remove_Marker ''deadman.fired'')) ?t3"
    have "worker_good env w ?t3" using worker_note g1 by simp
    then have "worker_good env w ?t4" by (rule worker_note) simp
    moreover have "execute_command env now (parse_injected_command s) w ?t4 = (w', t')"
      using assms(3) by (simp add: handle_command_def 1 Read_Command Let_def)
    ultimately show ?thesis using execute_good assms(2) by blast
  qed (use assms(2,3) g1 worker_note [OF g1] in \<open>auto simp: handle_command_def 1\<close>)
qed

lemma heartbeat_good:
  assumes "worker_good env w t" and "check_heartbeat env now w t = (w', t')"
  shows "worker_good env w' t' \<and> same_control w w'"
proof -
  obtain t1 ok where 1: "attempt env (World Stat_Heartbeat) t = (t1, ok)" by force
  define v where "v = (if ok \<and> mtime_at env t1 \<noteq> heartbeat_mtime w
      then w\<lparr>heartbeat_mtime := mtime_at env t1, heartbeat_seen := now\<rparr> else w)"
  let ?c = "World (Write_Marker ''deadman.fired'' ''heartbeat-stale'')"
  obtain w2 t2 r where 2: "cleanup_both env v (note_call ?c t1) = (w2, t2, r)" by (metis prod_cases3)
  have "worker_good env w t1" by (rule worker_attempt [OF assms(1) _ 1]) simp
  then have g: "worker_good env v t1" by (rule worker_fields) (simp_all add: v_def)
  have same: "same_control w v" by (simp add: v_def same_control_def)
  have "worker_good env v (note_call ?c t1)" by (rule worker_note [OF g]) simp
  from cleanup_both_good [OF this 2] same have "worker_good env w2 t2 \<and> same_control w w2"
    by (blast intro: same_control_trans)
  moreover have "(w', t') = (w2, t2) \<or> (w', t') = (v, t1)"
    using assms(2) unfolding check_heartbeat_def 1 Let_def prod.case v_def [symmetric] 2
    by (auto split: if_splits)
  ultimately show ?thesis using g same by blast
qed

text \<open>The controller's own moves match the actions it reports.\<close>

lemma match_none: "actions_match m m 0"
  by (cases m) (simp_all add: emits_def)

lemma match_enter:
  "actions_match (mode c) (mode (fst (e1_runtime_request_enter c))) (snd (e1_runtime_request_enter c))"
  by (cases "mode c") (simp_all add: e1_runtime_request_enter_def e1_runtime_reset_secret_def
      e1_runtime_reset_stop_only_def emits_def e1_consts Let_def)

lemma match_exit:
  "actions_match (mode c) (mode (fst (e1_runtime_request_exit c))) (snd (e1_runtime_request_exit c))"
  by (cases "mode c") (simp_all add: e1_runtime_request_exit_def
      e1_runtime_reset_stop_only_def emits_def e1_consts Let_def)

lemma match_tick: "actions_match (mode c) (mode (fst (e1_runtime_tick c t))) (snd (e1_runtime_tick c t))"
  by (cases "mode c") (auto simp: rc_op_defs e1_consts emits_def)

lemma gather_good:
  assumes "worker_good env w t" and "gather_actions env w t = (w', t', a)"
  shows "worker_good env w' t' \<and> w_hook w' = w_hook w \<and> w_crashed w' = w_crashed w \<and>
    actions_match (mode (w_control w)) (mode (w_control w')) a"
proof -
  obtain t1 start where 1: "attempt env (World (Take_Marker ''dashboard.start'')) t = (t1, start)" by force
  obtain c1 a1 where 2: "(if start then e1_runtime_request_enter (w_control w) else (w_control w, 0)) = (c1, a1)"
    by force
  obtain t2 camera where 3: "attempt env (World (Take_Marker ''dashboard.camera'')) t1 = (t2, camera)" by force
  obtain c2 a2 where 4: "(if camera then e1_runtime_request_exit c1 else (c1, 0)) = (c2, a2)" by force
  let ?t3 = "note_call (World Load_Ptz_Ring) t2"
  let ?d = "\<lparr>ds_ticket = ptz_read_ticket w, ds_control = c2, ds_actions = a1 OR a2, ds_sent = w_sent w\<rparr>"
  let ?e = "drain_ptz_events (ptz_views_at env ?t3) (ptz_sender w) ?d"
  have m1: "actions_match (mode (w_control w)) (mode c1) a1"
    using 2 match_enter [of "w_control w"] match_none by (auto split: if_splits)
  have m2: "actions_match (mode c1) (mode c2) a2"
    using 4 match_exit [of c1] match_none by (auto split: if_splits)
  have m3: "actions_match (mode (w_control w)) (mode (ds_control ?e)) (ds_actions ?e)"
    unfolding drain_ptz_events_def by (rule match_drain) (simp add: match_trans [OF m1 m2])
  have "worker_good env w t1" by (rule worker_attempt [OF assms(1) _ 1]) simp
  then have "worker_good env w t2" by (rule worker_attempt [OF _ _ 3]) simp
  then have "worker_good env w ?t3" by (rule worker_note) simp
  then have "worker_good env w' t'"
    using assms(2) unfolding gather_actions_def 1 Let_def prod.case 2 3 4 by (auto elim!: worker_fields)
  with m3 assms(2) show ?thesis
    unfolding gather_actions_def 1 Let_def prod.case 2 3 4 by auto
qed

lemma match_without_enter:
  assumes "actions_match m0 m a" and "emits a E1_RUNTIME_ACTION_ENTER"
  shows "m0 = E1_RUNTIME_CAMERA_ARMED \<and> m = E1_RUNTIME_ENTRY_MELT \<and>
    actions_match m0 E1_RUNTIME_CAMERA_ARMED (a AND NOT E1_RUNTIME_ACTION_ENTER)"
proof -
  have "(a AND NOT E1_RUNTIME_ACTION_ENTER) AND E1_RUNTIME_ACTION_ENTER = 0"
    by (rule bit_word_eqI) (auto simp: bit_simps)
  moreover have "NOT E1_RUNTIME_ACTION_ENTER AND E1_RUNTIME_ACTION_EXIT = E1_RUNTIME_ACTION_EXIT"
    by (simp add: e1_consts)
  then have "(a AND NOT E1_RUNTIME_ACTION_ENTER) AND E1_RUNTIME_ACTION_EXIT = a AND E1_RUNTIME_ACTION_EXIT"
    by (simp only: and.assoc)
  ultimately show ?thesis using assms by (cases m0) (auto simp: emits_def)
qed

lemma defer_good:
  assumes "worker_good env w t" and "actions_match m (mode (w_control w)) a"
    and "defer_entry env w a t = (w', t', a')"
  shows "worker_good env w' t' \<and> w_hook w' = w_hook w \<and> w_crashed w' = w_crashed w \<and>
    actions_match m (mode (w_control w')) a'"
proof -
  obtain t1 ready where 1: "attempt env (World (Test_Marker ''game.ready'')) t = (t1, ready)" by force
  obtain t2 ok where 2: "attempt env (World (Write_Marker ''runtime.start'' ''ptz'')) t1 = (t2, ok)" by force
  have g1: "worker_good env w t1" by (rule worker_attempt [OF assms(1) _ 1]) simp
  have g2: "worker_good env w t2" by (rule worker_attempt [OF g1 _ 2]) simp
  let ?w = "w\<lparr>w_control := rc_zero E1_RUNTIME_CAMERA_ARMED\<rparr>"
  have g: "worker_good env ?w (if ok then t2
      else note_call (World (Write_Marker ''injected.error'' ''start-request-failed'')) t2)"
    by (cases ok) (simp_all add: worker_fields [OF g2] worker_fields [OF worker_note [OF g2]])
  show ?thesis
  proof (cases "emits a E1_RUNTIME_ACTION_ENTER \<and> \<not> ready")
    case True
    with match_without_enter [OF assms(2)] assms(3) g show ?thesis
      unfolding defer_entry_def 1 Let_def prod.case 2 by (auto simp: emits_def rc_zero_def)
  next
    case False
    with assms g1 show ?thesis
      unfolding defer_entry_def 1 Let_def prod.case 2 by (auto simp: emits_def split: if_splits)
  qed
qed

lemma fall_back_good:
  assumes "worker_good env w t" and "fall_back env err w t = (w', t')"
  shows "worker_good env w' t' \<and> armed_ok w' \<and> w_crashed w' = w_crashed w"
proof -
  let ?t1 = "note_call (World (Write_Marker ''injected.error'' err)) t"
  obtain s t2 r where 2: "cleanup_media env (w_media w) ?t1 = (s, t2, r)" by (metis prod_cases3)
  let ?w = "w\<lparr>w_media := s, w_control := rc_zero E1_RUNTIME_CAMERA_ARMED\<rparr>"
  have g1: "worker_good env w ?t1" by (rule worker_note [OF assms(1)]) simp
  then have "media_step env ?t1 s t2"
    using cleanup_media_step [OF _ _ 2] by (simp add: worker_good_def media_good_def)
  then have g2: "worker_good env ?w t2" by (intro worker_media [OF g1]) simp_all
  have "w' = ?w\<lparr>w_hook := PTZ_HOOK_CAMERA\<rparr>" "same_hw env t2 t'"
    using assms(2) arm_camera_step(1) [of ?w t2] arm_camera_step(2) [of env t2 ?w] unfolding fall_back_def 2 Let_def prod.case by simp_all
  then show ?thesis using worker_same [OF g2, of t' w'] by (simp add: armed_ok_def)
qed

lemma start_entry_good:
  assumes "worker_good env w t" and "start_entry env a w t = (w', t')"
    and "if emits a E1_RUNTIME_ACTION_ENTER then mode (w_control w) \<noteq> E1_RUNTIME_CAMERA_ARMED else armed_ok w"
  shows "worker_good env w' t' \<and> armed_ok w' \<and> w_crashed w' = w_crashed w"
proof (cases "emits a E1_RUNTIME_ACTION_ENTER")
  case True
  obtain w1 t1 ok where 1: "begin_entry_melt env w t = (w1, t1, ok)" by (metis prod_cases3)
  note h = begin_entry_good [OF assms(1) 1]
  have "w_crashed w1 = w_crashed w"
    using 1 by (auto simp: begin_entry_melt_def arm_camera_def set_ptz_hook_mode_def split: prod.splits if_splits)
  moreover have "armed_ok w1" using h assms(3) True by (auto simp: armed_ok_def split: if_splits)
  ultimately show ?thesis
    using h True assms(2) worker_note unfolding start_entry_def 1 Let_def prod.case
    by (auto simp: emits_def split: if_splits)
next
  case False
  with assms show ?thesis by (simp add: start_entry_def emits_def)
qed

lemma start_exit_good:
  assumes "worker_good env w t" and "armed_ok w" and "start_exit env a w t = (w', t')"
  shows "worker_good env w' t' \<and> armed_ok w' \<and> w_crashed w' = w_crashed w"
proof (cases "a AND E1_RUNTIME_ACTION_EXIT = 0")
  case False
  obtain s1 t1 ok where 1: "begin_exit_melt env (w_media w) t = (s1, t1, ok)" by (metis prod_cases3)
  have g1: "worker_good env (w\<lparr>w_media := s1\<rparr>) t1"
    using begin_exit_step [OF _ 1] assms(1) by (intro worker_media [OF assms(1)]) (simp_all add: worker_good_def)
  obtain w2 t2 where 2: "fall_back env ''exit-melt-failed'' (w\<lparr>w_media := s1\<rparr>) t1 = (w2, t2)" by force
  have "(if ok then (w\<lparr>w_media := s1\<rparr>, t1) else (w2, t2)) = (w', t')"
    using assms(3) unfolding start_exit_def if_not_P [OF False] 1 Let_def prod.case 2 .
  then show ?thesis
    using g1 fall_back_good [OF g1 2] assms(2) by (auto simp: armed_ok_def split: if_splits)
qed (use assms in \<open>simp add: start_exit_def\<close>)

lemma control_good:
  assumes "worker_good env w t" and "armed_ok w" and "control_step env w t = (w', t')"
  shows "worker_good env w' t' \<and> armed_ok w' \<and> w_crashed w' = w_crashed w"
proof -
  obtain w1 t1 a1 where 1: "gather_actions env w t = (w1, t1, a1)" by (metis prod_cases3)
  obtain w2 t2 a2 where 2: "defer_entry env w1 a1 t1 = (w2, t2, a2)" by (metis prod_cases3)
  obtain t3 now where 3: "read_clock env t2 = (t3, now)" by force
  obtain c a where 4: "e1_runtime_tick (w_control w2) now = (c, a)" by force
  let ?a = "a2 OR a" and ?w = "w2\<lparr>w_control := c\<rparr>"
  obtain w5 t5 where 5: "start_entry env ?a ?w t3 = (w5, t5)" by force
  note h1 = gather_good [OF assms(1) 1]
  note h2 = defer_good [OF conjunct1 [OF h1] _ 2, of "mode (w_control w)"]
  have tick: "actions_match (mode (w_control w2)) (mode c) a" using match_tick [of "w_control w2" now] by (simp add: 4)
  have m: "actions_match (mode (w_control w)) (mode c) ?a" using h1 h2 tick match_trans by blast
  have "worker_good env w2 t3" using worker_clock [OF _ 3] h1 h2 by blast
  then have g: "worker_good env ?w t3" by (rule worker_fields) simp_all
  have hook: "w_hook ?w = w_hook w" "w_crashed ?w = w_crashed w" using h1 h2 by auto
  have "if emits ?a E1_RUNTIME_ACTION_ENTER then mode (w_control ?w) \<noteq> E1_RUNTIME_CAMERA_ARMED else armed_ok ?w"
    using m assms(2) hook by (cases "mode (w_control w)") (auto simp: armed_ok_def split: if_splits)
  note h5 = start_entry_good [OF g 5 this]
  have run: "start_exit env ?a w5 t5 = (w', t')"
    using assms(3) unfolding control_step_def 1 Let_def prod.case 2 3 4 5 .
  from start_exit_good [OF _ _ run] h5 hook show ?thesis by simp
qed

lemma report_same: "same_hw env t (report_quiesced env t)"
  unfolding report_quiesced_def attempt_def Let_def prod.case note_call_def
  by (auto intro!: same_hw_list simp flip: append_assoc simp add: append_assoc)

lemma checkerboard_good:
  assumes "worker_good env w t" and "show_checkerboard env now w t = (w', t')"
  shows "worker_good env w' t' \<and> same_control w w'"
proof (cases "path_started (w_media w) \<and> checkerboard (w_media w) \<and> now - last_animation w \<ge> frame_interval_ms w")
  case True
  let ?s = "fill_pixels ((w_media w)\<lparr>phase := phase (w_media w) + 1\<rparr>) False"
  obtain s1 t1 ok where 1: "publish_image env ?s t = (s1, t1, ok)" by (metis prod_cases3)
  obtain w2 t2 where 2: "after_media_start env ''image-update-failed'' w (s1, t1, ok) = (w2, t2)" by force
  have good: "media_good env (w_media w) t" using assms(1) by (simp add: worker_good_def)
  then have m: "media_good env ?s t"
    by (auto simp: media_good_def media_ok_def buffers_ok_def frames_ok_def full_size_def fill_pixels_def
        picture_def nested_length split: option.splits)
  have "path_open ?s" using good True by (auto simp: media_good_def media_ok_def fill_pixels_def)
  from publish_step [OF m this 1] have "media_step env t s1 t1" .
  then have "media_ok env s1 t1 \<and> buffers_ok s1 \<and> audio_kept env t t1 \<and> frames_ok s1"
    by (simp add: media_step_def media_good_def)
  with after_media_good [OF assms(1) _ _ _ _ _ 2] have h: "worker_good env w2 t2 \<and> same_control w w2" by simp
  have "(w2\<lparr>last_animation := now\<rparr>, t2) = (w', t')"
    using assms(2) unfolding show_checkerboard_def Let_def if_P [OF True] 1 prod.case 2 .
  with h show ?thesis using worker_fields [of env w2 t2 w'] by (auto simp: same_control_def)
next
  case False
  from assms(2) have "w' = w \<and> t' = t" unfolding show_checkerboard_def Let_def if_not_P [OF False] by simp
  with assms(1) show ?thesis by simp
qed

lemma update_picture_good:
  assumes "worker_good env w t" and "armed_ok w" and "doom_frames (w_media w)"
    and "update_picture env now w t = (w', t', r, attempted)"
  shows "worker_good env w' t' \<and> armed_ok w'"
proof (cases "mode (w_control w)")
  case E1_RUNTIME_ENTRY_MELT
  obtain w1 t1 r1 where 1: "update_entry_melt env w now t = (w1, t1, r1)" by (metis prod_cases3)
  from update_entry_good [OF assms(1,3) E1_RUNTIME_ENTRY_MELT 1] assms(4) E1_RUNTIME_ENTRY_MELT
  show ?thesis by (auto simp: update_picture_def 1 armed_ok_def)
next
  case E1_RUNTIME_EXIT_MELT
  obtain w1 t1 r1 where 1: "update_exit_melt env w now t = (w1, t1, r1)" by (metis prod_cases3)
  from update_exit_good [OF assms(1,3) E1_RUNTIME_EXIT_MELT 1] assms(4) E1_RUNTIME_EXIT_MELT
  show ?thesis by (auto simp: update_picture_def 1)
next
  case other: E1_RUNTIME_CAMERA_ARMED
  obtain s1 t1 r1 where 1: "present_frame env (w_media w) t = (s1, t1, r1)" by (metis prod_cases3)
  have "worker_good env (w\<lparr>w_media := s1\<rparr>) t1"
    using present_step [OF _ assms(3) 1] assms(1) by (intro worker_media [OF assms(1)]) (simp_all add: worker_good_def)
  with assms(2,4) other show ?thesis by (auto simp: update_picture_def 1 armed_ok_def)
next
  case other: E1_RUNTIME_DOOM
  obtain s1 t1 r1 where 1: "present_frame env (w_media w) t = (s1, t1, r1)" by (metis prod_cases3)
  have "worker_good env (w\<lparr>w_media := s1\<rparr>) t1"
    using present_step [OF _ assms(3) 1] assms(1) by (intro worker_media [OF assms(1)]) (simp_all add: worker_good_def)
  with assms(2,4) other show ?thesis by (auto simp: update_picture_def 1 armed_ok_def)
qed

lemma doom_good:
  assumes "worker_good env w t" and "armed_ok w" and "show_doom env now w t = (w', t')"
  shows "worker_good env w' t' \<and> armed_ok w'"
proof (cases "path_started (w_media w) \<and> doom_frames (w_media w) \<and>
    (mode (w_control w) = E1_RUNTIME_DOOM \<or> now - last_animation w \<ge> frame_interval_ms w)")
  case True
  obtain w1 t1 r attempted where 1: "update_picture env now w t = (w1, t1, r, attempted)" by (metis prod_cases4)
  obtain w2 t2 where 2: "fall_back env ''doom-update-failed'' w1 t1 = (w2, t2)" by force
  have h1: "worker_good env w1 t1 \<and> armed_ok w1" using update_picture_good [OF assms(1,2) _ 1] True by blast
  then have h2: "worker_good env w2 t2 \<and> armed_ok w2" using fall_back_good [OF _ 2] by blast
  have upd: "worker_good env (x\<lparr>last_animation := now\<rparr>) u \<and> armed_ok (x\<lparr>last_animation := now\<rparr>)"
    if "worker_good env x u" "armed_ok x" for x u
    using that by (simp add: worker_good_def armed_ok_def)
  have "(w', t') \<in> {(w1, t1), (w1\<lparr>last_animation := now\<rparr>, t1), (w2, t2), (w2\<lparr>last_animation := now\<rparr>, t2)}"
    using assms(3) unfolding show_doom_def if_P [OF True] 1 Let_def prod.case 2
    by (auto split: if_splits)
  with h1 h2 upd show ?thesis by blast
next
  case False
  from assms(3) have "w' = w \<and> t' = t" unfolding show_doom_def if_not_P [OF False] by simp
  with assms(1,2) show ?thesis by simp
qed

lemma stats_good:
  assumes "worker_good env w t" and "keep_stats env now w t = (w', t')"
  shows "worker_good env w' t' \<and> same_control w w'"
proof -
  let ?test = "World (Test_Marker ''video.stats.reset'')"
  obtain t1 asked where 1: "(if mode (w_control w) = E1_RUNTIME_DOOM then attempt env ?test t else (t, False)) = (t1, asked)"
    by force
  let ?t1 = "note_call (World (Remove_Marker ''video.stats.reset'')) t1"
  obtain s2 t2 where 2: "reset_video_stats env (w_media w) now ?t1 = (s2, t2)" by force
  have g1: "worker_good env w t1"
    using 1 assms(1) worker_attempt [OF assms(1), of ?test] by (auto split: if_splits)
  have gn: "worker_good env w ?t1" by (rule worker_note [OF g1]) simp
  have "media_step env ?t1 s2 t2" using reset_stats_step [OF _ 2] gn by (simp add: worker_good_def)
  then have g2: "worker_good env (w\<lparr>w_media := s2, last_video_stats := 0\<rparr>) t2"
    by (intro worker_media [OF gn]) simp_all
  define v u where "v = (if asked then w\<lparr>w_media := s2, last_video_stats := 0\<rparr> else w)"
    and "u = (if asked then t2 else t1)"
  have gv: "worker_good env v u" and same: "same_control w v"
    using g1 g2 by (simp_all add: v_def u_def same_control_def)
  obtain u2 ok where 3: "write_video_stats env (w_media v) u = (u2, ok)" by force
  have "same_hw env u u2"
    using 3 by (auto simp: write_video_stats_def read_clock_def attempt_def Let_def intro!: same_hw_list split: if_splits)
  then have g3: "worker_good env (v\<lparr>last_video_stats := now\<rparr>) u2" by (intro worker_same [OF gv]) simp_all
  have split: "(if asked then (w\<lparr>w_media := s2, last_video_stats := 0\<rparr>, t2) else (w, t1)) = (v, u)"
    by (simp add: v_def u_def)
  have "(w', t') = (v, u) \<or> (w', t') = (v\<lparr>last_video_stats := now\<rparr>,
      if ok then u2 else note_call (World (Write_Marker ''injected.error'' ''video-stats-failed'')) u2)"
    using assms(2) unfolding keep_stats_def 1 Let_def prod.case 2 split 3 by (auto split: if_splits)
  then show ?thesis
    using gv same g3 worker_note [OF g3] by (auto simp: same_control_def)
qed

lemma pictures_good:
  assumes "worker_good env w t" and "armed_ok w" and "show_pictures env w t = (w', t')"
  shows "worker_good env w' t' \<and> armed_ok w'"
proof -
  obtain t1 now where 1: "read_clock env t = (t1, now)" by force
  obtain a t2 where 2: "update_stock_audio env (w_audio w) t1 = (a, t2)" by force
  let ?w = "w\<lparr>w_audio := a\<rparr>" and ?t3 = "report_quiesced env t2"
  obtain w4 t4 where 4: "show_checkerboard env now ?w ?t3 = (w4, t4)" by force
  obtain w5 t5 where 5: "show_doom env now w4 t4 = (w5, t5)" by force
  obtain w6 t6 where 6: "keep_stats env now w5 t5 = (w6, t6)" by force
  have g1: "worker_good env w t1" by (rule worker_clock [OF assms(1) 1])
  have "audio_ok env a t2 \<and> video_kept env t1 t2"
    using update_stock_ok [OF _ 2] g1 by (simp add: worker_good_def)
  then have "worker_good env ?w t2" by (intro worker_audio [OF g1]) simp_all
  then have g3: "worker_good env ?w ?t3" by (rule worker_same [OF _ report_same]) simp_all
  note h4 = checkerboard_good [OF g3 4]
  have armed: "armed_ok w4" using h4 assms(2) by (simp add: same_control_def armed_ok_def)
  note h5 = doom_good [OF conjunct1 [OF h4] armed 5]
  note h6 = stats_good [OF conjunct1 [OF h5] 6]
  have "armed_ok w6" using h5 h6 same_control_armed by blast
  then show ?thesis
    using assms(3) h5 h6 worker_note [OF conjunct1 [OF h6], of "World Nap"]
    unfolding show_pictures_def 1 Let_def prod.case 2 4 5 6 by (auto split: if_splits)
qed

lemma round_good:
  assumes "worker_good env w t" and "armed_ok w" and "worker_round env w t = (w', t')"
  shows "worker_good env w' t' \<and> armed_ok w'"
proof -
  obtain t1 now where 1: "read_clock env t = (t1, now)" by force
  obtain w2 t2 where 2: "check_heartbeat env now w t1 = (w2, t2)" by force
  obtain w3 t3 where 3: "handle_command env now w2 t2 = (w3, t3)" by force
  obtain w4 t4 where 4: "control_step env w3 t3 = (w4, t4)" by force
  note h2 = heartbeat_good [OF worker_clock [OF assms(1) 1] 2]
  then have "armed_ok w2" using assms(2) same_control_armed by blast
  note h3 = handle_good [OF conjunct1 [OF h2] this 3]
  then have h4: "worker_good env w4 t4 \<and> armed_ok w4" using control_good [OF _ _ 4] by blast
  have run: "show_pictures env w4 t4 = (w', t')"
    using assms(3) unfolding worker_round_def 1 Let_def prod.case 2 3 4 .
  from pictures_good [OF _ _ run] h4 show ?thesis by blast
qed

lemma loop_good:
  "worker_good env w t \<Longrightarrow> armed_ok w \<Longrightarrow> worker_loop n env w t = (w', t') \<Longrightarrow>
   worker_good env w' t' \<and> armed_ok w'"
proof (induction n arbitrary: w t)
  case (Suc n)
  obtain w1 t1 where 1: "worker_round env w t = (w1, t1)" by force
  from round_good [OF Suc.prems(1,2) 1] Suc show ?case by (auto simp: 1 split: if_splits)
qed simp

section \<open>The thread keeps it\<close>

lemma zero_good: "worker_good env (worker_zero a b rate) [] \<and> armed_ok (worker_zero a b rate)"
  using media_zero_ok
  by (simp add: worker_good_def worker_zero_def armed_ok_def media_good_def media_ok_def audio_ok_def
      media_zero_def audio_zero_def audio_view_def video_idle_def audio_idle_def)

lemma attempt_all_same: "list_all neutral cs \<Longrightarrow> attempt_all env cs t = (t', ok) \<Longrightarrow> same_hw env t t'"
proof (induction cs arbitrary: t)
  case (Cons c cs)
  then have first: "same_hw env t (t @ [c])" by simp
  with Cons show ?case by (auto simp: attempt_def split: if_splits intro: same_hw_trans [OF first])
qed simp

lemma announce_same: "announce_hook env name address others t = (t', ok) \<Longrightarrow> same_hw env t t'"
proof (cases "address AND 1 = 0")
  case False
  let ?cs = "map (\<lambda>(n, v). World (Write_Marker n v)) ((name, print_hex address) # others)"
  have "list_all neutral ?cs" by (auto simp: list_all_iff)
  then show "announce_hook env name address others t = (t', ok) \<Longrightarrow> same_hw env t t'"
    using attempt_all_same False unfolding announce_hook_def if_not_P [OF False] by blast
qed (simp add: announce_hook_def)

lemma give_up_same: "same_hw env t (give_up e t)"
  by (cases e) (simp_all add: give_up_def same_hw_trans [OF same_hw_note same_hw_note])

lemma remove_all_same: "same_hw env t (remove_all names t)"
  unfolding remove_all_def by (rule same_hw_list) (simp add: list_all_iff)

lemma start_good:
  assumes "worker_start env p q t = (w, t', ok)"
  shows "same_hw env t t' \<and> (\<exists>a b sender. w = (worker_zero a b (read_stream_frame_rate env))\<lparr>ptz_sender := sender\<rparr>)"
proof -
  obtain t1 seen where 1: "read_clock env t = (t1, seen)" by force
  obtain t2 animation where 2: "read_clock env t1 = (t2, animation)" by force
  let ?w = "worker_zero seen animation (read_stream_frame_rate env)"
  let ?t3 = "remove_all first_markers (note_call (World Read_Frame_Rate) t2)"
  obtain t4 exact where 4: "attempt env (World Resolve_Sites) ?t3 = (t4, exact)" by force
  obtain t5 ok5 where 5: "announce_hook env ''ptz.hook.address'' p
      [(''ptz.hook.ready'', ''camera-pass-through''), (''ptz.hook.mode'', ''camera''),
       (''runtime.mode'', ''camera-armed'')] t4 = (t5, ok5)" by force
  obtain t6 ok6 where 6: "announce_hook env ''audio.hook.address'' q
      [(''audio.hook.ready'', ''microphone-pass-through'')] t5 = (t6, ok6)" by force
  let ?t7 = "t6 @ [World (Store_Ptz_Mode PTZ_HOOK_CAMERA), Hook (Store_Pcm_Ring False),
      Hook (Store_Pcm_Mode AUDIO_PCM_PASS_THROUGH)]"
  obtain t8 sender where 8: "attempt env (World Open_Sender) ?t7 = (t8, sender)" by force
  obtain t9 ok9 where 9: "attempt env (World (Write_Marker ''injected.ready'' BUILD_ID)) t8 = (t9, ok9)" by force
  have same: "same_hw env t t2" using clock_same [OF 1] clock_same [OF 2] by (rule same_hw_trans)
  have "same_hw env t (note_call (World Read_Frame_Rate) t2)" by (rule same_hw_trans [OF same same_hw_note]) simp
  then have "same_hw env t ?t3" using remove_all_same by (rule same_hw_trans)
  then have s4: "same_hw env t t4" using attempt_same [OF _ 4] by (auto intro: same_hw_trans)
  have s5: "same_hw env t t5" by (rule same_hw_trans [OF s4 announce_same [OF 5]])
  have s6: "same_hw env t t6" by (rule same_hw_trans [OF s5 announce_same [OF 6]])
  have "same_hw env t6 ?t7" by (rule same_hw_list) simp
  with s6 have s7: "same_hw env t ?t7" by (rule same_hw_trans)
  have s8: "same_hw env t t8" by (rule same_hw_trans [OF s7 attempt_same [OF _ 8]]) simp
  have s9: "same_hw env t t9" by (rule same_hw_trans [OF s8 attempt_same [OF _ 9]]) simp
  have up: "same_hw env t (give_up e u)" if "same_hw env t u" for e u
    using that give_up_same by (rule same_hw_trans)
  have "worker_start env p q t = (if \<not> exact then (?w, give_up (Some ''exact-code-mismatch'') t4, False)
      else if \<not> ok5 then (?w, give_up (Some ''ptz-hook-init-failed'') t5, False)
      else if \<not> ok6 then (?w, give_up (Some ''audio-hook-init-failed'') t6, False)
      else if \<not> ok9 then (?w, give_up None t9, False) else (?w\<lparr>ptz_sender := sender\<rparr>, t9, True))"
    unfolding worker_start_def 1 Let_def prod.case 2 4 5 6 8 9 ..
  note run = this [unfolded assms]
  obtain v where v: "v = ?w" by blast
  from run have "(w, t') \<in> {(v, give_up (Some ''exact-code-mismatch'') t4), (v, give_up (Some ''ptz-hook-init-failed'') t5),
      (v, give_up (Some ''audio-hook-init-failed'') t6), (v, give_up None t9), (v\<lparr>ptz_sender := sender\<rparr>, t9)}"
    unfolding v [symmetric] by (simp split: if_split_asm)
  then have ended: "same_hw env t t' \<and> (w = v \<or> w = v\<lparr>ptz_sender := sender\<rparr>)"
    using up [OF s4] up [OF s5] up [OF s6] up [OF s9] s9 by blast
  have "?w = ?w\<lparr>ptz_sender := False\<rparr>" by (simp add: worker_zero_def)
  with ended show ?thesis unfolding v by blast
qed

lemma end_good:
  assumes "worker_good env w t" and "worker_end env w t = (w', t')"
  shows "worker_good env w' t' \<and> armed_ok w'"
proof -
  obtain w1 t1 ok where 1: "cleanup_both env w t = (w1, t1, ok)" by (metis prod_cases3)
  note g = cleanup_both_good [OF assms(1) 1]
  let ?t2 = "note_call (World (Store_Ptz_Mode PTZ_HOOK_OFF)) t1"
  let ?t3 = "if ptz_sender w1 then note_call (World Close_Sender) ?t2 else ?t2"
  have "worker_good env w1 ?t2" by (rule worker_note [OF conjunct1 [OF g]]) simp
  then have "worker_good env w1 ?t3" using worker_note by auto
  then have "worker_good env w1 (remove_all last_markers ?t3)"
    by (rule worker_same [OF _ remove_all_same]) simp_all
  then have "worker_good env w1 (note_call (World (Write_Marker ''thread.exited'' ''complete''))
      (remove_all last_markers ?t3))" by (rule worker_note) simp
  then show ?thesis
    using assms(2) unfolding worker_end_def 1 Let_def prod.case by (auto simp: armed_ok_def elim!: worker_fields)
qed

lemma worker_invariant:
  assumes "worker n env p q = (w, t)"
  shows "worker_good env w t \<and> armed_ok w"
proof -
  obtain w1 t1 ready where 1: "worker_start env p q [] = (w1, t1, ready)" by (metis prod_cases3)
  obtain w2 t2 where 2: "worker_loop n env w1 t1 = (w2, t2)" by force
  obtain w3 t3 where 3: "worker_end env w2 t2 = (w3, t3)" by force
  obtain a b sender where w1: "w1 = (worker_zero a b (read_stream_frame_rate env))\<lparr>ptz_sender := sender\<rparr>"
    using start_good [OF 1] by blast
  have g1: "worker_good env w1 t1"
    by (rule worker_same [OF conjunct1 [OF zero_good] conjunct1 [OF start_good [OF 1]]]) (simp_all add: w1)
  have a1: "armed_ok w1" using zero_good by (simp add: w1 armed_ok_def)
  note h2 = loop_good [OF g1 a1 2]
  note h3 = end_good [OF conjunct1 [OF h2] 3]
  show ?thesis using assms g1 a1 h2 h3 unfolding worker_def 1 Let_def prod.case 2 3 by (auto split: if_splits)
qed

section \<open>What the thread guarantees\<close>



text \<open>C5. After any number of rounds, the worker is never in the camera mode with the PTZ hook keeping
  the camera's moves for the game.\<close>

theorem camera_mode_passes:
  "\<not> (mode (w_control (fst (worker n env ptz audio))) = E1_RUNTIME_CAMERA_ARMED \<and>
      w_hook (fst (worker n env ptz audio)) = PTZ_HOOK_DOOM)"
proof -
  obtain w t where 1: "worker n env ptz audio = (w, t)" by force
  from worker_invariant [OF 1] show ?thesis by (auto simp: 1 armed_ok_def)
qed

lemma released_idle:
  assumes "worker_good env w t" and "\<not> audio_has_resources (w_audio w)" and "\<not> allocated (w_media w)"
    and "\<not> path_open (w_media w)"
  shows "video_of env t = video_idle \<and> audio_of env t = audio_idle"
  using assms
  by (auto simp: worker_good_def media_good_def media_ok_def audio_ok_def audio_view_def audio_has_resources_def
      video_idle_def audio_idle_def)

text \<open>The command \<open>quit\<close> ends the loop only when everything is released: if it is accepted, no memory,
  path, mapping or file is held any more, and if anything could not be released the worker goes on.\<close>

theorem quit_releases:
  assumes "worker_good env w t" and "\<not> w_quit w" and "execute_command env now Cmd_Quit w t = (w', t')"
    and "w_quit w'"
  shows "video_of env t' = video_idle \<and> audio_of env t' = audio_idle"
proof -
  obtain x u ok where 1: "cleanup_both env w t = (x, u, ok)" by (metis prod_cases3)
  note g = cleanup_both_good [OF assms(1) 1]
  from assms(2-4) g have "ok" "t' = u" by (auto simp: 1 split: if_splits)
  with g released_idle [of env x u] show ?thesis by blast
qed

lemma cleanup_media_succeeds:
  assumes "\<And>u. succeeds env u" and "media_ok env s t"
  shows "snd (snd (cleanup_media env s t))"
proof -
  have idle: "\<not> path_open s \<Longrightarrow> \<not> path_started s" using assms(2) by (auto simp: media_ok_def)
  then show ?thesis
    by (cases "path_started s"; cases "path_open s"; cases "allocated s")
      (simp_all add: cleanup_media_def stop_path_def close_path_def free_media_def attempt_def assms(1)
        case_prod_unfold Let_def)
qed

text \<open>An audio ring is opened only together with the hook that reads it.\<close>

lemma cleanup_audio_succeeds:
  assumes "\<And>u. succeeds env u" and "\<And>u. pcm_active (hook_at env u) = 0" and "audio_ok env s t"
    and "ring_fd s \<longrightarrow> stock_hook_used s"
  shows "snd (snd (cleanup_audio env s t))"
proof -
  have a: "attempt env c u = (u @ [c], True)" for c u by (simp add: attempt_def assms(1))
  have r: "retry_audio_path_call env c u = (u @ [c], True)" for c u
    by (simp add: retry_audio_path_call_def numeral_eq_Suc a)
  have q99: "quiesce (Suc 99) env u = (u @ [Hook Load_Pcm_Active], True)" for u
    unfolding quiesce.simps(2) by (simp add: assms(2) Let_def)
  have q: "quiesce 100 env u = (u @ [Hook Load_Pcm_Active], True)" for u
    using q99 [of u] by (simp del: quiesce.simps)
  obtain s1 t1 where stock: "(if stock_hook_active s \<or> stock_hook_used s then cleanup_stock_audio_hook env s t
      else (s, t, True)) = (s1, t1, True)"
    and s1: "\<not> stock_hook_active s1" "aenc_open s1 = aenc_open s" "aenc_started s1 = aenc_started s"
      "output_mapped s1 = output_mapped s" "\<not> ring_fd s1" "\<not> ring_mapped s1"
    using assms(3,4)
    by (cases "stock_hook_active s \<or> stock_hook_used s")
      (auto simp: cleanup_stock_audio_hook_def q audio_ok_def Let_def)
  have order: "aenc_started s \<longrightarrow> aenc_open s" "output_mapped s \<longrightarrow> aenc_open s"
    using assms(3) by (auto simp: audio_ok_def)
  show ?thesis
    unfolding cleanup_audio_def stock Let_def prod.case
    using s1 order
    by (cases "aenc_started s"; cases "output_mapped s"; cases "aenc_open s"; cases "pcm_allocated s1")
      (simp_all add: release_step_def a r audio_has_resources_def case_prod_unfold)
qed

text \<open>C7. The command \<open>quit\<close> is honoured: when the calls it makes succeed and no call is inside the
  audio hook, it is accepted and everything is released, whatever the worker was doing.\<close>

theorem quit_honoured:
  assumes "worker_good env w t" and "\<forall>u. succeeds env u" and "\<forall>u. pcm_active (hook_at env u) = 0"
    and "ring_fd (w_audio w) \<longrightarrow> stock_hook_used (w_audio w)"
    and "execute_command env now Cmd_Quit w t = (w', t')"
  shows "w_quit w' \<and> video_of env t' = video_idle \<and> audio_of env t' = audio_idle"
proof -
  obtain a t1 quiet where 1: "cleanup_audio env (w_audio w) t = (a, t1, quiet)" by (metis prod_cases3)
  obtain s t2 clean where 2: "cleanup_media env (w_media w) t1 = (s, t2, clean)" by (metis prod_cases3)
  have audio: "audio_ok env (w_audio w) t" using assms(1) by (simp add: worker_good_def)
  have quiet using cleanup_audio_succeeds [OF _ _ audio assms(4)] assms(2,3) by (simp add: 1)
  have "worker_good env (w\<lparr>w_audio := a\<rparr>) t1"
    using cleanup_audio_ok [OF audio 1] by (intro worker_audio [OF assms(1)]) simp_all
  then have clean using cleanup_media_succeeds [of env "w_media w" t1] assms(2)
    by (simp add: 2 worker_good_def media_good_def)
  with \<open>quiet\<close> have both: "cleanup_both env w t = (w\<lparr>w_audio := a, w_media := s\<rparr>, t2, True)"
    by (simp add: cleanup_both_def 1 2)
  note g = cleanup_both_good [OF assms(1) both]
  from both assms(5) have "w_quit w'" "t' = t2" by auto
  with g released_idle [of env _ t2] show ?thesis by blast
qed

text \<open>A world in which every call succeeds.\<close>

definition calm_env :: injected_env where
  "calm_env = \<lparr>succeeds = \<lambda>t. True, errno_at = \<lambda>t. 0, clock_at = \<lambda>t. 1000, address_at = \<lambda>t. 128,
     length_at = \<lambda>t. 128, camera_at = \<lambda>t. \<lparr>cf_yuv420 = True, cf_width = 0, cf_height = 0, cf_luma_pitch = 0,
       cf_chroma_pitch = 0, cf_luma_rows = 0, cf_chroma_rows = 0, cf_luma_address = 0, cf_chroma_address = 0\<rparr>,
     bitstream_at = \<lambda>t. \<lparr>bs_aac = False, bs_address = 0, bs_size = 0, bs_timestamp = 0\<rparr>,
     page_size = 4096, memory_at = \<lambda>t. [], buffer_at = \<lambda>t. init_framebuffer,
     slot_at_load = \<lambda>t n. zero_frame_slot, frame_at = \<lambda>t. steady_frame init_framebuffer,
     ring_at = \<lambda>t. fresh_ring, fresh_at = \<lambda>t n. 0, mtime_at = \<lambda>t. 0, command_at = \<lambda>t. Some ''quit'',
     configured_rate = None, hook_at = \<lambda>t. pcm pcm_start, ptz_active_at = \<lambda>t. 0, ptz_views_at = \<lambda>t. []\<rparr>"

lemma quit_honoured_witness:
  "\<exists>w t. execute_command calm_env 1000 Cmd_Quit (worker_zero 0 0 10) [] = (w, t) \<and> w_quit w \<and>
    video_of calm_env t = video_idle \<and> audio_of calm_env t = audio_idle"
proof -
  obtain w t where 1: "execute_command calm_env 1000 Cmd_Quit (worker_zero 0 0 10) [] = (w, t)" by force
  have "worker_good calm_env (worker_zero 0 0 10) []" by (rule conjunct1 [OF zero_good])
  from quit_honoured [OF this _ _ _ 1] 1 show ?thesis
    by (simp add: calm_env_def pcm_start_def worker_zero_def audio_zero_def)
qed

end
