(* ===== verification/Injector.thy ===== *)
theory Injector
  imports Patch_Site "HOL-Library.Monad_Syntax"
begin

text \<open>
  The injector, \<open>src/camera/e1-doom-injector.c\<close>: it finds the loader's slots in the ELF file of the
  device program, and calls a function in the running program through \<open>ptrace\<close>, on the program's own
  stack, putting registers and stack back afterwards. \<open>parse_pid\<close>, \<open>parse_u32\<close>, \<open>wait_stopped\<close>,
  \<open>read_remote\<close> and \<open>write_remote\<close> are the same code as in the supervisor, and its definitions are
  used. Only the memory this program touches is modelled; while the traced thread is stopped, nothing
  else writes the part of its stack below the stack pointer.
\<close>

section \<open>The slots of the loader's functions\<close>

text \<open>Reads of the mapped file; \<open>None\<close> is a read outside.\<close>

definition load_bytes :: "u8 list \<Rightarrow> nat \<Rightarrow> nat \<Rightarrow> u8 list option" where
  "load_bytes elf offset n = (if offset + n \<le> length elf then Some (take n (drop offset elf)) else None)"

definition load_le :: "u8 list \<Rightarrow> nat \<Rightarrow> nat \<Rightarrow> nat option" where
  "load_le elf offset n =
     map_option (\<lambda>bs. foldr (\<lambda>b v. unat b + 256 * v) bs 0) (load_bytes elf offset n)"

definition sizeof_ehdr :: nat where "sizeof_ehdr = 52"
definition sizeof_shdr :: nat where "sizeof_shdr = 40"
definition sizeof_rel :: nat where "sizeof_rel = 8"
definition sizeof_sym :: nat where "sizeof_sym = 16"
definition SHT_STRTAB :: nat where "SHT_STRTAB = 3"
definition SHT_REL :: nat where "SHT_REL = 9"
definition SHT_DYNSYM :: nat where "SHT_DYNSYM = 11"
definition R_ARM_JUMP_SLOT :: nat where "R_ARM_JUMP_SLOT = 22"

record elf_section =
  sh_type :: nat
  sh_offset :: nat
  sh_size :: nat
  sh_link :: nat
  sh_entsize :: nat

definition load_section :: "u8 list \<Rightarrow> nat \<Rightarrow> elf_section option" where
  "load_section elf pos =
     do { t \<leftarrow> load_le elf (pos + 4) 4; f \<leftarrow> load_le elf (pos + 16) 4; n \<leftarrow> load_le elf (pos + 20) 4;
          l \<leftarrow> load_le elf (pos + 24) 4; e \<leftarrow> load_le elf (pos + 36) 4;
          Some \<lparr>sh_type = t, sh_offset = f, sh_size = n, sh_link = l, sh_entsize = e\<rparr> }"

definition range_valid :: "nat \<Rightarrow> nat \<Rightarrow> nat \<Rightarrow> bool" where
  "range_valid offset len limit \<longleftrightarrow> offset \<le> limit \<and> len \<le> limit - offset"

text \<open>\<open>struct loader_got\<close>, and the three counts.\<close>

record loader_got =
  dlopen_slot :: nat
  dlclose_slot :: nat
  dlsym_slot :: nat

record got_scan =
  found :: loader_got
  dlopen_matches :: nat
  dlclose_matches :: nat
  dlsym_matches :: nat

definition no_loader :: loader_got where
  "no_loader = \<lparr>dlopen_slot = 0, dlclose_slot = 0, dlsym_slot = 0\<rparr>"

definition ascii :: "string \<Rightarrow> u8 list" where
  "ascii s = map of_char s"

definition note_slot :: "u8 list \<Rightarrow> nat \<Rightarrow> got_scan \<Rightarrow> got_scan" where
  "note_slot name offset s =
     (if name = ascii ''dlopen''
      then s\<lparr>found := (found s)\<lparr>dlopen_slot := offset\<rparr>, dlopen_matches := dlopen_matches s + 1\<rparr>
      else if name = ascii ''dlclose''
      then s\<lparr>found := (found s)\<lparr>dlclose_slot := offset\<rparr>, dlclose_matches := dlclose_matches s + 1\<rparr>
      else if name = ascii ''dlsym''
      then s\<lparr>found := (found s)\<lparr>dlsym_slot := offset\<rparr>, dlsym_matches := dlsym_matches s + 1\<rparr>
      else s)"

text \<open>A loop whose body may read outside.\<close>

fun each :: "('a \<Rightarrow> 's \<Rightarrow> 's option) \<Rightarrow> 'a list \<Rightarrow> 's \<Rightarrow> 's option" where
  "each f [] s = Some s"
| "each f (x # xs) s = do { s \<leftarrow> f x s; each f xs s }"

definition scan_relocation ::
    "u8 list \<Rightarrow> elf_section \<Rightarrow> elf_section \<Rightarrow> elf_section \<Rightarrow> nat \<Rightarrow> got_scan \<Rightarrow> got_scan option" where
  "scan_relocation elf relocs symbols strings i s =
     do { offset \<leftarrow> load_le elf (sh_offset relocs + i * sizeof_rel) 4;
          info \<leftarrow> load_le elf (sh_offset relocs + i * sizeof_rel + 4) 4;
          (if info mod 256 \<noteq> R_ARM_JUMP_SLOT \<or> info div 256 \<ge> sh_size symbols div sizeof_sym then Some s
           else
             do { name \<leftarrow> load_le elf (sh_offset symbols + info div 256 * sizeof_sym) 4;
                  (if name \<ge> sh_size strings then Some s
                   else
                     do { text \<leftarrow> load_bytes elf (sh_offset strings + name) (sh_size strings - name);
                          Some (if 0 \<notin> set text then s
                                else note_slot (takeWhile (\<lambda>b. b \<noteq> 0) text) offset s) }) }) }"

definition scan_section :: "u8 list \<Rightarrow> nat \<Rightarrow> nat \<Rightarrow> nat \<Rightarrow> got_scan \<Rightarrow> got_scan option" where
  "scan_section elf shoff shnum i s =
     do { relocs \<leftarrow> load_section elf (shoff + i * sizeof_shdr);
          (if sh_type relocs \<noteq> SHT_REL \<or> sh_entsize relocs \<noteq> sizeof_rel \<or> sh_link relocs \<ge> shnum \<or>
              \<not> range_valid (sh_offset relocs) (sh_size relocs) (length elf) then Some s
           else
             do { symbols \<leftarrow> load_section elf (shoff + sh_link relocs * sizeof_shdr);
                  (if sh_type symbols \<noteq> SHT_DYNSYM \<or> sh_entsize symbols \<noteq> sizeof_sym \<or> sh_link symbols \<ge> shnum \<or>
                      \<not> range_valid (sh_offset symbols) (sh_size symbols) (length elf) then Some s
                   else
                     do { strings \<leftarrow> load_section elf (shoff + sh_link symbols * sizeof_shdr);
                          (if sh_type strings \<noteq> SHT_STRTAB \<or>
                              \<not> range_valid (sh_offset strings) (sh_size strings) (length elf) then Some s
                           else each (scan_relocation elf relocs symbols strings)
                                  [0..<sh_size relocs div sizeof_rel] s) }) }) }"

definition header_ok :: "u8 list \<Rightarrow> bool" where
  "header_ok elf \<longleftrightarrow> take 4 elf = [0x7f, 0x45, 0x4c, 0x46] \<and> elf ! 4 = 1 \<and> elf ! 5 = 1 \<and>
     load_le elf 18 2 = Some 40 \<and> load_le elf 16 2 = Some 2 \<and>
     load_le elf 46 2 = Some sizeof_shdr \<and> load_le elf 48 2 \<noteq> Some 0"

text \<open>The elf is \<open>None\<close> when the file cannot be opened or mapped.\<close>

definition resolve_loader_got :: "u8 list option \<Rightarrow> (loader_got \<times> int) option" where
  "resolve_loader_got file =
     (case file of
        None \<Rightarrow> Some (no_loader, -1)
      | Some elf \<Rightarrow>
          if length elf < sizeof_ehdr \<or> \<not> header_ok elf then Some (no_loader, -1)
          else
            do { shoff \<leftarrow> load_le elf 32 4; shnum \<leftarrow> load_le elf 48 2;
                 (if \<not> range_valid shoff (shnum * sizeof_shdr) (length elf) then Some (no_loader, -1)
                  else
                    do { s \<leftarrow> each (scan_section elf shoff shnum) [0..<shnum]
                           \<lparr>found = no_loader, dlopen_matches = 0, dlclose_matches = 0, dlsym_matches = 0\<rparr>;
                         Some (found s,
                           if dlopen_matches s = 1 \<and> dlclose_matches s = 1 \<and> dlsym_matches s = 1 \<and>
                              dlopen_slot (found s) \<ge> 0x10000 \<and> dlclose_slot (found s) \<ge> 0x10000 \<and>
                              dlsym_slot (found s) \<ge> 0x10000 then 0 else -1) }) })"

section \<open>The target\<close>

record arm_regs =
  arm_r0 :: u32
  arm_r1 :: u32
  arm_sp :: u32
  arm_lr :: u32
  arm_pc :: u32
  arm_cpsr :: u32
  arm_others :: "u32 list"

record target =
  tg_mem :: memory
  tg_regs :: arm_regs
  tg_attached :: bool
  tg_stopped :: bool

definition ARM_BREAKPOINT_WORD :: u32 where "ARM_BREAKPOINT_WORD = 0xe1200070"
definition ARM_RETURN_SENTINEL :: u32 where "ARM_RETURN_SENTINEL = 0"
definition ARM_CPSR_T :: u32 where "ARM_CPSR_T = 0x20"
definition SCRATCH_SIZE :: nat where "SCRATCH_SIZE = 0x3000"
definition CALL_STACK_GAP :: u32 where "CALL_STACK_GAP = 0x1000"
definition PATH_GAP :: nat where "PATH_GAP = 0x200"

text \<open>A mapping that holds the whole word at an address.\<close>

definition mapping_holds :: "u32 \<Rightarrow> char \<Rightarrow> string option \<Rightarrow> maps_line \<Rightarrow> bool" where
  "mapping_holds address permission path l \<longleftrightarrow>
     (case map_fields l of None \<Rightarrow> False
      | Some (start, end_address, perms) \<Rightarrow>
          unat address \<ge> start \<and> unat address + 4 \<le> end_address \<and> permission \<in> set perms \<and>
          (case path of None \<Rightarrow> True | Some p \<Rightarrow> contains (line_text l) p))"

definition address_in_mapping :: "maps_line list option \<Rightarrow> u32 \<Rightarrow> char \<Rightarrow> string option \<Rightarrow> bool" where
  "address_in_mapping maps address permission path =
     (case maps of None \<Rightarrow> False | Some ls \<Rightarrow> list_ex (mapping_holds address permission path) ls)"

text \<open>What \<open>waitpid\<close> reports while the called function runs: nothing yet, an interrupted wait, an error,
  a status that is no stop, or a stop by a signal.\<close>

datatype remote_report = Rr_Nothing | Rr_Interrupted | Rr_Error | Rr_Not_Stopped | Rr_Stopped int

definition SIGSEGV :: int where "SIGSEGV = 11"

text \<open>What the outside does during one call. \<open>cw_maps\<close> is indexed by the use of the mappings, the sets of
  offsets say at which offsets of a run the peeks or pokes succeed, and \<open>cw_run\<close> is what the target's
  thread does from the moment it is continued until it stops again.\<close>

record call_world =
  cw_exe :: "string option"
  cw_seize :: bool
  cw_interrupt :: bool
  cw_waits :: "wait_report list"
  cw_failed_detach :: bool
  cw_sentinel_mapped :: bool
  cw_getregs :: bool
  cw_maps :: "nat \<Rightarrow> maps_line list option"
  cw_peek_slot :: "nat \<Rightarrow> nat \<Rightarrow> bool"
  cw_malloc :: bool
  cw_peek_stack :: "nat \<Rightarrow> bool"
  cw_poke_call :: "nat \<Rightarrow> bool"
  cw_setregs :: bool
  cw_cont :: bool
  cw_run :: "memory \<times> arm_regs \<Rightarrow> memory \<times> arm_regs"
  cw_reports :: "remote_report list"
  cw_getregs_after :: bool
  cw_late_interrupt :: bool
  cw_late_waits :: "wait_report list"
  cw_poke_restore :: "nat \<Rightarrow> bool"
  cw_setregs_back :: bool
  cw_detach :: bool

definition verify_target :: "call_world \<Rightarrow> bool" where
  "verify_target w \<longleftrightarrow> verify_executable (cw_exe w) DEVICE_TARGET"

definition attach_target :: "call_world \<Rightarrow> target \<Rightarrow> target \<times> bool" where
  "attach_target w t =
     (if \<not> cw_seize w then (t, False)
      else if \<not> cw_interrupt w \<or> wait_stopped (cw_waits w) \<noteq> Stop_Ok
      then (t\<lparr>tg_attached := \<not> cw_failed_detach w\<rparr>, False)
      else (t\<lparr>tg_attached := True, tg_stopped := True\<rparr>, True))"

text \<open>Whether the target has stopped, and the result.\<close>

fun wait_for_remote_return :: "bool \<Rightarrow> arm_regs \<Rightarrow> remote_report list \<Rightarrow> bool \<times> int" where
  "wait_for_remote_return getregs regs [] = (False, -1)"
| "wait_for_remote_return getregs regs (Rr_Nothing # rs) = wait_for_remote_return getregs regs rs"
| "wait_for_remote_return getregs regs (Rr_Interrupted # rs) = wait_for_remote_return getregs regs rs"
| "wait_for_remote_return getregs regs (Rr_Error # rs) = (False, -1)"
| "wait_for_remote_return getregs regs (Rr_Not_Stopped # rs) = (False, -1)"
| "wait_for_remote_return getregs regs (Rr_Stopped sig # rs) =
     (True, if \<not> getregs \<or> sig \<noteq> SIGSEGV \<or> arm_pc regs \<noteq> ARM_RETURN_SENTINEL then -1 else 0)"

section \<open>The call\<close>

definition scratch_base :: "arm_regs \<Rightarrow> u32" where
  "scratch_base regs = (arm_sp regs - word_of_nat SCRATCH_SIZE) AND NOT 7"

definition remote_string_address :: "arm_regs \<Rightarrow> u32" where
  "remote_string_address regs = (arm_sp regs - word_of_nat PATH_GAP) AND NOT 3"

text \<open>The stack for the call and the two arguments, or \<open>None\<close> when the string does not fit.\<close>

definition place_string ::
    "arm_regs \<Rightarrow> u8 list \<Rightarrow> string option \<Rightarrow> int \<Rightarrow> u32 \<times> u32 \<Rightarrow> (u8 list \<times> u32 \<times> u32) option" where
  "place_string regs stack remote_string arg args =
     (case remote_string of
        None \<Rightarrow> Some (stack, args)
      | Some s \<Rightarrow>
          (let bytes = ascii s @ [0]; offset = unat (remote_string_address regs - scratch_base regs)
           in if length bytes > PATH_GAP \<or> offset + length bytes > SCRATCH_SIZE then None
              else if arg = 0 then Some (take offset stack @ bytes @ drop (offset + length bytes) stack,
                     remote_string_address regs, snd args)
              else if arg = 1 then Some (take offset stack @ bytes @ drop (offset + length bytes) stack,
                     fst args, remote_string_address regs)
              else None))"

definition call_registers :: "arm_regs \<Rightarrow> u32 \<Rightarrow> u32 \<times> u32 \<Rightarrow> arm_regs" where
  "call_registers regs function args =
     regs\<lparr>arm_r0 := fst args, arm_r1 := snd args,
          arm_sp := (arm_sp regs - CALL_STACK_GAP) AND NOT 7, arm_lr := ARM_RETURN_SENTINEL,
          arm_pc := function AND NOT 1,
          arm_cpsr := (if function AND 1 \<noteq> 0 then arm_cpsr regs OR ARM_CPSR_T
                       else arm_cpsr regs AND NOT ARM_CPSR_T)\<rparr>"

text \<open>The state at the label \<open>done\<close>: the target, the registers and the stack to put back, and the value
  when the call has returned.\<close>

record call_end =
  ce_target :: target
  ce_registers :: "arm_regs option"
  ce_stack :: "u8 list option"
  ce_value :: "u32 option"

definition call_at_done :: "target \<Rightarrow> arm_regs option \<Rightarrow> call_end" where
  "call_at_done t regs = \<lparr>ce_target = t, ce_registers = regs, ce_stack = None, ce_value = None\<rparr>"

text \<open>From the moment the stack is written.\<close>

definition run_remote ::
    "call_world \<Rightarrow> u32 \<Rightarrow> u32 \<times> u32 \<Rightarrow> u8 list \<Rightarrow> u8 list \<Rightarrow> target \<Rightarrow> call_end" where
  "run_remote w function args saved stack t =
     (let regs = tg_regs t; back = \<lparr>ce_target = t, ce_registers = Some regs, ce_stack = Some saved, ce_value = None\<rparr>;
          (mem, written) = write_remote (\<lambda>_. True) (cw_poke_call w) (tg_mem t) (scratch_base regs) stack 0;
          t = t\<lparr>tg_mem := mem\<rparr>
      in if \<not> written \<or> \<not> cw_setregs w then back\<lparr>ce_target := t\<rparr>
         else
           (let t = t\<lparr>tg_regs := call_registers regs function args\<rparr>
            in if \<not> cw_cont w then back\<lparr>ce_target := t\<rparr>
               else
                 (let (mem, after) = cw_run w (tg_mem t, tg_regs t);
                      (stopped_now, returned) = wait_for_remote_return (cw_getregs_after w) after (cw_reports w);
                      late = cw_late_interrupt w \<and> wait_stopped (cw_late_waits w) = Stop_Ok;
                      t = t\<lparr>tg_mem := mem, tg_regs := after, tg_stopped := stopped_now \<or> (returned \<noteq> 0 \<and> late)\<rparr>
                  in back\<lparr>ce_target := t, ce_value := (if returned = 0 then Some (arm_r0 after) else None)\<rparr>)))"

definition call_body ::
    "call_world \<Rightarrow> u32 \<Rightarrow> bool \<Rightarrow> u32 \<times> u32 \<Rightarrow> string option \<Rightarrow> int \<Rightarrow> target \<Rightarrow> call_end" where
  "call_body w source is_got args remote_string arg t =
     (if cw_sentinel_mapped w \<or> \<not> cw_getregs w then call_at_done t None
      else
        let regs = tg_regs t;
            slot = (if is_got
              then (if address_in_mapping (cw_maps w 0) source CHR ''w'' (Some DEVICE_TARGET)
                    then map_option (\<lambda>bs. read_u32_le bs 0)
                           (read_remote (cw_peek_slot w 0) (tg_mem t) source 4 0) else None)
              else Some source)
        in case slot of
             None \<Rightarrow> call_at_done t (Some regs)
           | Some function \<Rightarrow>
               if function < 0x10000 \<or>
                  \<not> address_in_mapping (cw_maps w 1) (function AND NOT 1) CHR ''x'' None \<or>
                  arm_sp regs < word_of_nat SCRATCH_SIZE + 0x10000
               then call_at_done t (Some regs)
               else
                 (case (if cw_malloc w then read_remote (cw_peek_stack w) (tg_mem t) (scratch_base regs) SCRATCH_SIZE 0
                        else None) of
                    None \<Rightarrow> call_at_done t (Some regs)
                  | Some saved \<Rightarrow>
                      (case place_string regs saved remote_string arg args of
                         None \<Rightarrow> call_at_done t (Some regs)
                       | Some (stack, args) \<Rightarrow> run_remote w function args saved stack t)))"

text \<open>The label \<open>done\<close> after an attach: stack, registers, detach. The result is the code's.\<close>

definition call_done :: "call_world \<Rightarrow> call_end \<Rightarrow> target \<times> int \<times> u32 option" where
  "call_done w e =
     (let t = ce_target e; result = (if ce_value e = None then -1 else 0);
          (t, result) =
            (case (ce_stack e, ce_registers e) of
               (Some saved, Some regs) \<Rightarrow>
                 (if \<not> tg_stopped t then (t, -1)
                  else (let (mem, ok) = write_remote (\<lambda>_. True) (cw_poke_restore w) (tg_mem t)
                              (scratch_base regs) saved 0
                        in (t\<lparr>tg_mem := mem\<rparr>, if ok then result else -1)))
             | _ \<Rightarrow> (t, result));
          (t, result) =
            (case ce_registers e of
               Some regs \<Rightarrow> (if tg_stopped t \<and> cw_setregs_back w then (t\<lparr>tg_regs := regs\<rparr>, result) else (t, -1))
             | None \<Rightarrow> (t, result))
      in if \<not> tg_stopped t \<or> \<not> cw_detach w then (t, -1, ce_value e)
         else (t\<lparr>tg_attached := False, tg_stopped := False\<rparr>, result, ce_value e))"

definition remote_call ::
    "call_world \<Rightarrow> u32 \<Rightarrow> bool \<Rightarrow> u32 \<times> u32 \<Rightarrow> string option \<Rightarrow> int \<Rightarrow> target \<Rightarrow> target \<times> int \<times> u32 option" where
  "remote_call w source is_got args remote_string arg t =
     (if \<not> verify_target w then (t, -1, None)
      else (let (t, attached) = attach_target w t
            in if \<not> attached then (t, -1, None)
               else call_done w (call_body w source is_got args remote_string arg t)))"

section \<open>The other commands\<close>

text \<open>Each slot, and the function it holds.\<close>

definition probe_slot :: "call_world \<Rightarrow> nat \<Rightarrow> nat \<Rightarrow> target \<Rightarrow> u32 option" where
  "probe_slot w i address t =
     (if address_in_mapping (cw_maps w 0) (word_of_nat address) CHR ''w'' (Some DEVICE_TARGET)
      then map_option (\<lambda>bs. read_u32_le bs 0)
             (read_remote (cw_peek_slot w i) (tg_mem t) (word_of_nat address) 4 0)
      else None)"

definition outside_device :: "call_world \<Rightarrow> u32 \<Rightarrow> bool" where
  "outside_device w f \<longleftrightarrow> \<not> address_in_mapping (cw_maps w 1) (f AND NOT 1) CHR ''x'' (Some DEVICE_TARGET)"

definition probe :: "call_world \<Rightarrow> loader_got \<Rightarrow> target \<Rightarrow> target \<times> int" where
  "probe w l t =
     (if \<not> verify_target w then (t, 1)
      else (let (t, attached) = attach_target w t
            in if \<not> attached then (t, 1)
               else
                 (let result =
                    (case (probe_slot w 0 (dlopen_slot l) t, probe_slot w 1 (dlclose_slot l) t,
                           probe_slot w 2 (dlsym_slot l) t) of
                       (Some o1, Some c, Some s) \<Rightarrow>
                         (if list_all (\<lambda>f. f \<ge> 0x10000 \<and>
                               address_in_mapping (cw_maps w 1) (f AND NOT 1) CHR ''x'' None) [o1, c, s] \<and>
                             outside_device w o1 \<and> outside_device w s then 0 else 1)
                     | _ \<Rightarrow> 1)
                  in if cw_detach w then (t\<lparr>tg_attached := False, tg_stopped := False\<rparr>, result) else (t, 1))))"

text \<open>The last result: whether the marker of the patch is removed.\<close>

definition restore_word :: "call_world \<Rightarrow> u32 \<Rightarrow> u32 \<Rightarrow> target \<Rightarrow> target \<times> int \<times> bool" where
  "restore_word w address original_word t =
     (if \<not> verify_target w then (t, 1, False)
      else (let (t, attached) = attach_target w t
            in if \<not> attached then (t, 1, False)
               else
                 (let (t, result) =
                    (case map_option (\<lambda>bs. read_u32_le bs 0) (read_remote (cw_peek_slot w 0) (tg_mem t) address 4 0) of
                       None \<Rightarrow> (t, 1)
                     | Some current \<Rightarrow>
                         (if current = original_word then (t, 0)
                          else if current = ARM_BREAKPOINT_WORD
                          then (let (mem, ok) = write_remote (\<lambda>_. True) (cw_poke_restore w) (tg_mem t) address
                                      (u32_bytes original_word) 0
                                in (t\<lparr>tg_mem := mem\<rparr>, if ok then 0 else 1))
                          else (t, 1)));
                      (t, result) = (if cw_detach w
                        then (t\<lparr>tg_attached := False, tg_stopped := False\<rparr>, result) else (t, 1))
                  in (t, result, result = 0))))"

definition DEVICE_DLCLOSE_PLT :: u32 where "DEVICE_DLCLOSE_PLT = 0x0001ba20"
definition DEVICE_DLSYM_PLT :: u32 where "DEVICE_DLSYM_PLT = 0x0001bd1c"
definition DEVICE_PLT_FIRST_WORD :: u32 where "DEVICE_PLT_FIRST_WORD = 0xe28fc603"

text \<open>The unloading: the address of \<open>dlclose\<close> is asked for, checked against the mappings \<open>maps\<close> and called.\<close>

definition unload ::
    "call_world \<Rightarrow> call_world \<Rightarrow> maps_line list option \<Rightarrow> loader_got \<Rightarrow> u32 \<Rightarrow> target \<Rightarrow> target \<times> int" where
  "unload w1 w2 maps l handle t =
     (let (t, r, v) = remote_call w1 (word_of_nat (dlsym_slot l)) True (0, 0) (Some ''dlclose'') 1 t
      in case v of
           None \<Rightarrow> (t, 1)
         | Some f \<Rightarrow>
             (if r \<noteq> 0 \<or> f < 0x10000 \<or> \<not> address_in_mapping maps (f AND NOT 1) CHR ''x'' None \<or>
                 address_in_mapping maps (f AND NOT 1) CHR ''x'' (Some DEVICE_TARGET) then (t, 1)
              else (let (t, r, v) = remote_call w2 f False (handle, 0) None (-1) t
                    in (t, if r \<noteq> 0 \<or> v \<noteq> Some 0 then 1 else 0))))"

text \<open>\<open>main\<close>: the target and the exit code.\<close>

definition injector_main ::
    "u8 list option \<Rightarrow> call_world \<Rightarrow> call_world \<Rightarrow> maps_line list option \<Rightarrow> string list \<Rightarrow> target \<Rightarrow> target \<times> int" where
  "injector_main file w1 w2 maps argv t =
     (let loader = (case resolve_loader_got file of Some (l, r) \<Rightarrow> if r = 0 then Some l else None | None \<Rightarrow> None)
      in case argv of
           [_, command, pid] \<Rightarrow>
             (if command = ''--probe'' \<and> parse_pid pid \<noteq> None
              then (case loader of None \<Rightarrow> (t, 1) | Some l \<Rightarrow> probe w1 l t) else (t, 2))
         | [_, command, pid, arg] \<Rightarrow>
             (if command = ''--load'' \<and> parse_pid pid \<noteq> None \<and> take 1 arg = ''/''
              then (case loader of
                      None \<Rightarrow> (t, 1)
                    | Some l \<Rightarrow>
                        (let (t, r, v) = remote_call w1 (word_of_nat (dlopen_slot l)) True (0, 2) (Some arg) 0 t
                         in (t, if r \<noteq> 0 \<or> v = Some 0 then 1 else 0)))
              else if command = ''--unload'' \<and> parse_pid pid \<noteq> None \<and> parse_u32 arg \<noteq> None \<and>
                parse_u32 arg \<noteq> Some 0
              then (case (loader, parse_u32 arg) of
                      (Some l, Some handle) \<Rightarrow> unload w1 w2 maps l handle t | _ \<Rightarrow> (t, 1))
              else (t, 2))
         | [_, command, pid, arg1, arg2] \<Rightarrow>
             (if command = ''--restore-word'' \<and> parse_pid pid \<noteq> None
              then (case (parse_u32 arg1, parse_u32 arg2) of
                      (Some address, Some word) \<Rightarrow>
                        (if (address = DEVICE_DLCLOSE_PLT \<or> address = DEVICE_DLSYM_PLT) \<and>
                            word = DEVICE_PLT_FIRST_WORD
                         then (let (t, r, _) = restore_word w1 address word t in (t, r)) else (t, 2))
                    | _ \<Rightarrow> (t, 2))
              else (t, 2))
         | _ \<Rightarrow> (t, 2))"

section \<open>Every read of the file is inside\<close>

definition inside :: "'a option \<Rightarrow> bool" where
  "inside m \<longleftrightarrow> m \<noteq> None"

lemma inside_Some [intro]: "inside (Some x)"
  by (simp add: inside_def)

lemma inside_bind: "inside m \<Longrightarrow> (\<And>x. inside (f x)) \<Longrightarrow> inside (Option.bind m f)"
  by (cases m) (simp_all add: inside_def)

lemma inside_if: "(\<not> c \<Longrightarrow> inside b) \<Longrightarrow> inside a \<Longrightarrow> inside (if c then a else b)"
  by simp

lemma load_bytes_inside: "offset + n \<le> length elf \<Longrightarrow> inside (load_bytes elf offset n)"
  by (simp add: load_bytes_def inside_def)

lemma load_le_inside: "offset + n \<le> length elf \<Longrightarrow> inside (load_le elf offset n)"
  by (simp add: load_le_def load_bytes_def inside_def)

lemma load_section_inside: "pos + sizeof_shdr \<le> length elf \<Longrightarrow> inside (load_section elf pos)"
  unfolding load_section_def sizeof_shdr_def by (intro inside_bind inside_Some load_le_inside) simp_all

lemma each_inside: "(\<And>x s. x \<in> set xs \<Longrightarrow> inside (f x s)) \<Longrightarrow> inside (each f xs s)"
  by (induction xs arbitrary: s) (auto intro!: inside_bind)

text \<open>An entry of a table inside the file.\<close>

lemma entry_inside:
  "range_valid offset n limit \<Longrightarrow> i < n div k \<Longrightarrow> offset + i * k + k \<le> limit" for k :: nat
proof -
  assume "range_valid offset n limit" and i: "i < n div k"
  then have "offset + n \<le> limit" by (auto simp: range_valid_def)
  moreover have "i * k + k \<le> n"
  proof -
    have "(i + 1) * k \<le> n div k * k" using i by (intro mult_le_mono1) simp
    also have "\<dots> \<le> n" by simp
    finally show ?thesis by (simp add: algebra_simps)
  qed
  ultimately show ?thesis by simp
qed

lemma scan_relocation_inside:
  assumes "range_valid (sh_offset relocs) (sh_size relocs) (length elf)"
    and "range_valid (sh_offset symbols) (sh_size symbols) (length elf)"
    and "range_valid (sh_offset strings) (sh_size strings) (length elf)" and "i < sh_size relocs div sizeof_rel"
  shows "inside (scan_relocation elf relocs symbols strings i s)"
proof -
  have r: "sh_offset relocs + i * sizeof_rel + 8 \<le> length elf"
    using entry_inside [OF assms(1,4)] by (simp add: sizeof_rel_def)
  have s: "inside (load_le elf (sh_offset symbols + j * sizeof_sym) 4)"
    if "\<not> (c \<or> sh_size symbols div sizeof_sym \<le> j)" for c j
    using entry_inside [OF assms(2), of j sizeof_sym] that by (intro load_le_inside) (simp add: sizeof_sym_def)
  have t: "inside (load_bytes elf (sh_offset strings + n) (sh_size strings - n))" if "\<not> sh_size strings \<le> n" for n
    using assms(3) that by (intro load_bytes_inside) (auto simp: range_valid_def)
  have o: "inside (load_le elf (sh_offset relocs + i * sizeof_rel) 4)"
    "inside (load_le elf (sh_offset relocs + i * sizeof_rel + 4) 4)"
    using r by (auto intro: load_le_inside)
  show ?thesis
    unfolding scan_relocation_def by (intro inside_bind o inside_if inside_Some; (erule s t)?)
qed

lemma section_inside:
  "range_valid shoff (shnum * sizeof_shdr) limit \<Longrightarrow> i < shnum \<Longrightarrow> shoff + i * sizeof_shdr + sizeof_shdr \<le> limit"
  using entry_inside [of shoff "shnum * sizeof_shdr" limit i sizeof_shdr] by (simp add: sizeof_shdr_def)

lemma scan_section_inside:
  assumes "range_valid shoff (shnum * sizeof_shdr) (length elf)" and "i < shnum"
  shows "inside (scan_section elf shoff shnum i s)"
proof -
  have load: "inside (load_section elf (shoff + j * sizeof_shdr))" if "j < shnum" for j
    by (intro load_section_inside section_inside [OF assms(1) that])
  show ?thesis
    unfolding scan_section_def
    by (intro inside_bind inside_if inside_Some load each_inside scan_relocation_inside) (use assms(2) in auto)
qed

text \<open>Whatever the device file contains, the search for the loader's slots reads nothing outside of
  it: section headers, relocations, symbols and names are inside the file wherever the search looks.\<close>

theorem loader_search_in_bounds:
  "resolve_loader_got device_file \<noteq> None"
proof (cases device_file)
  case (Some elf)
  show ?thesis
  proof (cases "length elf < sizeof_ehdr \<or> \<not> header_ok elf")
    case False
    then have "inside (load_le elf 32 4)" "inside (load_le elf 48 2)"
      by (auto intro!: load_le_inside simp: sizeof_ehdr_def)
    then have "inside (resolve_loader_got device_file)"
      unfolding resolve_loader_got_def Some option.case if_not_P [OF False]
      by (intro inside_bind inside_if inside_Some each_inside scan_section_inside) auto
    then show ?thesis by (simp add: inside_def)
  qed (simp add: resolve_loader_got_def Some)
qed (simp add: resolve_loader_got_def)

section \<open>Runs of peeks and pokes\<close>

lemma read_run:
  "read_remote ok mem a n offset = Some bs \<Longrightarrow> bs = map (\<lambda>i. mem (a + word_of_nat i)) [offset..<n]"
proof (induction ok mem a n offset arbitrary: bs rule: read_remote.induct)
  case (1 ok mem a n offset)
  let ?k = "min sizeof_long (n - offset)"
  show ?case
  proof (cases "offset < n")
    case True
    with 1(2) obtain rest where rest: "read_remote ok mem a n (offset + ?k) = Some rest"
        and bs: "bs = bytes_at mem (a + word_of_nat offset) ?k @ rest" and "ok offset"
      by (subst (asm) read_remote.simps) (auto simp: Let_def split: if_splits)
    have "rest = map (\<lambda>i. mem (a + word_of_nat i)) [offset + ?k..<n]"
      using 1(1) True \<open>ok offset\<close> rest by simp
    moreover have "bytes_at mem (a + word_of_nat offset) ?k = map (\<lambda>i. mem (a + word_of_nat i)) [offset..<offset + ?k]"
      by (rule nth_equalityI) (simp_all add: bytes_at_def add.assoc)
    moreover have "[offset..<offset + ?k] @ [offset + ?k..<n] = [offset..<n]"
      using upt_add_eq_append [of offset "offset + ?k" "n - (offset + ?k)"] True by simp
    ultimately show ?thesis using bs by (simp flip: map_append)
  next
    case False
    with 1(2) show ?thesis by (subst (asm) read_remote.simps) simp
  qed
qed

lemma unat_between:
  fixes x a :: u32
  assumes "offset + 4 \<le> 2 ^ 32"
  shows "unat (x - (a + word_of_nat offset)) < 4 \<longleftrightarrow> offset \<le> unat (x - a) \<and> unat (x - a) < offset + 4"
    and "offset \<le> unat (x - a) \<Longrightarrow> unat (x - (a + word_of_nat offset)) = unat (x - a) - offset"
proof -
  have e: "x - (a + word_of_nat offset) = (x - a) - word_of_nat offset" by simp
  have o: "unat (word_of_nat offset :: u32) = offset" using assms by (simp add: unat_of_nat)
  have k: "unat (x - a) < 2 ^ 32" using unsigned_less [of "x - a"] by simp
  have d: "unat (x - (a + word_of_nat offset)) = (if offset \<le> unat (x - a) then unat (x - a) - offset
      else unat (x - a) + 2 ^ 32 - offset)"
    unfolding e by (simp add: unat_sub_if' o)
  show "unat (x - (a + word_of_nat offset)) < 4 \<longleftrightarrow> offset \<le> unat (x - a) \<and> unat (x - a) < offset + 4"
    unfolding d using assms k by auto
  show "offset \<le> unat (x - a) \<Longrightarrow> unat (x - (a + word_of_nat offset)) = unat (x - a) - offset"
    unfolding d by simp
qed

text \<open>A run of whole words, word by word.\<close>

lemma write_word:
  assumes "offset + 4 \<le> length bytes"
  shows "write_remote pk po mem a bytes offset =
    (if po offset
     then write_remote pk po (store_bytes mem (a + word_of_nat offset) (take 4 (drop offset bytes))) a bytes (offset + 4)
     else (mem, False))"
proof -
  have n: "min sizeof_long (length bytes - offset) = 4" using assms by (simp add: sizeof_long_def)
  show ?thesis using assms by (subst write_remote.simps) (simp add: n Let_def sizeof_long_def bytes_at_def)
qed

lemma write_end: "\<not> offset < length bytes \<Longrightarrow> write_remote pk po mem a bytes offset = (mem, True)"
  by (subst write_remote.simps) simp

lemma next_word: "4 dvd n \<Longrightarrow> 4 dvd offset \<Longrightarrow> offset < n \<Longrightarrow> offset + 4 \<le> n" for n offset :: nat
  by (auto elim!: dvdE)

text \<open>Outside of the run nothing changes, and a run that succeeds has stored every byte.\<close>

lemma write_run:
  assumes "4 dvd length bytes" and "length bytes \<le> 2 ^ 32"
  shows "4 dvd offset \<Longrightarrow> write_remote pk po mem a bytes offset = (mem', ok) \<Longrightarrow>
    (\<forall>x. length bytes \<le> unat (x - a) \<longrightarrow> mem' x = mem x) \<and>
    (ok \<longrightarrow> (\<forall>x. unat (x - a) < length bytes \<longrightarrow>
        mem' x = (if offset \<le> unat (x - a) then bytes ! unat (x - a) else mem x)))"
proof (induction "length bytes - offset" arbitrary: mem offset rule: less_induct)
  case less
  show ?case
  proof (cases "offset < length bytes")
    case False
    with less(3) show ?thesis by (auto simp: write_end)
  next
    case True
    then have four: "offset + 4 \<le> length bytes" by (rule next_word [OF assms(1) less(2)])
    define word where "word = take 4 (drop offset bytes)"
    have len: "length word = 4" using four by (simp add: word_def)
    let ?mem = "store_bytes mem (a + word_of_nat offset) word"
    note step = write_word [OF four, of pk po mem a, folded word_def]
    show ?thesis
    proof (cases "po offset")
      case False
      with less(3) step show ?thesis by auto
    next
      case poked: True
      have run: "write_remote pk po ?mem a bytes (offset + 4) = (mem', ok)" using less(3) step poked by simp
      have ih: "(\<forall>x. length bytes \<le> unat (x - a) \<longrightarrow> mem' x = ?mem x) \<and>
          (ok \<longrightarrow> (\<forall>x. unat (x - a) < length bytes \<longrightarrow>
            mem' x = (if offset + 4 \<le> unat (x - a) then bytes ! unat (x - a) else ?mem x)))"
        using less(1) [OF _ _ run] True less(2) by simp
      have small: "offset + 4 \<le> 2 ^ 32" using four assms(2) by simp
      have at: "?mem x = (if offset \<le> unat (x - a) \<and> unat (x - a) < offset + 4 then bytes ! unat (x - a) else mem x)" for x
      proof (cases "offset \<le> unat (x - a) \<and> unat (x - a) < offset + 4")
        case True
        moreover from True have "word ! (unat (x - a) - offset) = bytes ! unat (x - a)"
          using four by (simp add: word_def less_diff_conv2)
        ultimately show ?thesis using unat_between [OF small, of x a] by (simp add: store_bytes_def len)
      next
        case False
        then show ?thesis using unat_between(1) [OF small, of x a] by (auto simp: store_bytes_def len)
      qed
      show ?thesis
      proof (intro conjI allI impI)
        fix x
        assume "length bytes \<le> unat (x - a)"
        with ih four show "mem' x = mem x" by (simp add: at)
      next
        fix x
        assume "ok" and "unat (x - a) < length bytes"
        with ih show "mem' x = (if offset \<le> unat (x - a) then bytes ! unat (x - a) else mem x)"
          by (simp add: at)
      qed
    qed
  qed
qed

lemma write_succeeds:
  assumes "4 dvd length bytes" and "\<And>i. po i"
  shows "4 dvd offset \<Longrightarrow> snd (write_remote pk po mem a bytes offset)"
proof (induction "length bytes - offset" arbitrary: mem offset rule: less_induct)
  case less
  show ?case
  proof (cases "offset < length bytes")
    case True
    then have four: "offset + 4 \<le> length bytes" by (rule next_word [OF assms(1) less(2)])
    have "4 dvd offset + 4" using less(2) by simp
    from less(1) [OF _ this] True show ?thesis by (simp add: write_word [OF four] assms(2))
  qed (simp add: write_end)
qed

section \<open>Everything is put back\<close>

lemma scratch_words [simp]: "4 dvd SCRATCH_SIZE" "SCRATCH_SIZE \<le> 4294967296"
  by (simp_all add: SCRATCH_SIZE_def)

lemma unat_offset: "i < n \<Longrightarrow> n \<le> 2 ^ 32 \<Longrightarrow> unat (a + word_of_nat i - a :: u32) = i"
  by (simp add: unat_of_nat)

text \<open>Putting back a part of the memory: it has its old bytes, and the rest is as it is.\<close>

lemma write_back:
  assumes "write_remote pk po mem a saved 0 = (mem', True)" and "length saved = n" and "4 dvd n" and "n \<le> 2 ^ 32"
  shows "bytes_at mem' a n = saved \<and> (\<forall>x. n \<le> unat (x - a) \<longrightarrow> mem' x = mem x)"
proof -
  have run: "(\<forall>x. n \<le> unat (x - a) \<longrightarrow> mem' x = mem x) \<and>
      (\<forall>x. unat (x - a) < n \<longrightarrow> mem' x = saved ! unat (x - a))"
    using write_run [of saved 0 pk po mem a mem' True] assms by simp
  have "mem' (a + word_of_nat i) = saved ! i" if "i < n" for i
    using run unat_offset [OF that assms(4), of a] that by simp
  then have "bytes_at mem' a n = saved"
    by (intro nth_equalityI) (simp_all add: bytes_at_def assms(2))
  with run show ?thesis by simp
qed

lemma place_string_length:
  "place_string regs stack s arg args = Some (stack', args') \<Longrightarrow> length stack = SCRATCH_SIZE \<Longrightarrow>
   length stack' = SCRATCH_SIZE"
  by (auto simp: place_string_def Let_def split: option.splits if_splits)

lemma remote_return:
  "wait_for_remote_return g regs rs = (st, r) \<Longrightarrow> r = 0 \<Longrightarrow> st \<and> arm_pc regs = ARM_RETURN_SENTINEL"
  by (induction g regs rs rule: wait_for_remote_return.induct) (auto split: if_splits)

text \<open>What is known at the label \<open>done\<close> after the stack has been written.\<close>

lemma run_remote_shape:
  assumes "run_remote w function args saved stack t = e" and "length stack = SCRATCH_SIZE" and "tg_stopped t"
  shows "ce_registers e = Some (tg_regs t) \<and> ce_stack e = Some saved \<and>
    tg_attached (ce_target e) = tg_attached t \<and>
    (cw_late_interrupt w \<and> wait_stopped (cw_late_waits w) = Stop_Ok \<longrightarrow> tg_stopped (ce_target e)) \<and>
    (\<not> cw_cont w \<longrightarrow> (\<forall>x. SCRATCH_SIZE \<le> unat (x - scratch_base (tg_regs t)) \<longrightarrow>
       tg_mem (ce_target e) x = tg_mem t x)) \<and>
    (ce_value e \<noteq> None \<longrightarrow> (\<exists>mem. let after = snd (cw_run w (mem, call_registers (tg_regs t) function args))
       in ce_value e = Some (arm_r0 after) \<and> arm_pc after = ARM_RETURN_SENTINEL))"
proof -
  obtain mem written where 1: "write_remote (\<lambda>_. True) (cw_poke_call w) (tg_mem t)
      (scratch_base (tg_regs t)) stack 0 = (mem, written)" by force
  have out: "\<forall>x. SCRATCH_SIZE \<le> unat (x - scratch_base (tg_regs t)) \<longrightarrow> mem x = tg_mem t x"
    using write_run [of stack 0 "\<lambda>_. True" "cw_poke_call w" "tg_mem t" "scratch_base (tg_regs t)" mem written]
      1 assms(2) by simp
  obtain mem2 after where 2: "cw_run w (mem, call_registers (tg_regs t) function args) = (mem2, after)" by force
  obtain st r where 3: "wait_for_remote_return (cw_getregs_after w) after (cw_reports w) = (st, r)" by force
  have ret: "r = 0 \<Longrightarrow> st \<and> arm_pc after = ARM_RETURN_SENTINEL" using remote_return [OF 3] .
  show ?thesis
    using assms(1,3) out ret unfolding run_remote_def Let_def 1 prod.case
    by (auto simp: 2 3 split: if_splits intro!: exI [of _ mem])
qed

lemma body_cases:
  assumes "call_body w source got args s arg t = e"
  obtains (early) "ce_stack e = None" "ce_target e = t" "ce_value e = None"
      "ce_registers e = None \<or> ce_registers e = Some (tg_regs t)"
  | (ran) f args' stack where "length stack = SCRATCH_SIZE"
      "e = run_remote w f args' (bytes_at (tg_mem t) (scratch_base (tg_regs t)) SCRATCH_SIZE) stack t"
proof -
  let ?regs = "tg_regs t"
  define slot where "slot = (if got
      then (if address_in_mapping (cw_maps w 0) source CHR ''w'' (Some DEVICE_TARGET)
            then map_option (\<lambda>bs. read_u32_le bs 0) (read_remote (cw_peek_slot w 0) (tg_mem t) source 4 0) else None)
      else Some source)"
  define saved where "saved = (if cw_malloc w
      then read_remote (cw_peek_stack w) (tg_mem t) (scratch_base ?regs) SCRATCH_SIZE 0 else None)"
  let ?bad = "\<lambda>f. f < 0x10000 \<or> \<not> address_in_mapping (cw_maps w 1) (f AND NOT 1) CHR ''x'' None \<or>
      arm_sp ?regs < word_of_nat SCRATCH_SIZE + 0x10000"
  have e: "e = (if cw_sentinel_mapped w \<or> \<not> cw_getregs w then call_at_done t None
      else case slot of None \<Rightarrow> call_at_done t (Some ?regs)
        | Some f \<Rightarrow> if ?bad f then call_at_done t (Some ?regs)
            else (case saved of None \<Rightarrow> call_at_done t (Some ?regs)
                  | Some sv \<Rightarrow> (case place_string ?regs sv s arg args of
                       None \<Rightarrow> call_at_done t (Some ?regs)
                     | Some (stack, args) \<Rightarrow> run_remote w f args sv stack t)))"
    using assms unfolding call_body_def Let_def slot_def saved_def by blast
  have at_done: thesis if "e = call_at_done t r" "r = None \<or> r = Some ?regs" for r
    using that by (intro early) (auto simp: call_at_done_def)
  show thesis
  proof (cases "cw_sentinel_mapped w \<or> \<not> cw_getregs w")
    case True
    with e show thesis by (intro at_done [of None]) auto
  next
    case running: False
    show thesis
    proof (cases "slot = None \<or> saved = None \<or> ?bad (the slot) \<or> place_string ?regs (the saved) s arg args = None")
      case True
      with e running show thesis by (intro at_done [of "Some ?regs"]) (auto split: option.splits)
    next
      case False
      then obtain f sv stack args' where found: "slot = Some f" "saved = Some sv" "\<not> ?bad f"
          "place_string ?regs sv s arg args = Some (stack, args')" by auto
      have "sv = bytes_at (tg_mem t) (scratch_base ?regs) SCRATCH_SIZE"
        using found(2) by (auto simp: saved_def bytes_at_def dest: read_run split: if_splits)
      moreover from this have "length stack = SCRATCH_SIZE" using place_string_length [OF found(4)] by simp
      moreover have "e = run_remote w f args' sv stack t"
        unfolding e if_not_P [OF running] found option.case if_not_P [OF found(3)] by simp
      ultimately show thesis by (intro ran) simp_all
    qed
  qed
qed

text \<open>A world in which putting back works: a thread that runs can be stopped, and the pokes, the
  registers and the detach at the end succeed. Everything else may fail.\<close>

definition puts_back :: "call_world \<Rightarrow> bool" where
  "puts_back w \<longleftrightarrow> (\<forall>i. cw_poke_restore w i) \<and> cw_setregs_back w \<and> cw_detach w \<and> cw_failed_detach w \<and>
     cw_late_interrupt w \<and> wait_stopped (cw_late_waits w) = Stop_Ok"

lemma call_done_back:
  assumes "ce_stack e = Some saved" and "ce_registers e = Some regs" and "length saved = SCRATCH_SIZE"
    and "call_done w e = (t', r, v)" and "tg_stopped (ce_target e)"
    and "(\<forall>i. cw_poke_restore w i) \<or> r = 0" and "cw_setregs_back w \<and> cw_detach w \<or> r = 0"
  shows "tg_regs t' = regs \<and> \<not> tg_attached t' \<and> \<not> tg_stopped t' \<and>
    bytes_at (tg_mem t') (scratch_base regs) SCRATCH_SIZE = saved \<and>
    (\<forall>x. SCRATCH_SIZE \<le> unat (x - scratch_base regs) \<longrightarrow> tg_mem t' x = tg_mem (ce_target e) x)"
proof -
  obtain mem ok where 1: "write_remote (\<lambda>_. True) (cw_poke_restore w) (tg_mem (ce_target e))
      (scratch_base regs) saved 0 = (mem, ok)" by force
  have "\<forall>i. cw_poke_restore w i \<Longrightarrow> ok"
    using write_succeeds [of saved "cw_poke_restore w" 0 "\<lambda>_. True" "tg_mem (ce_target e)" "scratch_base regs"]
      assms(3) by (simp add: 1)
  moreover have "r = 0 \<Longrightarrow> ok \<and> cw_setregs_back w \<and> cw_detach w"
    using assms(1,2,4,5) by (auto simp: call_done_def 1 Let_def split: if_splits)
  ultimately have facts: ok "cw_setregs_back w" "cw_detach w" using assms(6,7) by auto
  have "t' = (ce_target e)\<lparr>tg_mem := mem, tg_regs := regs, tg_attached := False, tg_stopped := False\<rparr>"
    using assms(1,2,4,5) facts by (auto simp: call_done_def 1 Let_def)
  with write_back [of _ _ _ _ saved mem SCRATCH_SIZE, OF _ assms(3)] 1 facts show ?thesis by auto
qed

text \<open>A remote call leaves the target as it found it, whatever fails on the way: if a running thread
  can be stopped and what is put back can be written, the registers and the stack below the stack
  pointer are the old ones and the target is released. A call that never came to run the function
  has changed nothing at all in the memory.\<close>

theorem remote_call_puts_back:
  assumes "puts_back w" and "\<not> tg_attached t" and "remote_call w source got args s arg t = (t', r, v)"
  shows "tg_regs t' = tg_regs t \<and> \<not> tg_attached t' \<and>
    bytes_at (tg_mem t') (scratch_base (tg_regs t)) SCRATCH_SIZE =
      bytes_at (tg_mem t) (scratch_base (tg_regs t)) SCRATCH_SIZE \<and>
    (\<not> cw_cont w \<longrightarrow> tg_mem t' = tg_mem t)"
proof (cases "verify_target w \<and> snd (attach_target w t)")
  case False
  with assms show ?thesis
    by (auto simp: remote_call_def attach_target_def puts_back_def split: if_splits)
next
  case True
  let ?t = "t\<lparr>tg_attached := True, tg_stopped := True\<rparr>" and ?base = "scratch_base (tg_regs t)"
  let ?saved = "bytes_at (tg_mem t) ?base SCRATCH_SIZE"
  define e where "e = call_body w source got args s arg ?t"
  have run: "call_done w e = (t', r, v)"
    using True assms(3) by (auto simp: remote_call_def attach_target_def e_def split: if_splits)
  have world: "\<forall>i. cw_poke_restore w i" "cw_setregs_back w" "cw_detach w"
    using assms(1) by (auto simp: puts_back_def)
  show ?thesis
  proof (cases rule: body_cases [OF e_def [symmetric]])
    case 1
    with run world have "tg_regs t' = tg_regs t \<and> tg_mem t' = tg_mem t \<and> \<not> tg_attached t'"
      by (auto simp: call_done_def Let_def)
    then show ?thesis by simp
  next
    case (2 f args' stack)
    note len = 2(1) and e = 2(2)
    note shape = run_remote_shape [OF e [symmetric] len]
    have stopped: "tg_stopped (ce_target e)" using shape assms(1) by (simp add: puts_back_def)
    note b = call_done_back [of e ?saved "tg_regs t", OF _ _ _ run stopped]
    have b: "tg_regs t' = tg_regs t \<and> \<not> tg_attached t' \<and> bytes_at (tg_mem t') ?base SCRATCH_SIZE = ?saved \<and>
        (\<forall>x. SCRATCH_SIZE \<le> unat (x - ?base) \<longrightarrow> tg_mem t' x = tg_mem (ce_target e) x)"
      using b shape world by simp
    have "tg_mem t' x = tg_mem t x" if "\<not> cw_cont w" for x
    proof (cases "SCRATCH_SIZE \<le> unat (x - ?base)")
      case True
      with b shape that show ?thesis by simp
    next
      case False
      then have "bytes_at (tg_mem t') ?base SCRATCH_SIZE ! unat (x - ?base) = ?saved ! unat (x - ?base)"
        using b by simp
      with False show ?thesis by (simp add: bytes_at_def)
    qed
    with b show ?thesis by (auto intro: ext)
  qed
qed

text \<open>A remote call that reports success has been transparent, without any assumption on the kernel:
  the function was entered with the call's registers and came back to the return address, its
  result is what is reported, and registers, stack and the running state of the target are as
  before.\<close>

theorem remote_call_transparent:
  assumes "remote_call w source got args s arg t = (t', 0, v)"
  shows "tg_regs t' = tg_regs t \<and> \<not> tg_attached t' \<and> \<not> tg_stopped t' \<and>
    bytes_at (tg_mem t') (scratch_base (tg_regs t)) SCRATCH_SIZE =
      bytes_at (tg_mem t) (scratch_base (tg_regs t)) SCRATCH_SIZE \<and>
    (\<exists>mem f args'. let after = snd (cw_run w (mem, call_registers (tg_regs t) f args'))
       in v = Some (arm_r0 after) \<and> arm_pc after = ARM_RETURN_SENTINEL)"
proof -
  have ok: "verify_target w \<and> snd (attach_target w t)"
    using assms by (auto simp: remote_call_def split: if_splits prod.splits)
  let ?t = "t\<lparr>tg_attached := True, tg_stopped := True\<rparr>" and ?base = "scratch_base (tg_regs t)"
  define e where "e = call_body w source got args s arg ?t"
  have run: "call_done w e = (t', 0, v)"
    using ok assms by (auto simp: remote_call_def attach_target_def e_def split: if_splits)
  have returned: "ce_value e \<noteq> None \<and> v = ce_value e \<and> tg_stopped (ce_target e)"
    using run by (auto simp: call_done_def Let_def split: if_splits option.splits prod.splits)
  obtain f args' stack where len: "length stack = SCRATCH_SIZE"
    and e: "e = run_remote w f args' (bytes_at (tg_mem ?t) (scratch_base (tg_regs ?t)) SCRATCH_SIZE) stack ?t"
    by (rule body_cases [OF e_def [symmetric]]) (use returned in auto)
  note shape = run_remote_shape [OF e [symmetric] len]
  have stopped: "tg_stopped (ce_target e)" using returned by blast
  note b = call_done_back [OF _ _ _ run stopped]
  have "tg_regs t' = tg_regs t \<and> \<not> tg_attached t' \<and> \<not> tg_stopped t' \<and>
      bytes_at (tg_mem t') ?base SCRATCH_SIZE = bytes_at (tg_mem t) ?base SCRATCH_SIZE"
    using b [of "bytes_at (tg_mem t) ?base SCRATCH_SIZE" "tg_regs t"] shape by simp
  moreover from shape returned obtain mem where "let after = snd (cw_run w (mem, call_registers (tg_regs t) f args'))
       in v = Some (arm_r0 after) \<and> arm_pc after = ARM_RETURN_SENTINEL" by (auto simp: Let_def)
  ultimately show ?thesis by blast
qed

section \<open>The frame of the call\<close>

lemma mask_down:
  fixes x :: u32
  shows "unat (x AND NOT (2 ^ k - 1)) = unat x div 2 ^ k * 2 ^ k"
proof -
  have "x AND NOT (2 ^ k - 1) = x AND NOT (mask k)" by (simp add: mask_eq_exp_minus_1)
  also have "\<dots> = push_bit k (drop_bit k x)" by (rule bit_word_eqI) (auto simp: bit_simps)
  finally have eq: "x AND NOT (2 ^ k - 1) = push_bit k (drop_bit k x)" .
  have le: "unat x div 2 ^ k * 2 ^ k \<le> unat x" by simp
  have lt: "unat x < 2 ^ 32" using unsigned_less [of x] by simp
  then have t: "take_bit 32 (unat x) = unat x" by (rule take_bit_nat_eq_self)
  have "unat (push_bit k (drop_bit k x)) = take_bit 32 (push_bit k (unat x div 2 ^ k))"
    by (simp add: unsigned_push_bit_eq unsigned_drop_bit_eq t flip: drop_bit_eq_div)
  also have "\<dots> = unat x div 2 ^ k * 2 ^ k"
    unfolding push_bit_eq_mult using le lt by (intro take_bit_nat_eq_self) linarith
  finally show ?thesis unfolding eq .
qed

text \<open>The frame of a call: for every stack pointer the code accepts, all the injector writes lies below
  it, the called function's stack pointer is 8-aligned as the procedure call standard asks and has
  4 KiB and more of scratch below it, and the string argument lies above the called function's frames
  and below the old stack pointer, so that the function cannot overwrite its own argument.\<close>

theorem call_frame_bounds:
  assumes "word_of_nat SCRATCH_SIZE + 0x10000 \<le> arm_sp regs"
  shows "let base = unat (scratch_base regs); sp = unat (arm_sp regs);
      callee = unat (arm_sp (call_registers regs f args)); text = unat (remote_string_address regs)
    in base + SCRATCH_SIZE \<le> sp \<and> sp < base + SCRATCH_SIZE + 8 \<and> callee mod 8 = 0 \<and>
      base + 0x1000 \<le> callee \<and> callee \<le> text \<and> text + PATH_GAP \<le> sp"
proof -
  let ?sp = "unat (arm_sp regs)"
  have sp: "0x13000 \<le> ?sp" using assms by (simp add: word_le_nat_alt SCRATCH_SIZE_def)
  have sub: "unat (arm_sp regs - word_of_nat n) = ?sp - n" if "n \<le> 0x3000" for n
    using sp that by (subst unat_sub) (simp_all add: word_le_nat_alt unat_of_nat)
  have "unat (scratch_base regs) = (?sp - 0x3000) div 8 * 8"
    using mask_down [of "arm_sp regs - 0x3000" 3] sub [of "0x3000"] by (simp add: scratch_base_def SCRATCH_SIZE_def)
  moreover have "unat (remote_string_address regs) = (?sp - 0x200) div 4 * 4"
    using mask_down [of "arm_sp regs - 0x200" 2] sub [of "0x200"]
    by (simp add: remote_string_address_def PATH_GAP_def)
  moreover have "unat (arm_sp (call_registers regs f args)) = (?sp - 0x1000) div 8 * 8"
    using mask_down [of "arm_sp regs - 0x1000" 3] sub [of "0x1000"]
    by (simp add: call_registers_def CALL_STACK_GAP_def)
  ultimately show ?thesis using sp unfolding Let_def SCRATCH_SIZE_def PATH_GAP_def by (auto; linarith)
qed

lemma call_frame_bounds_witness:
  "let regs = \<lparr>arm_r0 = 0, arm_r1 = 0, arm_sp = 0xbefff123, arm_lr = 0, arm_pc = 0x20000, arm_cpsr = 0x10,
         arm_others = []\<rparr>;
       base = unat (scratch_base regs); sp = unat (arm_sp regs);
       callee = unat (arm_sp (call_registers regs 0x30001 (1, 2))); text = unat (remote_string_address regs)
    in base + SCRATCH_SIZE \<le> sp \<and> sp < base + SCRATCH_SIZE + 8 \<and> callee mod 8 = 0 \<and>
      base + 0x1000 \<le> callee \<and> callee \<le> text \<and> text + PATH_GAP \<le> sp"
  unfolding Let_def [of "\<lparr>arm_r0 = 0, arm_r1 = 0, arm_sp = 0xbefff123, arm_lr = 0, arm_pc = 0x20000, arm_cpsr = 0x10,
         arm_others = []\<rparr>"]
  by (rule call_frame_bounds) (simp add: SCRATCH_SIZE_def)

section \<open>The word of the retired injector\<close>

text \<open>Restoring a word left by the retired injector never damages the target: the word ends as the
  original only if it was the original or the breakpoint, anything else is refused and left alone, and
  no other byte changes. The marker goes only when the word is the original and the target released.\<close>

theorem restore_word_safe:
  assumes "restore_word w a original_word t = (t', r, unlinked)"
  shows "(\<forall>x. 4 \<le> unat (x - a) \<longrightarrow> tg_mem t' x = tg_mem t x) \<and>
    (read_u32_le (bytes_at (tg_mem t) a 4) 0 \<noteq> ARM_BREAKPOINT_WORD \<longrightarrow> tg_mem t' = tg_mem t) \<and>
    tg_regs t' = tg_regs t \<and> unlinked = (r = 0) \<and>
    (r = 0 \<longrightarrow> read_u32_le (bytes_at (tg_mem t') a 4) 0 = original_word \<and> \<not> tg_attached t')"
proof (cases "verify_target w \<and> snd (attach_target w t)")
  case False
  with assms show ?thesis by (auto simp: restore_word_def attach_target_def split: if_splits)
next
  case True
  let ?t = "t\<lparr>tg_attached := True, tg_stopped := True\<rparr>"
  obtain mem ok where 1: "write_remote (\<lambda>_. True) (cw_poke_restore w) (tg_mem t) a (u32_bytes original_word) 0 = (mem, ok)"
    by force
  have out: "\<forall>x. 4 \<le> unat (x - a) \<longrightarrow> mem x = tg_mem t x"
    using write_run [of "u32_bytes original_word" 0] 1 by simp
  have stored: "read_u32_le (bytes_at mem a 4) 0 = original_word" if ok
    using write_back [of "\<lambda>_. True" "cw_poke_restore w" "tg_mem t" a "u32_bytes original_word" mem 4] 1 that
      read_u32_bytes [of 0 "[]" original_word "[]"] by simp
  have peek: "read_remote p (tg_mem t) a 4 0 = Some bs \<Longrightarrow> bs = bytes_at (tg_mem t) a 4" for p bs
    by (auto dest: read_run simp: bytes_at_def)
  have at: "attach_target w t = (?t, True)" using True by (auto simp: attach_target_def split: if_splits)
  show ?thesis
    using assms True out stored unfolding restore_word_def at Let_def
    by (auto simp: 1 dest!: peek split: if_splits option.splits)
qed

section \<open>A call that returns\<close>

lemma read_succeeds: "read_remote (\<lambda>_. True) mem a n offset \<noteq> None"
proof (induction "n - offset" arbitrary: offset rule: less_induct)
  case less
  show ?case
  proof (cases "offset < n")
    case True
    then have "n - (offset + min sizeof_long (n - offset)) < n - offset" by (simp add: sizeof_long_def)
    from less [OF this] show ?thesis by (subst read_remote.simps) (simp add: Let_def)
  qed (subst read_remote.simps, simp)
qed

text \<open>A library function that returns a handle, in a world in which nothing fails.\<close>

definition library_maps :: "maps_line list option" where
  "library_maps = Some [\<lparr>map_fields = Some (0x10000, 0x40000, ''r-xp''), line_text = ''/lib/libdl.so''\<rparr>]"

definition calm_call :: call_world where
  "calm_call = \<lparr>cw_exe = Some DEVICE_TARGET, cw_seize = True, cw_interrupt = True, cw_waits = [Wait_Stopped],
     cw_failed_detach = True, cw_sentinel_mapped = False, cw_getregs = True, cw_maps = \<lambda>_. library_maps,
     cw_peek_slot = \<lambda>_ _. True, cw_malloc = True, cw_peek_stack = \<lambda>_. True, cw_poke_call = \<lambda>_. True,
     cw_setregs = True, cw_cont = True, cw_run = \<lambda>(mem, regs). (mem, regs\<lparr>arm_r0 := 0x5000, arm_pc := 0\<rparr>),
     cw_reports = [Rr_Nothing, Rr_Stopped 11], cw_getregs_after = True, cw_late_interrupt = True,
     cw_late_waits = [Wait_Stopped], cw_poke_restore = \<lambda>_. True, cw_setregs_back = True, cw_detach = True\<rparr>"

definition device_target :: target where
  "device_target = \<lparr>tg_mem = \<lambda>_. 7,
     tg_regs = \<lparr>arm_r0 = 1, arm_r1 = 2, arm_sp = 0xbefff123, arm_lr = 3, arm_pc = 0x11000, arm_cpsr = 0x10,
       arm_others = []\<rparr>, tg_attached = False, tg_stopped = False\<rparr>"

lemma calm_call_returns: "\<exists>t' v. remote_call calm_call 0x20001 False (9, 0) None (-1) device_target = (t', 0, v)"
proof -
  let ?t = "device_target\<lparr>tg_attached := True, tg_stopped := True\<rparr>"
  let ?regs = "tg_regs device_target" and ?base = "scratch_base (tg_regs device_target)"
  obtain saved where saved: "read_remote (\<lambda>_. True) (tg_mem device_target) ?base SCRATCH_SIZE 0 = Some saved"
    using read_succeeds by fast
  then have len: "length saved = SCRATCH_SIZE" by (auto dest: read_run)
  have ok: "snd (write_remote (\<lambda>_. True) (\<lambda>_. True) m a saved 0)" for m a
    by (rule write_succeeds) (simp_all add: len)
  obtain m1 where 1: "write_remote (\<lambda>_. True) (\<lambda>_. True) (tg_mem device_target) ?base saved 0 = (m1, True)"
    using ok [of "tg_mem device_target" ?base] by (metis (full_types) prod.collapse)
  obtain m2 where 2: "write_remote (\<lambda>_. True) (\<lambda>_. True) m1 ?base saved 0 = (m2, True)"
    using ok [of m1 ?base] by (metis (full_types) prod.collapse)
  define regs where "regs = ?regs"
  have attach: "verify_target calm_call" "attach_target calm_call device_target = (?t, True)"
    by (simp_all add: verify_target_def verify_executable_def attach_target_def calm_call_def)
  have maps: "address_in_mapping library_maps (0x20001 AND NOT 1) CHR ''x'' None"
    by (simp add: library_maps_def address_in_mapping_def mapping_holds_def)
  have sp: "\<not> arm_sp ?regs < word_of_nat SCRATCH_SIZE + 0x10000" by (simp add: device_target_def SCRATCH_SIZE_def)
  have t: "tg_mem ?t = tg_mem device_target" "tg_regs ?t = ?regs" by simp_all
  have body: "call_body calm_call 0x20001 False (9, 0) None (-1) ?t = run_remote calm_call 0x20001 (9, 0) saved saved ?t"
    unfolding call_body_def Let_def t using maps sp saved by (simp add: calm_call_def place_string_def)
  have run: "run_remote calm_call 0x20001 (9, 0) saved saved ?t =
      \<lparr>ce_target = ?t\<lparr>tg_mem := m1, tg_regs := (call_registers ?regs 0x20001 (9, 0))\<lparr>arm_r0 := 0x5000, arm_pc := 0\<rparr>\<rparr>,
       ce_registers = Some ?regs, ce_stack = Some saved, ce_value = Some 0x5000\<rparr>"
    unfolding run_remote_def Let_def t using 1
    by (simp add: calm_call_def SIGSEGV_def ARM_RETURN_SENTINEL_def)
  have "snd (call_done calm_call (run_remote calm_call 0x20001 (9, 0) saved saved ?t)) = (0, Some 0x5000)"
    unfolding run call_done_def Let_def using 2 by (simp add: calm_call_def)
  then have "\<exists>t' v. call_done calm_call (run_remote calm_call 0x20001 (9, 0) saved saved ?t) = (t', 0, v)"
    by (metis prod.collapse)
  then show ?thesis unfolding remote_call_def using attach by (simp add: body)
qed

lemma remote_call_transparent_witness:
  "\<exists>t' v. remote_call calm_call 0x20001 False (9, 0) None (-1) device_target = (t', 0, v) \<and>
    tg_regs t' = tg_regs device_target \<and> \<not> tg_attached t'"
proof -
  obtain t' v where "remote_call calm_call 0x20001 False (9, 0) None (-1) device_target = (t', 0, v)"
    using calm_call_returns by blast
  from remote_call_transparent [OF this] this show ?thesis by blast
qed

lemma remote_call_puts_back_witness:
  "\<exists>t' r v. remote_call calm_call 0x20001 False (9, 0) (Some ''x'') 0 device_target = (t', r, v) \<and>
    tg_regs t' = tg_regs device_target \<and> \<not> tg_attached t'"
proof -
  obtain t' r v where 1: "remote_call calm_call 0x20001 False (9, 0) (Some ''x'') 0 device_target = (t', r, v)"
    by (metis prod_cases3)
  have "puts_back calm_call" "\<not> tg_attached device_target"
    by (simp_all add: puts_back_def calm_call_def device_target_def)
  from remote_call_puts_back [OF this 1] 1 show ?thesis by blast
qed

lemma restore_word_safe_witness:
  "\<exists>t' r u. restore_word calm_call 0x1ba20 0xe28fc603 device_target = (t', r, u) \<and>
    tg_regs t' = tg_regs device_target \<and> u = (r = 0)"
proof -
  obtain t' r u where 1: "restore_word calm_call 0x1ba20 0xe28fc603 device_target = (t', r, u)"
    by (metis prod_cases3)
  from restore_word_safe [OF 1] 1 show ?thesis by blast
qed

end
