(* ===== verification/Spec2Isabelle.thy ===== *)
theory Spec2Isabelle
  imports Runtime_Secret Ptz_Input Melt Audio_Link Sfx_Mixer Frame_Buffer Device_Functions Opl_Noise
    Patch_Supervisor Ptz_Path Worker Injector
begin

text \<open>E1 Doom.\<close>

end
